(* ===== verification/Prelude.thy ===== *)
theory Prelude
  imports Main "HOL-Library.Word" "HOL-Library.AList"
begin

text \<open>
  Shared vocabulary of the development: the machine integers of the Rust sources with their
  checked operations, the failures a call can end in, \<open>std::collections::HashMap\<close> as an
  association list, big-endian byte strings, and the lemma collections the component theories use.

  A \<open>HashMap\<close> is an association list with distinct keys. The order of the list stands for the
  unspecified iteration order of the real map, so a statement that holds for every such list holds
  for every iteration order; two maps are the same map when their lookup functions \<open>map_of\<close> agree.
\<close>

named_theorems hm_simps \<open>lookup, domain and distinctness facts of hash maps\<close>
named_theorems res_simps \<open>facts about results of fallible calls\<close>


section \<open>Machine integers\<close>

type_synonym u8 = "8 word"
type_synonym u32 = "32 word"
type_synonym u64 = "64 word"
type_synonym u128 = "128 word"

text \<open>\<open>i64\<close> has the same bits as \<open>u64\<close>; \<open>sint\<close> reads it as a signed value. The Rust casts
  \<open>as i64\<close> and \<open>as u64\<close> between the two keep the bits, so they are the identity here.\<close>

type_synonym i64 = "64 word"

text \<open>\<open>Uuid\<close> is sixteen bytes compared in order, which is the order of the 128-bit number.\<close>

type_synonym uuid = "128 word"


section \<open>Results of fallible calls\<close>

text \<open>
  \<^item> \<open>Panic\<close>: the thread panics (arithmetic overflow in a debug build, \<open>expect\<close> on a failed
    value, \<open>todo!()\<close>).
  \<^item> \<open>Deadlock\<close>: the thread locks a \<open>std::sync::Mutex\<close> it already holds and never returns.
  \<^item> \<open>Hang\<close>: a loop of the call never ends.
  \<^item> \<open>Fail\<close>: the call returns \<open>Err\<close> with this error value.
  Code that inspects a \<open>Result\<close> sees only \<open>Fail\<close>; the others end the thread.
\<close>

datatype error = Panic string | Deadlock | Hang | Fail string

type_synonym 'a res = "error + 'a"

abbreviation Ok :: "'a \<Rightarrow> 'a res" where "Ok \<equiv> Inr"

abbreviation Err :: "error \<Rightarrow> 'a res" where "Err \<equiv> Inl"

definition overflow :: error where
  "overflow = Panic ''attempt to compute with overflow''"

definition bind_res :: "'a res \<Rightarrow> ('a \<Rightarrow> 'b res) \<Rightarrow> 'b res" where
  "bind_res r f = (case r of Inl e \<Rightarrow> Inl e | Inr x \<Rightarrow> f x)"

lemma bind_res_simps [simp, res_simps]:
  "bind_res (Inl e) f = Inl e"
  "bind_res (Inr x) f = f x"
  by (simp_all add: bind_res_def)

lemma bind_res_Err_iff:
  "bind_res r f = Inl e \<longleftrightarrow> r = Inl e \<or> (\<exists>x. r = Inr x \<and> f x = Inl e)"
  by (cases r) simp_all

lemma bind_res_Ok_iff [res_simps]:
  "bind_res r f = Inr y \<longleftrightarrow> (\<exists>x. r = Inr x \<and> f x = Inr y)"
  by (cases r) auto

text \<open>A fallible operation along a list of arguments; the first failure ends it.\<close>

fun run_res :: "('s \<Rightarrow> 'e \<Rightarrow> 's res) \<Rightarrow> 's \<Rightarrow> 'e list \<Rightarrow> 's res" where
  "run_res f s [] = Ok s"
| "run_res f s (e # es) = bind_res (f s e) (\<lambda>s'. run_res f s' es)"

text \<open>\<open>collect::<Result<Vec<_>, _>>()\<close>: the first error ends it.\<close>

fun collect_res :: "('a \<Rightarrow> 'c res) \<Rightarrow> 'a list \<Rightarrow> 'c list res" where
  "collect_res f [] = Ok []"
| "collect_res f (x # xs) =
     bind_res (f x) (\<lambda>y. bind_res (collect_res f xs) (\<lambda>ys. Ok (y # ys)))"

lemma collect_res_map: "list_all (\<lambda>x. f x = Ok (g x)) xs \<Longrightarrow> collect_res f xs = Ok (map g xs)"
  by (induction xs) auto


section \<open>Checked arithmetic\<close>

text \<open>\<open>cargo build\<close> and \<open>cargo run\<close> use the \<open>dev\<close> profile, in which an overflowing \<open>+\<close>,
  \<open>-\<close> or negation panics.\<close>

definition checked_add :: "'a::len word \<Rightarrow> 'a word \<Rightarrow> 'a word res" where
  "checked_add a b = (if unat a + unat b < 2 ^ LENGTH('a) then Ok (a + b) else Err overflow)"

definition in_i64 :: "int \<Rightarrow> bool" where
  "in_i64 x \<longleftrightarrow> - (2 ^ 63) \<le> x \<and> x < 2 ^ 63"

definition checked_sub_i64 :: "i64 \<Rightarrow> i64 \<Rightarrow> i64 res" where
  "checked_sub_i64 a b = (if in_i64 (sint a - sint b) then Ok (a - b) else Err overflow)"

definition checked_neg_i64 :: "i64 \<Rightarrow> i64 res" where
  "checked_neg_i64 a = (if in_i64 (- sint a) then Ok (- a) else Err overflow)"

lemma checked_add_Ok:
  "checked_add a b = Inr c \<Longrightarrow> unat c = unat a + unat b"
  by (auto simp: checked_add_def unat_word_ariths split: if_splits)

lemma checked_add_Ok_iff:
  fixes a b :: "'a::len word"
  shows "checked_add a b = Inr c \<longleftrightarrow> unat a + unat b < 2 ^ LENGTH('a) \<and> c = a + b"
  by (auto simp: checked_add_def)

lemma checked_add_one_u128:
  "checked_add k 1 = (if k = - 1 then Err overflow else Ok (k + 1))" for k :: u128
proof (cases "unat k + 1 < 2 ^ 128")
  case True
  then have "unat (k + 1) \<noteq> 0" by (simp add: unat_word_ariths)
  then have "k \<noteq> - 1" by auto
  with True show ?thesis by (simp add: checked_add_def)
next
  case False
  then have "unat k + 1 = 2 ^ 128"
    using unsigned_less [of k, where ?'a = nat] by simp
  then have "of_nat (unat k + 1) = (0 :: u128)" by simp
  then have "k = - 1" by (simp add: eq_neg_iff_add_eq_0 add.commute)
  with False show ?thesis by (simp add: checked_add_def)
qed

lemma sint_in_i64: "in_i64 (sint (w :: i64))"
  using sint_greater_eq [of w] sint_less [of w] by (simp add: in_i64_def)

lemma sint_of_int_i64: "in_i64 x \<Longrightarrow> sint (word_of_int x :: i64) = x"
  by (simp add: in_i64_def sint_sbintrunc' signed_take_bit_int_eq_self)

lemma sint_sub_i64: "in_i64 (sint a - sint b) \<Longrightarrow> sint (a - b) = sint a - sint (b :: i64)"
proof -
  assume h: "in_i64 (sint a - sint b)"
  have "a - b = word_of_int (sint a - sint b)" by simp
  then show ?thesis using sint_of_int_i64 [OF h] by simp
qed

lemma sint_neg_i64: "in_i64 (- sint a) \<Longrightarrow> sint (- a) = - sint (a :: i64)"
proof -
  assume h: "in_i64 (- sint a)"
  have "- a = word_of_int (- sint a)" by simp
  then show ?thesis using sint_of_int_i64 [OF h] by simp
qed

lemma checked_sub_i64_Ok:
  "checked_sub_i64 a b = Inr c \<Longrightarrow> sint c = sint a - sint b"
  by (auto simp: checked_sub_i64_def sint_sub_i64 split: if_splits)

lemma checked_neg_i64_Ok:
  "checked_neg_i64 a = Inr c \<Longrightarrow> sint c = - sint a"
  by (auto simp: checked_neg_i64_def sint_neg_i64 split: if_splits)

lemma sint_unat_small: "unat (w :: i64) < 2 ^ 63 \<Longrightarrow> sint w = int (unat w)"
proof -
  assume "unat w < 2 ^ 63"
  then have "int (unat w) < int (2 ^ 63)" by (simp only: of_nat_less_iff)
  then have "in_i64 (uint w)" by (simp add: in_i64_def order_trans [OF _ uint_ge_0])
  from sint_of_int_i64 [OF this] show ?thesis by simp
qed


section \<open>Hash maps\<close>

type_synonym ('k, 'v) hash_map = "('k \<times> 'v) list"

abbreviation hm_get :: "('k, 'v) hash_map \<Rightarrow> 'k \<Rightarrow> 'v option" where
  "hm_get \<equiv> map_of"

abbreviation hm_insert :: "'k \<Rightarrow> 'v \<Rightarrow> ('k, 'v) hash_map \<Rightarrow> ('k, 'v) hash_map" where
  "hm_insert \<equiv> AList.update"

abbreviation hm_remove :: "'k \<Rightarrow> ('k, 'v) hash_map \<Rightarrow> ('k, 'v) hash_map" where
  "hm_remove \<equiv> AList.delete"

definition hm_contains :: "('k, 'v) hash_map \<Rightarrow> 'k \<Rightarrow> bool" where
  "hm_contains m k \<longleftrightarrow> hm_get m k \<noteq> None"

abbreviation hm_keys :: "('k, 'v) hash_map \<Rightarrow> 'k list" where
  "hm_keys m \<equiv> map fst m"

abbreviation hm_values :: "('k, 'v) hash_map \<Rightarrow> 'v list" where
  "hm_values m \<equiv> map snd m"

definition hm_wf :: "('k, 'v) hash_map \<Rightarrow> bool" where
  "hm_wf m \<longleftrightarrow> distinct (hm_keys m)"

text \<open>\<open>m.get(k).unwrap_or(d)\<close>\<close>

definition hm_get_or :: "('k, 'v) hash_map \<Rightarrow> 'k \<Rightarrow> 'v \<Rightarrow> 'v" where
  "hm_get_or m k d = (case hm_get m k of None \<Rightarrow> d | Some v \<Rightarrow> v)"

declare AList.update_conv' [simp, hm_simps]
declare AList.delete_conv' [simp, hm_simps]

lemma hm_wf_Nil [simp, hm_simps]: "hm_wf []"
  by (simp add: hm_wf_def)

lemma hm_wf_Cons [simp, hm_simps]: "hm_wf ((k, v) # m) \<longleftrightarrow> k \<notin> fst ` set m \<and> hm_wf m"
  by (auto simp: hm_wf_def)

lemma hm_wf_insert [simp, hm_simps]: "hm_wf m \<Longrightarrow> hm_wf (hm_insert k v m)"
  by (simp add: hm_wf_def AList.distinct_update)

lemma hm_wf_remove [simp, hm_simps]: "hm_wf m \<Longrightarrow> hm_wf (hm_remove k m)"
  by (simp add: hm_wf_def AList.distinct_delete)

lemma hm_keys_insert [hm_simps]: "fst ` set (hm_insert k v m) = insert k (fst ` set m)"
  by (simp add: AList.dom_update)

lemma hm_contains_iff [hm_simps]: "hm_contains m k \<longleftrightarrow> k \<in> fst ` set m"
  by (simp add: hm_contains_def map_of_eq_None_iff)

lemma hm_get_in: "hm_wf m \<Longrightarrow> (k, v) \<in> set m \<longleftrightarrow> hm_get m k = Some v"
  by (simp add: hm_wf_def)

lemma hm_get_or_insert [simp, hm_simps]:
  "hm_get_or (hm_insert k v m) k' d = (if k' = k then v else hm_get_or m k' d)"
  by (simp add: hm_get_or_def)

lemma hm_get_or_Nil [simp]: "hm_get_or [] k d = d"
  by (simp add: hm_get_or_def)

text \<open>Two well-formed maps with the same lookups hold the same entries, in some order.\<close>

lemma hm_same_entries:
  assumes "hm_wf m" "hm_wf m'" "hm_get m = hm_get m'"
  shows "set m = set m'"
proof (rule set_eqI)
  fix x
  show "x \<in> set m \<longleftrightarrow> x \<in> set m'"
    using assms by (cases x) (simp add: hm_get_in)
qed

text \<open>Searching is looking at the head of a filtered list.\<close>

lemma find_filter: "List.find P xs = (case filter P xs of [] \<Rightarrow> None | x # _ \<Rightarrow> Some x)"
  by (induction xs) auto

lemma find_in_filter: "List.find P (filter Q rs) = List.find (\<lambda>r. Q r \<and> P r) rs"
  by (induction rs) auto

end
