(* ===== verification/Mergeable.thy ===== *)
theory Mergeable
  imports Prelude
begin

text \<open>
  The interface \<open>Mergeable<V>\<close> of \<open>src/crdt.rs\<close>: a type with a \<open>merge\<close> operation, stated as a
  locale with the laws that make replicas converge, and its lifting to hash maps of mergeable
  values (the shape of \<open>AWORMap::merge\<close> and \<open>GCounter::merge\<close>).

  \<open>ok\<close> is the data invariant under which the laws hold. \<open>view\<close> forgets what a merge is not meant
  to reconcile (the iteration order of a hash map, the identity of the local actor), so the laws
  and the convergence theorems are equations between views.
\<close>

locale mergeable =
  fixes merge :: "'s \<Rightarrow> 's \<Rightarrow> 's" and ok :: "'s \<Rightarrow> bool" and view :: "'s \<Rightarrow> 'v"
  assumes ok_merge: "ok a \<Longrightarrow> ok b \<Longrightarrow> ok (merge a b)"
    and merge_cong: "ok a \<Longrightarrow> ok b \<Longrightarrow> ok a' \<Longrightarrow> ok b' \<Longrightarrow> view a = view a' \<Longrightarrow>
      view b = view b' \<Longrightarrow> view (merge a b) = view (merge a' b')"
    and merge_comm: "ok a \<Longrightarrow> ok b \<Longrightarrow> view (merge a b) = view (merge b a)"
    and merge_assoc: "ok a \<Longrightarrow> ok b \<Longrightarrow> ok c \<Longrightarrow>
      view (merge (merge a b) c) = view (merge a (merge b c))"
    and merge_idem: "ok a \<Longrightarrow> view (merge a a) = view a"
begin

text \<open>The order in which merging is the least upper bound.\<close>

definition below :: "'s \<Rightarrow> 's \<Rightarrow> bool" where
  "below a b \<longleftrightarrow> view (merge a b) = view b"

lemma below_refl: "ok a \<Longrightarrow> below a a"
  by (simp add: below_def merge_idem)

lemma below_antisym: "ok a \<Longrightarrow> ok b \<Longrightarrow> below a b \<Longrightarrow> below b a \<Longrightarrow> view a = view b"
  by (metis below_def merge_comm)

lemma below_cong:
  "ok a \<Longrightarrow> ok a' \<Longrightarrow> ok b \<Longrightarrow> view a = view a' \<Longrightarrow> below a b \<longleftrightarrow> below a' b"
  by (metis below_def merge_cong)

lemma below_trans:
  assumes "ok a" "ok b" "ok c" "below a b" "below b c"
  shows "below a c"
proof -
  have "view (merge a c) = view (merge a (merge b c))"
    using assms by (intro merge_cong) (auto simp: below_def ok_merge)
  also have "\<dots> = view (merge (merge a b) c)"
    using assms by (simp add: merge_assoc)
  also have "\<dots> = view (merge b c)"
    using assms by (intro merge_cong) (auto simp: below_def ok_merge)
  finally show ?thesis using assms by (simp add: below_def)
qed

lemma below_merge_left: "ok a \<Longrightarrow> ok b \<Longrightarrow> below a (merge a b)"
proof -
  assume ok: "ok a" "ok b"
  have "view (merge a (merge a b)) = view (merge (merge a a) b)"
    using ok by (simp add: merge_assoc)
  also have "\<dots> = view (merge a b)"
    using ok by (intro merge_cong) (auto simp: ok_merge merge_idem)
  finally show ?thesis by (simp add: below_def)
qed

lemma below_cong_right:
  "ok a \<Longrightarrow> ok b \<Longrightarrow> ok b' \<Longrightarrow> view b = view b' \<Longrightarrow> below a b \<Longrightarrow> below a b'"
  unfolding below_def using merge_cong [of a b a b'] by simp

lemma below_merge_right: "ok a \<Longrightarrow> ok b \<Longrightarrow> below b (merge a b)"
  using below_merge_left [of b a] below_cong_right [of b "merge b a" "merge a b"]
  by (simp add: ok_merge merge_comm)

lemma merge_least:
  assumes "ok a" "ok b" "ok c" "below a c" "below b c"
  shows "below (merge a b) c"
proof -
  have "view (merge (merge a b) c) = view (merge a (merge b c))"
    using assms by (simp add: merge_assoc)
  also have "\<dots> = view (merge a c)"
    using assms by (intro merge_cong) (auto simp: below_def ok_merge)
  finally show ?thesis using assms by (simp add: below_def)
qed

text \<open>A replica that starts at \<open>s\<close> and merges the states \<open>xs\<close> one after the other.\<close>

lemma foldl_ok: "ok s \<Longrightarrow> \<forall>x\<in>set xs. ok x \<Longrightarrow> ok (foldl merge s xs)"
  by (induction xs arbitrary: s) (auto simp: ok_merge)

lemma foldl_least:
  "\<lbrakk>ok s; \<forall>x\<in>set xs. ok x; ok c; below s c; \<forall>x\<in>set xs. below x c\<rbrakk> \<Longrightarrow> below (foldl merge s xs) c"
  by (induction xs arbitrary: s) (auto simp: ok_merge merge_least)

lemma foldl_start: "\<lbrakk>ok s; \<forall>x\<in>set xs. ok x\<rbrakk> \<Longrightarrow> below s (foldl merge s xs)"
proof (induction xs arbitrary: s)
  case Nil
  then show ?case by (simp add: below_refl)
next
  case (Cons x xs)
  then have "below (merge s x) (foldl merge (merge s x) xs)" by (simp add: ok_merge)
  with Cons.prems show ?case
    using below_trans [of s "merge s x"] by (simp add: below_merge_left ok_merge foldl_ok)
qed

lemma foldl_upper:
  "\<lbrakk>ok s; \<forall>x\<in>set xs. ok x; y \<in> set xs\<rbrakk> \<Longrightarrow> below y (foldl merge s xs)"
proof (induction xs arbitrary: s)
  case Nil
  then show ?case by simp
next
  case (Cons x xs)
  have "below x (merge s x)" "below (merge s x) (foldl merge (merge s x) xs)"
    using Cons.prems by (simp_all add: below_merge_right foldl_start ok_merge)
  then have "below x (foldl merge s (x # xs))"
    using Cons.prems below_trans [of x "merge s x"] by (simp add: ok_merge foldl_ok)
  with Cons show ?case by (auto simp: ok_merge)
qed

text \<open>
  Strong eventual consistency: two replicas that have seen the same states (up to views), in any
  order and any number of times, have the same view.
\<close>

lemma converge_below:
  assumes ok: "\<forall>x\<in>set (s # xs). ok x" "\<forall>x\<in>set (t # ys). ok x"
    and same: "view ` set (s # xs) \<subseteq> view ` set (t # ys)"
  shows "below (foldl merge s xs) (foldl merge t ys)"
proof -
  let ?T = "foldl merge t ys"
  have okT: "ok ?T" using ok by (simp add: foldl_ok)
  have top: "below y ?T" if "y \<in> set (t # ys)" for y
    using that ok by (auto simp: foldl_start foldl_upper)
  have "below x ?T" if x: "x \<in> set (s # xs)" for x
  proof -
    from x same obtain y where y: "y \<in> set (t # ys)" "view x = view y" by blast
    then show ?thesis using below_cong [of x y ?T] top [of y] x ok okT by auto
  qed
  then show ?thesis using ok okT by (intro foldl_least) auto
qed

lemma converge:
  assumes "\<forall>x\<in>set (s # xs). ok x" "\<forall>x\<in>set (t # ys). ok x"
    and "view ` set (s # xs) = view ` set (t # ys)"
  shows "view (foldl merge s xs) = view (foldl merge t ys)"
  using assms converge_below [of s xs t ys] converge_below [of t ys s xs]
  by (intro below_antisym) (auto simp: foldl_ok)

text \<open>Delivering a state a second time changes nothing.\<close>

lemma redelivery: "ok a \<Longrightarrow> ok b \<Longrightarrow> view (merge (merge a b) b) = view (merge a b)"
  using converge [of a "[b, b]" a "[b]"] by simp

end

text \<open>
  Structures inherit the laws from their fields: a struct whose merge merges one field, or two
  fields independently, is mergeable under the views of those fields.
\<close>

lemma mergeable_field:
  assumes "mergeable m1 ok1 view1" and merge: "\<And>a b. f (m a b) = m1 (f a) (f b)"
  shows "mergeable m (\<lambda>x. ok1 (f x)) (\<lambda>x. view1 (f x))"
proof (unfold_locales, goal_cases)
  case (2 a b a' b')
  then show ?case unfolding merge by (rule mergeable.merge_cong [OF assms(1)])
next
  case (3 a b)
  then show ?case unfolding merge by (rule mergeable.merge_comm [OF assms(1)])
qed (simp_all add: merge mergeable.ok_merge [OF assms(1)]
    mergeable.merge_assoc [OF assms(1)] mergeable.merge_idem [OF assms(1)])

lemma mergeable_pair:
  assumes "mergeable m1 ok1 view1" "mergeable m2 ok2 view2"
    and merge: "\<And>a b. f (m a b) = m1 (f a) (f b)" "\<And>a b. g (m a b) = m2 (g a) (g b)"
  shows "mergeable m (\<lambda>x. ok1 (f x) \<and> ok2 (g x)) (\<lambda>x. (view1 (f x), view2 (g x)))"
proof (unfold_locales, goal_cases)
  case (1 a b)
  then show ?case
    by (simp add: merge mergeable.ok_merge [OF assms(1)] mergeable.ok_merge [OF assms(2)])
next
  case (2 a b a' b')
  then have "view1 (m1 (f a) (f b)) = view1 (m1 (f a') (f b'))"
    by (intro mergeable.merge_cong [OF assms(1)]) simp_all
  moreover from 2 have "view2 (m2 (g a) (g b)) = view2 (m2 (g a') (g b'))"
    by (intro mergeable.merge_cong [OF assms(2)]) simp_all
  ultimately show ?case by (simp add: merge)
next
  case (3 a b)
  then show ?case
    by (simp add: merge mergeable.merge_comm [OF assms(1), of "f a" "f b"]
        mergeable.merge_comm [OF assms(2), of "g a" "g b"])
next
  case (4 a b c)
  then show ?case
    by (simp add: merge mergeable.merge_assoc [OF assms(1), of "f a" "f b" "f c"]
        mergeable.merge_assoc [OF assms(2), of "g a" "g b" "g c"])
next
  case (5 a)
  then show ?case
    by (simp add: merge mergeable.merge_idem [OF assms(1)] mergeable.merge_idem [OF assms(2)])
qed

text \<open>
  The merge loop over the entries of the other map: a key this map has is merged in place, a key
  it lacks is inserted.
\<close>

fun merge_into :: "('s \<Rightarrow> 's \<Rightarrow> 's) \<Rightarrow> ('k, 's) hash_map \<Rightarrow> ('k \<times> 's) list \<Rightarrow> ('k, 's) hash_map" where
  "merge_into f m [] = m"
| "merge_into f m ((k, v) # kvs) =
     merge_into f (hm_insert k (case hm_get m k of Some w \<Rightarrow> f w v | None \<Rightarrow> v) m) kvs"

definition join_opt :: "('s \<Rightarrow> 's \<Rightarrow> 's) \<Rightarrow> 's option \<Rightarrow> 's option \<Rightarrow> 's option" where
  "join_opt f a b = (case (a, b) of
     (Some x, Some y) \<Rightarrow> Some (f x y) | (Some x, None) \<Rightarrow> Some x | (None, b) \<Rightarrow> b)"

lemma join_opt_simps [simp]:
  "join_opt f (Some x) (Some y) = Some (f x y)"
  "join_opt f (Some x) None = Some x"
  "join_opt f None b = b"
  by (simp_all add: join_opt_def)

lemma merge_into_wf [simp, hm_simps]: "hm_wf m \<Longrightarrow> hm_wf (merge_into f m kvs)"
  by (induction f m kvs rule: merge_into.induct) auto

lemma merge_into_get [hm_simps]:
  "hm_wf kvs \<Longrightarrow> hm_get (merge_into f m kvs) k = join_opt f (hm_get m k) (hm_get kvs k)"
proof (induction f m kvs rule: merge_into.induct)
  case (1 f m)
  then show ?case by (cases "hm_get m k") simp_all
next
  case (2 f m k' v kvs)
  then have "hm_get kvs k' = None" "hm_wf kvs" by (simp_all add: map_of_eq_None_iff)
  with "2.IH" show ?case by (cases "hm_get m k'") simp_all
qed

lemma merge_into_keys: "fst ` set (merge_into f m kvs) = fst ` set m \<union> fst ` set kvs"
  by (induction f m kvs rule: merge_into.induct) (auto simp: hm_keys_insert)

text \<open>Hash maps whose values are mergeable, each under the invariant of its key.\<close>

locale keyed_mergeable =
  fixes merge :: "'s \<Rightarrow> 's \<Rightarrow> 's" and elem_ok :: "'k \<Rightarrow> 's \<Rightarrow> bool" and view :: "'s \<Rightarrow> 'v"
  assumes elem: "mergeable merge (elem_ok k) view"
begin

definition map_ok :: "('k, 's) hash_map \<Rightarrow> bool" where
  "map_ok m \<longleftrightarrow> hm_wf m \<and> (\<forall>k v. hm_get m k = Some v \<longrightarrow> elem_ok k v)"

definition map_view :: "('k, 's) hash_map \<Rightarrow> 'k \<Rightarrow> 'v option" where
  "map_view m k = map_option view (hm_get m k)"

lemma map_view_merge:
  "map_ok b \<Longrightarrow> map_view (merge_into merge a b) k =
     map_option view (join_opt merge (hm_get a k) (hm_get b k))"
  by (simp add: map_view_def merge_into_get map_ok_def)

lemma map_ok_merge: "map_ok a \<Longrightarrow> map_ok b \<Longrightarrow> map_ok (merge_into merge a b)"
  unfolding map_ok_def
  by (auto simp: merge_into_get join_opt_def mergeable.ok_merge [OF elem] split: option.splits)

lemmas elem_laws = mergeable.merge_cong [OF elem] mergeable.merge_comm [OF elem]
  mergeable.merge_assoc [OF elem] mergeable.merge_idem [OF elem]

lemma map_ok_get: "map_ok m \<Longrightarrow> hm_get m k = Some v \<Longrightarrow> elem_ok k v"
  by (simp add: map_ok_def)

lemma map_ok_wf: "map_ok m \<Longrightarrow> hm_wf m"
  by (simp add: map_ok_def)

lemma map_mergeable: "mergeable (merge_into merge) map_ok map_view"
proof (unfold_locales, goal_cases)
  case (1 a b)
  then show ?case by (rule map_ok_merge)
next
  case (2 a b a' b')
  show ?case
  proof
    fix k
    have "map_option view (hm_get a k) = map_option view (hm_get a' k)"
      "map_option view (hm_get b k) = map_option view (hm_get b' k)"
      using 2 by (auto simp: map_view_def fun_eq_iff)
    with 2 show "map_view (merge_into merge a b) k = map_view (merge_into merge a' b') k"
      by (cases "hm_get a k"; cases "hm_get b k"; cases "hm_get a' k"; cases "hm_get b' k")
        (auto simp: map_view_merge dest: map_ok_get intro: mergeable.merge_cong [OF elem])
  qed
next
  case (3 a b)
  then show ?case
    by (intro ext, simp add: map_view_merge)
      (auto simp: join_opt_def split: option.splits
        dest!: map_ok_get intro: mergeable.merge_comm [OF elem])
next
  case (4 a b c)
  then show ?case
    by (intro ext, simp add: map_view_merge map_ok_merge)
      (auto simp: join_opt_def merge_into_get map_ok_wf split: option.splits
        dest!: map_ok_get intro: mergeable.merge_assoc [OF elem])
next
  case (5 a)
  then show ?case
    by (intro ext) (auto simp: map_view_def merge_into_get map_ok_wf join_opt_def
        mergeable.merge_idem [OF elem] dest: map_ok_get split: option.splits)
qed

end

sublocale keyed_mergeable \<subseteq> entries: mergeable "merge_into merge" map_ok map_view
  by (rule map_mergeable)

end
