(* ===== verification/Crdt.thy ===== *)
theory Crdt
  imports Mergeable "HOL-Library.Product_Lexorder"
begin

text \<open>
  \<open>src/crdt.rs\<close>: grow-only counters, positive-negative counters, last-writer-wins registers, items,
  the map of items and the shopping list, each with its constructors, its mutators and its
  \<open>merge\<close>. The commented-out \<open>DeltaAWORMap\<close> and \<open>VClock\<close> are not code and are not modelled.
\<close>


section \<open>Grow-only counter\<close>

record gcounter =
  gc_counter :: "(uuid, u64) hash_map"
  gc_actor_id :: uuid

definition gcounter_new :: "uuid \<Rightarrow> gcounter" where
  "gcounter_new actor_id = \<lparr>gc_counter = [], gc_actor_id = actor_id\<rparr>"

definition gcounter_with_count :: "uuid \<Rightarrow> u64 \<Rightarrow> gcounter" where
  "gcounter_with_count actor_id count =
     \<lparr>gc_counter = hm_insert actor_id count [], gc_actor_id = actor_id\<rparr>"

definition gcounter_inc_by :: "gcounter \<Rightarrow> u64 \<Rightarrow> gcounter res" where
  "gcounter_inc_by g n =
     bind_res (checked_add (hm_get_or (gc_counter g) (gc_actor_id g) 0) n)
       (\<lambda>v. Ok (g\<lparr>gc_counter := hm_insert (gc_actor_id g) v (gc_counter g)\<rparr>))"

definition gcounter_inc :: "gcounter \<Rightarrow> gcounter res" where
  "gcounter_inc g =
     bind_res (checked_add (hm_get_or (gc_counter g) (gc_actor_id g) 0) 1)
       (\<lambda>v. Ok (g\<lparr>gc_counter := hm_insert (gc_actor_id g) v (gc_counter g)\<rparr>))"

definition gcounter_value_local :: "gcounter \<Rightarrow> u64" where
  "gcounter_value_local g = hm_get_or (gc_counter g) (gc_actor_id g) 0"

text \<open>\<open>Iterator::sum\<close> adds from the left, with the checked addition of the element type.\<close>

fun sum_u64 :: "u64 \<Rightarrow> u64 list \<Rightarrow> u64 res" where
  "sum_u64 acc [] = Ok acc"
| "sum_u64 acc (v # vs) = bind_res (checked_add acc v) (\<lambda>acc'. sum_u64 acc' vs)"

definition gcounter_value_total :: "gcounter \<Rightarrow> u64 res" where
  "gcounter_value_total g = sum_u64 0 (hm_values (gc_counter g))"

fun gcounter_merge_loop :: "(uuid, u64) hash_map \<Rightarrow> (uuid \<times> u64) list \<Rightarrow> (uuid, u64) hash_map" where
  "gcounter_merge_loop m [] = m"
| "gcounter_merge_loop m ((actor, count) # rest) =
     (let max_count = max count (hm_get_or m actor 0)
      in gcounter_merge_loop (hm_insert actor max_count m) rest)"

definition gcounter_merge :: "gcounter \<Rightarrow> gcounter \<Rightarrow> gcounter" where
  "gcounter_merge self other =
     self\<lparr>gc_counter := gcounter_merge_loop (gc_counter self) (gc_counter other)\<rparr>"


section \<open>Positive-negative counter\<close>

record pncounter =
  pn_p :: gcounter
  pn_n :: gcounter

definition pncounter_new :: "uuid \<Rightarrow> pncounter" where
  "pncounter_new actor = \<lparr>pn_p = gcounter_new actor, pn_n = gcounter_new actor\<rparr>"

definition pncounter_with_count :: "uuid \<Rightarrow> u64 \<Rightarrow> pncounter" where
  "pncounter_with_count actor amount =
     \<lparr>pn_p = gcounter_with_count actor amount, pn_n = gcounter_with_count actor 0\<rparr>"

definition pncounter_inc :: "pncounter \<Rightarrow> pncounter res" where
  "pncounter_inc c = bind_res (gcounter_inc (pn_p c)) (\<lambda>g. Ok (c\<lparr>pn_p := g\<rparr>))"

definition pncounter_inc_by :: "pncounter \<Rightarrow> u64 \<Rightarrow> pncounter res" where
  "pncounter_inc_by c n = bind_res (gcounter_inc_by (pn_p c) n) (\<lambda>g. Ok (c\<lparr>pn_p := g\<rparr>))"

definition pncounter_dec :: "pncounter \<Rightarrow> pncounter res" where
  "pncounter_dec c = bind_res (gcounter_inc (pn_n c)) (\<lambda>g. Ok (c\<lparr>pn_n := g\<rparr>))"

definition pncounter_dec_by :: "pncounter \<Rightarrow> u64 \<Rightarrow> pncounter res" where
  "pncounter_dec_by c n = bind_res (gcounter_inc_by (pn_n c) n) (\<lambda>g. Ok (c\<lparr>pn_n := g\<rparr>))"

definition pncounter_value_local :: "pncounter \<Rightarrow> i64 res" where
  "pncounter_value_local c =
     checked_sub_i64 (gcounter_value_local (pn_p c)) (gcounter_value_local (pn_n c))"

definition pncounter_value_total :: "pncounter \<Rightarrow> i64 res" where
  "pncounter_value_total c =
     bind_res (gcounter_value_total (pn_p c)) (\<lambda>p.
     bind_res (gcounter_value_total (pn_n c)) (\<lambda>n.
     checked_sub_i64 p n))"

definition pncounter_merge :: "pncounter \<Rightarrow> pncounter \<Rightarrow> pncounter" where
  "pncounter_merge self other =
     self\<lparr>pn_p := gcounter_merge (pn_p self) (pn_p other),
          pn_n := gcounter_merge (pn_n self) (pn_n other)\<rparr>"


section \<open>Last-writer-wins register\<close>

record 'a lwwreg =
  lww_val :: u32
  lww_clock :: u32
  lww_actor :: 'a

definition lwwreg_new :: "u32 \<Rightarrow> u32 \<Rightarrow> 'a \<Rightarrow> 'a lwwreg" where
  "lwwreg_new v clock actor = \<lparr>lww_val = v, lww_clock = clock, lww_actor = actor\<rparr>"

text \<open>\<open>Default\<close>, with the default of the actor type as an argument.\<close>

definition lwwreg_default :: "'a \<Rightarrow> 'a lwwreg" where
  "lwwreg_default actor_default = \<lparr>lww_val = 0, lww_clock = 0, lww_actor = actor_default\<rparr>"

definition lwwreg_should_update :: "'a::linorder lwwreg \<Rightarrow> u32 \<Rightarrow> 'a \<Rightarrow> bool" where
  "lwwreg_should_update r clock actor =
     (if clock > lww_clock r then True
      else if clock < lww_clock r then False
      else actor > lww_actor r)"

definition lwwreg_update :: "'a::linorder lwwreg \<Rightarrow> u32 \<Rightarrow> u32 \<Rightarrow> 'a \<Rightarrow> 'a lwwreg" where
  "lwwreg_update r v clock actor =
     (if lwwreg_should_update r clock actor
      then r\<lparr>lww_val := v, lww_clock := clock, lww_actor := actor\<rparr> else r)"

definition lwwreg_merge :: "'a::linorder lwwreg \<Rightarrow> 'a lwwreg \<Rightarrow> 'a lwwreg" where
  "lwwreg_merge self other =
     (if lwwreg_should_update self (lww_clock other) (lww_actor other)
      then self\<lparr>lww_val := lww_val other, lww_clock := lww_clock other,
                lww_actor := lww_actor other\<rparr>
      else self)"


section \<open>Items, the map of items, the shopping list\<close>

record item =
  amount :: pncounter
  acquired :: "uuid lwwreg"

definition bool_as_u32 :: "bool \<Rightarrow> u32" where
  "bool_as_u32 b = (if b then 1 else 0)"

definition item_new :: "u64 \<Rightarrow> bool \<Rightarrow> uuid \<Rightarrow> item" where
  "item_new quantity acq client_id =
     \<lparr>amount = pncounter_with_count client_id quantity,
      acquired = \<lparr>lww_val = bool_as_u32 acq, lww_clock = 0, lww_actor = client_id\<rparr>\<rparr>"

definition item_merge :: "item \<Rightarrow> item \<Rightarrow> item" where
  "item_merge self other =
     self\<lparr>amount := pncounter_merge (amount self) (amount other),
          acquired := lwwreg_merge (acquired self) (acquired other)\<rparr>"

record awormap =
  aw_items :: "(string, item) hash_map"

definition awormap_new :: awormap where
  "awormap_new = \<lparr>aw_items = []\<rparr>"

definition awormap_is_empty :: "awormap \<Rightarrow> bool" where
  "awormap_is_empty m \<longleftrightarrow> aw_items m = []"

definition awormap_keys :: "awormap \<Rightarrow> string list" where
  "awormap_keys m = map (\<lambda>(k, _). k) (aw_items m)"

definition awormap_values :: "awormap \<Rightarrow> item list" where
  "awormap_values m = map (\<lambda>v. v) (hm_values (aw_items m))"

definition awormap_insert :: "awormap \<Rightarrow> string \<Rightarrow> item \<Rightarrow> awormap" where
  "awormap_insert m name itm =
     (case hm_get (aw_items m) name of
        Some old \<Rightarrow> m\<lparr>aw_items := hm_insert name (item_merge old itm) (aw_items m)\<rparr>
      | None \<Rightarrow> m\<lparr>aw_items := hm_insert name itm (aw_items m)\<rparr>)"

fun awormap_merge_loop ::
    "(string, item) hash_map \<Rightarrow> (string \<times> item) list \<Rightarrow> (string, item) hash_map" where
  "awormap_merge_loop m [] = m"
| "awormap_merge_loop m ((key, other_item) # rest) =
     (case hm_get m key of
        Some self_item \<Rightarrow>
          awormap_merge_loop (hm_insert key (item_merge self_item other_item) m) rest
      | None \<Rightarrow> awormap_merge_loop (hm_insert key other_item m) rest)"

definition awormap_merge :: "awormap \<Rightarrow> awormap \<Rightarrow> awormap" where
  "awormap_merge self other =
     self\<lparr>aw_items := awormap_merge_loop (aw_items self) (aw_items other)\<rparr>"

record shopping_list =
  sl_id :: uuid
  sl_list :: awormap


section \<open>Views: what replicas agree on\<close>

text \<open>
  A counter is viewed as its lookup function: the local actor identity and the iteration order are
  not shared state. A register is viewed as it is. Register writes carry a stamp
  \<open>(clock, actor)\<close>; a history \<open>h\<close> gives the value written under each stamp, and a register is
  coherent when its value is the one its stamp was written with. Clients produce coherent registers
  because a client's clock only grows.
\<close>

definition gcounter_ok :: "gcounter \<Rightarrow> bool" where
  "gcounter_ok g \<longleftrightarrow> hm_wf (gc_counter g)"

definition gcounter_view :: "gcounter \<Rightarrow> uuid \<Rightarrow> u64 option" where
  "gcounter_view g = hm_get (gc_counter g)"

definition pncounter_ok :: "pncounter \<Rightarrow> bool" where
  "pncounter_ok c \<longleftrightarrow> gcounter_ok (pn_p c) \<and> gcounter_ok (pn_n c)"

definition pncounter_view ::
    "pncounter \<Rightarrow> (uuid \<Rightarrow> u64 option) \<times> (uuid \<Rightarrow> u64 option)" where
  "pncounter_view c = (gcounter_view (pn_p c), gcounter_view (pn_n c))"

definition lww_stamp :: "'a lwwreg \<Rightarrow> u32 \<times> 'a" where
  "lww_stamp r = (lww_clock r, lww_actor r)"

type_synonym history = "u32 \<times> uuid \<Rightarrow> u32"

definition lww_coherent :: "(u32 \<times> 'a \<Rightarrow> u32) \<Rightarrow> 'a lwwreg \<Rightarrow> bool" where
  "lww_coherent h r \<longleftrightarrow> lww_val r = h (lww_stamp r)"

type_synonym item_view =
  "((uuid \<Rightarrow> u64 option) \<times> (uuid \<Rightarrow> u64 option)) \<times> uuid lwwreg"

definition item_ok :: "history \<Rightarrow> item \<Rightarrow> bool" where
  "item_ok h i \<longleftrightarrow> pncounter_ok (amount i) \<and> lww_coherent h (acquired i)"

definition item_view :: "item \<Rightarrow> item_view" where
  "item_view i = (pncounter_view (amount i), acquired i)"

definition awormap_ok :: "(string \<Rightarrow> history) \<Rightarrow> awormap \<Rightarrow> bool" where
  "awormap_ok h m \<longleftrightarrow> hm_wf (aw_items m) \<and>
     (\<forall>k i. hm_get (aw_items m) k = Some i \<longrightarrow> item_ok (h k) i)"

definition awormap_view :: "awormap \<Rightarrow> string \<Rightarrow> item_view option" where
  "awormap_view m k = map_option item_view (hm_get (aw_items m) k)"


subsection \<open>Counters\<close>

lemma gcounter_merge_loop_merge_into:
  "gcounter_merge_loop m kvs = merge_into (\<lambda>x y. max y x) m kvs"
proof (induction m kvs rule: gcounter_merge_loop.induct)
  case (1 m)
  then show ?case by simp
next
  case (2 m actor count rest)
  have "max count (hm_get_or m actor 0) =
      (case hm_get m actor of None \<Rightarrow> count | Some w \<Rightarrow> max count w)"
    by (cases "hm_get m actor") (simp_all add: hm_get_or_def max_def)
  with 2 show ?case by (simp add: Let_def)
qed

lemma max_mergeable: "mergeable (\<lambda>x y. max y (x :: u64)) (\<lambda>_. True) (\<lambda>x. x)"
  by unfold_locales (auto simp: max.commute max.left_commute)

interpretation u64_map: keyed_mergeable "\<lambda>x y. max y (x :: u64)" "\<lambda>(_ :: uuid) _. True" "\<lambda>x. x"
  by (unfold_locales) (auto simp: max.commute max.left_commute)

lemma u64_map_ok [simp]: "u64_map.map_ok m \<longleftrightarrow> hm_wf m"
  by (simp add: u64_map.map_ok_def)

lemma u64_map_view [simp]: "u64_map.map_view m = hm_get m"
  by (simp add: fun_eq_iff u64_map.map_view_def option.map_ident)

lemma gcounter_counter_merge [simp]:
  "gc_counter (gcounter_merge a b) =
     merge_into (\<lambda>x y. max y x) (gc_counter a) (gc_counter b)"
  "gc_actor_id (gcounter_merge a b) = gc_actor_id a"
  by (simp_all add: gcounter_merge_def gcounter_merge_loop_merge_into)

interpretation gcounter: mergeable gcounter_merge gcounter_ok gcounter_view
  using mergeable_field [OF u64_map.map_mergeable, of gc_counter gcounter_merge]
  by (simp add: gcounter_ok_def [abs_def] gcounter_view_def [abs_def])

interpretation pncounter: mergeable pncounter_merge pncounter_ok pncounter_view
  unfolding pncounter_ok_def [abs_def] pncounter_view_def [abs_def]
  by (rule mergeable_pair [OF gcounter.mergeable_axioms gcounter.mergeable_axioms])
    (simp_all add: pncounter_merge_def)


subsection \<open>Registers\<close>

lemma lwwreg_should_update_stamp:
  "lwwreg_should_update r clock actor \<longleftrightarrow> lww_stamp r < (clock, actor)"
  by (auto simp: lwwreg_should_update_def lww_stamp_def)

lemma lwwreg_merge_stamp:
  "lwwreg_merge a b = (if lww_stamp a < lww_stamp b then b else a)" for a :: "'a::linorder lwwreg"
proof -
  have "lwwreg_should_update a (lww_clock b) (lww_actor b) \<longleftrightarrow> lww_stamp a < lww_stamp b"
    by (simp only: lwwreg_should_update_stamp) (simp add: lww_stamp_def)
  then show ?thesis by (simp add: lwwreg_merge_def)
qed

lemma lww_coherent_unique:
  "lww_coherent h a \<Longrightarrow> lww_coherent h b \<Longrightarrow> lww_stamp a = lww_stamp b \<Longrightarrow> a = b"
  by (simp add: lww_coherent_def lww_stamp_def)

interpretation lwwreg: mergeable "lwwreg_merge :: 'a::linorder lwwreg \<Rightarrow> _" "lww_coherent h" "\<lambda>r. r"
  for h :: "u32 \<times> 'a::linorder \<Rightarrow> u32"
proof (unfold_locales, goal_cases)
  case (3 a b)
  then show ?case
    using lww_coherent_unique [of h a b] by (auto simp: lwwreg_merge_stamp)
qed (auto simp: lwwreg_merge_stamp)


subsection \<open>Items and maps of items\<close>

interpretation item: mergeable item_merge "item_ok h" item_view for h
  unfolding item_ok_def [abs_def] item_view_def [abs_def]
  by (rule mergeable_pair [OF pncounter.mergeable_axioms lwwreg.mergeable_axioms])
    (simp_all add: item_merge_def)

interpretation item_map: keyed_mergeable item_merge "\<lambda>k. item_ok (h k)" item_view
  for h :: "string \<Rightarrow> history"
  by (simp add: keyed_mergeable_def item.mergeable_axioms)

lemma awormap_merge_loop_merge_into:
  "awormap_merge_loop m kvs = merge_into item_merge m kvs"
  by (induction m kvs rule: awormap_merge_loop.induct) (auto split: option.splits)

lemma awormap_items_merge [simp]:
  "aw_items (awormap_merge a b) = merge_into item_merge (aw_items a) (aw_items b)"
  by (simp add: awormap_merge_def awormap_merge_loop_merge_into)

lemma awormap_ok_map: "awormap_ok h m \<longleftrightarrow> keyed_mergeable.map_ok (\<lambda>k. item_ok (h k)) (aw_items m)"
  by (simp add: awormap_ok_def item_map.map_ok_def)

lemma awormap_view_map: "awormap_view m = keyed_mergeable.map_view item_view (aw_items m)"
  by (simp add: fun_eq_iff awormap_view_def item_map.map_view_def)

interpretation awormap: mergeable awormap_merge "awormap_ok h" awormap_view for h
  unfolding awormap_ok_map [abs_def] awormap_view_map [abs_def]
  by (rule mergeable_field [OF item_map.map_mergeable]) simp


section \<open>What counters count\<close>

definition gcounter_sum :: "gcounter \<Rightarrow> nat" where
  "gcounter_sum g = (\<Sum>v\<leftarrow>hm_values (gc_counter g). unat v)"

lemma sum_u64_spec:
  "sum_u64 acc vs =
     (if unat acc + (\<Sum>v\<leftarrow>vs. unat v) < 2 ^ 64 then Ok (acc + sum_list vs) else Err overflow)"
proof (induction acc vs rule: sum_u64.induct)
  case (1 acc)
  then show ?case using unsigned_less [of acc, where ?'a = nat] by simp
next
  case (2 acc v vs)
  show ?case
  proof (cases "unat acc + unat v < 2 ^ 64")
    case True
    then have "checked_add acc v = Ok (acc + v)" "unat (acc + v) = unat acc + unat v"
      by (simp_all add: checked_add_def unat_word_ariths)
    with 2 [of "acc + v"] show ?thesis by (simp add: add.assoc)
  next
    case False
    then show ?thesis by (simp add: checked_add_def)
  qed
qed

lemma hm_get_or_Cons [simp]: "hm_get_or ((k, v) # m) k' d = (if k' = k then v else hm_get_or m k' d)"
  by (simp add: hm_get_or_def)

lemma hm_sum_over_keys:
  "\<lbrakk>hm_wf m; finite K; fst ` set m \<subseteq> K\<rbrakk> \<Longrightarrow>
     (\<Sum>v\<leftarrow>hm_values m. unat v) = (\<Sum>k\<in>K. unat (hm_get_or m k (0 :: u64)))"
proof (induction m)
  case Nil
  then show ?case by simp
next
  case (Cons e m)
  obtain k v where e: "e = (k, v)" by force
  have k: "k \<in> K" "k \<notin> fst ` set m" using Cons.prems by (auto simp: e)
  then have "hm_get_or m k 0 = 0"
    by (simp add: hm_get_or_def map_of_eq_None_iff [THEN iffD2])
  moreover have "(\<Sum>j\<in>K. unat (hm_get_or (e # m) j 0)) =
      unat v + (\<Sum>j\<in>K - {k}. unat (hm_get_or m j 0))"
    using k Cons.prems(2) by (simp add: e sum.remove [of K k])
  ultimately show ?case
    using Cons k by (simp add: e sum.remove [of K k])
qed

lemma gcounter_sum_over_keys:
  "\<lbrakk>gcounter_ok g; finite K; fst ` set (gc_counter g) \<subseteq> K\<rbrakk> \<Longrightarrow>
     gcounter_sum g = (\<Sum>k\<in>K. unat (hm_get_or (gc_counter g) k 0))"
  unfolding gcounter_sum_def gcounter_ok_def by (rule hm_sum_over_keys)

lemma gcounter_sum_view:
  assumes "gcounter_ok a" "gcounter_ok b" "gcounter_view a = gcounter_view b"
  shows "gcounter_sum a = gcounter_sum b"
proof -
  let ?K = "fst ` set (gc_counter a) \<union> fst ` set (gc_counter b)"
  have "hm_get_or (gc_counter a) k 0 = hm_get_or (gc_counter b) k 0" for k
    using assms(3) by (simp add: hm_get_or_def gcounter_view_def)
  then show ?thesis
    using assms(1,2) by (simp add: gcounter_sum_over_keys [where K = ?K])
qed

lemma gcounter_get_merge:
  "gcounter_ok b \<Longrightarrow> hm_get_or (gc_counter (gcounter_merge a b)) k 0 =
     max (hm_get_or (gc_counter a) k 0) (hm_get_or (gc_counter b) k 0)"
  by (auto simp: hm_get_or_def merge_into_get gcounter_ok_def max_def join_opt_def
      split: option.splits)

lemma gcounter_sum_inc_by:
  assumes "gcounter_ok g" "gcounter_inc_by g n = Ok g'"
  shows "gcounter_ok g'" "gcounter_sum g' = gcounter_sum g + unat n"
    "gc_actor_id g' = gc_actor_id g"
    "gcounter_view g' = (gcounter_view g)(gc_actor_id g \<mapsto> gcounter_value_local g + n)"
proof -
  let ?a = "gc_actor_id g"
  let ?K = "insert ?a (fst ` set (gc_counter g))"
  obtain v where v: "checked_add (hm_get_or (gc_counter g) ?a 0) n = Ok v"
    and g': "g' = g\<lparr>gc_counter := hm_insert ?a v (gc_counter g)\<rparr>"
    using assms(2) by (auto simp: gcounter_inc_by_def bind_res_Ok_iff)
  show ok: "gcounter_ok g'" using assms(1) by (simp add: g' gcounter_ok_def)
  show "gc_actor_id g' = gc_actor_id g" by (simp add: g')
  have "gcounter_sum g' = unat v + (\<Sum>k\<in>?K - {?a}. unat (hm_get_or (gc_counter g) k 0))"
    using ok by (subst gcounter_sum_over_keys [where K = ?K])
      (auto simp: g' hm_keys_insert sum.remove [of ?K ?a])
  moreover have "gcounter_sum g = unat (hm_get_or (gc_counter g) ?a 0)
      + (\<Sum>k\<in>?K - {?a}. unat (hm_get_or (gc_counter g) k 0))"
    using assms(1) by (subst gcounter_sum_over_keys [where K = ?K])
      (auto simp: sum.remove [of ?K ?a])
  ultimately show "gcounter_sum g' = gcounter_sum g + unat n"
    using checked_add_Ok [OF v] by simp
  show "gcounter_view g' = (gcounter_view g)(?a \<mapsto> gcounter_value_local g + n)"
    using v by (simp add: g' gcounter_view_def gcounter_value_local_def checked_add_Ok_iff)
qed

lemma unat_max: "unat (max v w) = max (unat v) (unat w)"
  by (simp add: max_def word_le_nat_alt)

lemma gcounter_entry_le_sum: "gcounter_ok g \<Longrightarrow> unat (hm_get_or (gc_counter g) k 0) \<le> gcounter_sum g"
  by (subst gcounter_sum_over_keys [where K = "insert k (fst ` set (gc_counter g))"])
    (auto simp: sum.insert_remove)

lemma gcounter_inc_by_total:
  assumes "gcounter_ok g" "gcounter_sum g + unat n < 2 ^ 64"
  shows "\<exists>g'. gcounter_inc_by g n = Ok g'"
  using assms gcounter_entry_le_sum [of g "gc_actor_id g"]
  by (simp add: gcounter_inc_by_def checked_add_def)

lemma gcounter_total_small:
  "gcounter_sum g < 2 ^ 64 \<Longrightarrow> gcounter_value_total g = Ok (of_nat (gcounter_sum g))"
proof -
  have "sum_list vs = of_nat (\<Sum>v\<leftarrow>vs. unat v)" for vs :: "u64 list"
    by (induction vs) simp_all
  then show "gcounter_sum g < 2 ^ 64 \<Longrightarrow> ?thesis"
    by (simp add: gcounter_value_total_def sum_u64_spec gcounter_sum_def del: map_map)
qed

lemma sint_of_nat_i64: "n < 2 ^ 63 \<Longrightarrow> sint (of_nat n :: i64) = int n"
  using sint_of_int_i64 [of "int n"] by (simp add: in_i64_def)

lemma pncounter_total_small:
  assumes "gcounter_sum (pn_p c) < 2 ^ 63" "gcounter_sum (pn_n c) < 2 ^ 63"
  shows "\<exists>v. pncounter_value_total c = Ok v \<and>
    sint v = int (gcounter_sum (pn_p c)) - int (gcounter_sum (pn_n c))"
proof -
  let ?p = "of_nat (gcounter_sum (pn_p c)) :: i64" and ?n = "of_nat (gcounter_sum (pn_n c)) :: i64"
  have "in_i64 (sint ?p - sint ?n)"
    using assms by (simp add: sint_of_nat_i64 in_i64_def)
  then have "checked_sub_i64 ?p ?n = Ok (?p - ?n)" by (simp add: checked_sub_i64_def)
  with checked_sub_i64_Ok [OF this] assms show ?thesis
    by (simp add: pncounter_value_total_def gcounter_total_small sint_of_nat_i64)
qed

section \<open>Properties\<close>

text \<open>C1: Replicas converge. Two replicas of a shopping map that have merged the same states, in any
  order, any grouping into their starting state and any number of times each, agree on every item:
  the same names, the same counts of every actor and the same acquired register. The states are
  well-formed maps whose registers are coherent with one history of register writes per item.\<close>

theorem awormap_replicas_converge:
  assumes "\<forall>x\<in>set (s # xs). awormap_ok h x" and "\<forall>y\<in>set (t # ys). awormap_ok h y"
    and "awormap_view ` set (s # xs) = awormap_view ` set (t # ys)"
  shows "awormap_view (foldl awormap_merge s xs) = awormap_view (foldl awormap_merge t ys)"
  using assms by (rule awormap.converge)

theorem awormap_replicas_converge_witness:
  "let h = (\<lambda>_ s. if s = (0, 2) then 1 else 0);
       a = \<lparr>aw_items = [(''apple'', item_new 3 False 1)]\<rparr>;
       b = \<lparr>aw_items = [(''pear'', item_new 1 False 2 \<lparr>acquired := lwwreg_new 1 0 2\<rparr>),
                       (''apple'', item_new 5 True 2)]\<rparr>
   in awormap_view (foldl awormap_merge a [b, a, b]) = awormap_view (foldl awormap_merge b [a])"
  unfolding Let_def
  by (rule awormap_replicas_converge [where h = "\<lambda>_ s. if s = (0, 2) then 1 else 0"])
    (auto simp: awormap_ok_def item_ok_def pncounter_ok_def gcounter_ok_def lww_coherent_def
      lww_stamp_def item_new_def pncounter_with_count_def gcounter_with_count_def lwwreg_new_def
      bool_as_u32_def)

text \<open>Merging two shopping maps keeps every name of either map; an item both maps have becomes
  the merge of the two items and an item only one map has is taken over unchanged, whatever the
  iteration order of the merged-in map.\<close>

lemma awormap_merge_items:
  assumes "hm_wf (aw_items other)"
  shows "set (awormap_keys (awormap_merge self other)) =
      set (awormap_keys self) \<union> set (awormap_keys other) \<and>
    hm_get (aw_items (awormap_merge self other)) name =
      (case hm_get (aw_items self) name of
         None \<Rightarrow> hm_get (aw_items other) name
       | Some mine \<Rightarrow> Some (case hm_get (aw_items other) name of
           None \<Rightarrow> mine | Some theirs \<Rightarrow> item_merge mine theirs))"
  using assms merge_into_keys [of item_merge "aw_items self" "aw_items other"]
  by (auto simp: merge_into_get awormap_keys_def case_prod_unfold split: option.splits)

lemma awormap_merge_items_witness:
  "hm_get (aw_items (awormap_merge \<lparr>aw_items = [(''apple'', item_new 3 False 1)]\<rparr>
      \<lparr>aw_items = [(''pear'', item_new 1 True 2), (''apple'', item_new 5 True 2)]\<rparr>)) ''apple''
    = Some (item_merge (item_new 3 False 1) (item_new 5 True 2))"
  using awormap_merge_items [of "\<lparr>aw_items = [(''pear'', item_new 1 True 2),
      (''apple'', item_new 5 True 2)]\<rparr>" "\<lparr>aw_items = [(''apple'', item_new 3 False 1)]\<rparr>" "''apple''"]
  by simp

text \<open>Merging registers keeps the write with the larger (clock, actor) stamp, clocks compared
  first and actors breaking ties; on equal stamps the own value stays. So the two merge orders
  agree exactly when equal stamps carry equal values.\<close>

lemma lwwreg_merge_newest:
  fixes a b :: "'a::linorder lwwreg"
  shows "lww_stamp (lwwreg_merge a b) = max (lww_stamp a) (lww_stamp b) \<and>
    lwwreg_merge a b \<in> {a, b} \<and>
    (lww_stamp a = lww_stamp b \<longrightarrow> lwwreg_merge a b = a) \<and>
    (lwwreg_merge a b = lwwreg_merge b a \<longleftrightarrow>
      (lww_clock a = lww_clock b \<and> lww_actor a = lww_actor b \<longrightarrow> lww_val a = lww_val b))"
proof -
  have "a = b \<longleftrightarrow> lww_stamp a = lww_stamp b \<and> lww_val a = lww_val b"
    by (auto simp: lww_stamp_def)
  then show ?thesis
    by (auto simp: lwwreg_merge_stamp max_def lww_stamp_def [symmetric])
      (auto simp: lww_stamp_def)
qed

lemma lwwreg_merge_newest_witness:
  "lwwreg_merge (lwwreg_new 10 7 (1::nat)) (lwwreg_new 20 7 2) =
   lwwreg_merge (lwwreg_new 20 7 2) (lwwreg_new 10 7 (1::nat))"
  using lwwreg_merge_newest [of "lwwreg_new 10 7 (1::nat)" "lwwreg_new 20 7 2"]
  by (simp add: lwwreg_new_def)

text \<open>A counter's total is the exact sum of its entries when that sum fits 64 bits and an
  overflow panic when it does not, so it does not depend on the iteration order of the map.\<close>

lemma gcounter_value_total_exact:
  "gcounter_value_total g =
     (if gcounter_sum g < 2 ^ 64 then Ok (of_nat (gcounter_sum g)) else Err overflow)"
  using gcounter_total_small [of g]
  by (simp add: gcounter_value_total_def sum_u64_spec gcounter_sum_def del: map_map)

text \<open>Merging counters keeps, for every actor, the larger of the two counts and the identity of
  the local actor; no increment is lost or counted twice: the merged sum is at least each of the
  two sums and at most both together.\<close>

lemma gcounter_merge_counts:
  assumes "gcounter_ok a" and "gcounter_ok b"
  shows "hm_get_or (gc_counter (gcounter_merge a b)) actor 0 =
      max (hm_get_or (gc_counter a) actor 0) (hm_get_or (gc_counter b) actor 0) \<and>
    gc_actor_id (gcounter_merge a b) = gc_actor_id a \<and>
    gcounter_sum a \<le> gcounter_sum (gcounter_merge a b) \<and>
    gcounter_sum b \<le> gcounter_sum (gcounter_merge a b) \<and>
    gcounter_sum (gcounter_merge a b) \<le> gcounter_sum a + gcounter_sum b"
proof -
  let ?K = "fst ` set (gc_counter a) \<union> fst ` set (gc_counter b)"
  have ok: "gcounter_ok (gcounter_merge a b)" using assms by (rule gcounter.ok_merge)
  have keys: "fst ` set (gc_counter (gcounter_merge a b)) \<subseteq> ?K"
    by (simp add: merge_into_keys)
  have sums: "gcounter_sum a = (\<Sum>k\<in>?K. unat (hm_get_or (gc_counter a) k 0))"
    "gcounter_sum b = (\<Sum>k\<in>?K. unat (hm_get_or (gc_counter b) k 0))"
    "gcounter_sum (gcounter_merge a b) = (\<Sum>k\<in>?K. max (unat (hm_get_or (gc_counter a) k 0))
       (unat (hm_get_or (gc_counter b) k 0)))"
    using assms ok keys
    by (simp_all add: gcounter_sum_over_keys [where K = ?K] gcounter_get_merge unat_max
        del: gcounter_counter_merge)
  show ?thesis
    unfolding sums sum.distrib [symmetric] using assms(2)
    by (auto simp: gcounter_get_merge simp del: gcounter_counter_merge(1) intro!: sum_mono)
qed

lemma gcounter_merge_counts_witness:
  "let a = gcounter_with_count 1 4; b = gcounter_with_count 2 3
   in gcounter_sum a \<le> gcounter_sum (gcounter_merge a b) \<and>
      gcounter_sum (gcounter_merge a b) \<le> gcounter_sum a + gcounter_sum b"
  using gcounter_merge_counts [of "gcounter_with_count 1 4" "gcounter_with_count 2 3" 1]
  by (simp add: gcounter_ok_def gcounter_with_count_def Let_def)

text \<open>While both sides of a positive-negative counter stay below \<open>2 ^ 63\<close>, nothing panics: its
  total is the exact difference of the two sides, and adding \<open>n\<close> to or subtracting \<open>n\<close> from the
  counter changes that difference by exactly \<open>n\<close>.\<close>

lemma pncounter_arithmetic:
  assumes "pncounter_ok c" and "gcounter_sum (pn_p c) + unat n < 2 ^ 63"
    and "gcounter_sum (pn_n c) + unat n < 2 ^ 63"
  shows "\<exists>v up down vup vdown. pncounter_value_total c = Ok v \<and>
      sint v = int (gcounter_sum (pn_p c)) - int (gcounter_sum (pn_n c)) \<and>
      pncounter_inc_by c n = Ok up \<and> pncounter_dec_by c n = Ok down \<and>
      pncounter_value_total up = Ok vup \<and> sint vup = sint v + int (unat n) \<and>
      pncounter_value_total down = Ok vdown \<and> sint vdown = sint v - int (unat n)"
proof -
  obtain p where p: "gcounter_inc_by (pn_p c) n = Ok p"
    using assms gcounter_inc_by_total [of "pn_p c" n] by (auto simp: pncounter_ok_def)
  obtain m where m: "gcounter_inc_by (pn_n c) n = Ok m"
    using assms gcounter_inc_by_total [of "pn_n c" n] by (auto simp: pncounter_ok_def)
  have sums: "gcounter_sum p = gcounter_sum (pn_p c) + unat n"
    "gcounter_sum m = gcounter_sum (pn_n c) + unat n"
    using assms(1) gcounter_sum_inc_by(2) [OF _ p] gcounter_sum_inc_by(2) [OF _ m]
    by (simp_all add: pncounter_ok_def)
  show ?thesis
    using assms(2,3) sums pncounter_total_small [of c] pncounter_total_small [of "c\<lparr>pn_p := p\<rparr>"]
      pncounter_total_small [of "c\<lparr>pn_n := m\<rparr>"]
    by (auto simp: pncounter_inc_by_def pncounter_dec_by_def p m)
qed

lemma pncounter_arithmetic_witness:
  "\<exists>v up vup. pncounter_value_total (pncounter_with_count 1 5) = Ok v \<and> sint v = 5 \<and>
     pncounter_inc_by (pncounter_with_count 1 5) 3 = Ok up \<and>
     pncounter_value_total up = Ok vup \<and> sint vup = 8"
  using pncounter_arithmetic [of "pncounter_with_count 1 5" 3]
  by (auto simp: pncounter_ok_def gcounter_ok_def pncounter_with_count_def
      gcounter_with_count_def gcounter_sum_def)

end
