(* ===== verification/Ordered_Map.thy ===== *)
theory Ordered_Map
  imports Prelude
begin

text \<open>
  \<open>std::collections::BTreeMap\<close> as the list of its entries in ascending key order, and the
  interface \<open>ordered_map\<close> that the hash ring uses: inserting, removing and walking clockwise from a
  point of the circle of keys.
\<close>

type_synonym ('k, 'v) btree_map = "('k \<times> 'v) list"

fun bt_insert :: "'k::linorder \<Rightarrow> 'v \<Rightarrow> ('k, 'v) btree_map \<Rightarrow> ('k, 'v) btree_map" where
  "bt_insert k v [] = [(k, v)]"
| "bt_insert k v ((k', v') # m) =
     (if k < k' then (k, v) # (k', v') # m
      else if k = k' then (k, v) # m
      else (k', v') # bt_insert k v m)"

fun bt_remove :: "'k::linorder \<Rightarrow> ('k, 'v) btree_map \<Rightarrow> ('k, 'v) btree_map" where
  "bt_remove k [] = []"
| "bt_remove k ((k', v') # m) = (if k = k' then m else (k', v') # bt_remove k m)"

definition bt_wf :: "('k::linorder, 'v) btree_map \<Rightarrow> bool" where
  "bt_wf m \<longleftrightarrow> sorted_wrt (<) (map fst m)"

text \<open>\<open>range(k..)\<close>, \<open>range(..k)\<close> and \<open>next_back()\<close>.\<close>

definition bt_range_from :: "'k::linorder \<Rightarrow> ('k, 'v) btree_map \<Rightarrow> ('k \<times> 'v) list" where
  "bt_range_from k m = filter (\<lambda>e. k \<le> fst e) m"

definition bt_range_below :: "'k::linorder \<Rightarrow> ('k, 'v) btree_map \<Rightarrow> ('k \<times> 'v) list" where
  "bt_range_below k m = filter (\<lambda>e. fst e < k) m"

definition next_back :: "'a list \<Rightarrow> 'a option" where
  "next_back xs = (if xs = [] then None else Some (last xs))"

lemma bt_keys_insert: "fst ` set (bt_insert k v m) = insert k (fst ` set m)"
  by (induction k v m rule: bt_insert.induct) auto

lemma bt_set_insert: "set (bt_insert k v m) \<subseteq> insert (k, v) (set m)"
  by (induction k v m rule: bt_insert.induct) auto

lemma bt_set_remove: "set (bt_remove k m) \<subseteq> set m"
  by (induction k m rule: bt_remove.induct) auto

lemma bt_wf_Cons: "bt_wf ((k, v) # m) \<longleftrightarrow> (\<forall>e\<in>set m. k < fst e) \<and> bt_wf m"
  by (simp add: bt_wf_def)

lemma bt_wf_Nil [simp]: "bt_wf []"
  by (simp add: bt_wf_def)

lemma bt_wf_insert: "bt_wf m \<Longrightarrow> bt_wf (bt_insert k v m)"
proof (induction k v m rule: bt_insert.induct)
  case (2 k v k' v' m)
  then show ?case using bt_set_insert [of k v m] by (fastforce simp: bt_wf_Cons)
qed (simp add: bt_wf_def)

lemma bt_wf_remove: "bt_wf m \<Longrightarrow> bt_wf (bt_remove k m)"
proof (induction k m rule: bt_remove.induct)
  case (2 k k' v' m)
  then show ?case using bt_set_remove [of k m] by (auto simp: bt_wf_Cons)
qed simp

lemma bt_get_insert: "bt_wf m \<Longrightarrow> map_of (bt_insert k v m) = (map_of m)(k \<mapsto> v)"
  by (induction k v m rule: bt_insert.induct) (auto simp: bt_wf_Cons fun_eq_iff)

lemma bt_wf_not_below: "bt_wf m \<Longrightarrow> \<forall>e\<in>set m. k < fst e \<Longrightarrow> map_of m k = None"
  by (auto simp: map_of_eq_None_iff)

lemma bt_get_remove: "bt_wf m \<Longrightarrow> map_of (bt_remove k m) = (map_of m)(k := None)"
proof (induction k m rule: bt_remove.induct)
  case (2 k k' v' m)
  then show ?case using bt_wf_not_below [of m k'] by (auto simp: bt_wf_Cons fun_eq_iff)
qed simp

lemma bt_wf_distinct: "bt_wf m \<Longrightarrow> distinct (map fst m)"
  by (simp add: bt_wf_def strict_sorted_iff)


section \<open>The interface\<close>

locale ordered_map =
  fixes insrt :: "'k::linorder \<Rightarrow> 'v \<Rightarrow> 'm \<Rightarrow> 'm" and remov :: "'k \<Rightarrow> 'm \<Rightarrow> 'm"
    and entries :: "'m \<Rightarrow> ('k \<times> 'v) list" and wf :: "'m \<Rightarrow> bool"
  assumes entries_sorted: "wf m \<Longrightarrow> sorted_wrt (<) (map fst (entries m))"
    and wf_insrt: "wf m \<Longrightarrow> wf (insrt k v m)"
    and wf_remov: "wf m \<Longrightarrow> wf (remov k m)"
    and get_insrt: "wf m \<Longrightarrow> map_of (entries (insrt k v m)) = (map_of (entries m))(k \<mapsto> v)"
    and get_remov: "wf m \<Longrightarrow> map_of (entries (remov k m)) = (map_of (entries m))(k := None)"
begin

text \<open>The entry a clockwise walk from \<open>h\<close> meets first, wrapping around at the end.\<close>

definition successor :: "'k \<Rightarrow> 'm \<Rightarrow> ('k \<times> 'v) option" where
  "successor h m = List.find (\<lambda>_. True) (filter (\<lambda>e. h \<le> fst e) (entries m) @ entries m)"

definition succ_key :: "'k \<Rightarrow> 'm \<Rightarrow> 'k \<Rightarrow> bool" where
  "succ_key h m k \<longleftrightarrow> k \<in> fst ` set (entries m) \<and>
     (h \<le> k \<and> (\<forall>j\<in>fst ` set (entries m). h \<le> j \<longrightarrow> k \<le> j) \<or>
      (\<forall>j\<in>fst ` set (entries m). j < h \<and> k \<le> j))"

lemma succ_key_unique: "succ_key h m k \<Longrightarrow> succ_key h m k' \<Longrightarrow> k = k'"
  unfolding succ_key_def by (meson leD order_antisym)

lemma head_least:
  fixes e :: "'k \<times> 'v"
  shows "sorted_wrt (<) (map fst (e # es)) \<Longrightarrow> x \<in> set (e # es) \<Longrightarrow> fst e \<le> fst x"
  by (auto simp: less_imp_le)

lemma get_in: "wf m \<Longrightarrow> map_of (entries m) k = Some v \<longleftrightarrow> (k, v) \<in> set (entries m)"
  using entries_sorted [of m] by (simp add: strict_sorted_iff)

lemma successor_succ_key:
  assumes wf: "wf m" and s: "successor h m = Some (k, v)"
  shows "map_of (entries m) k = Some v \<and> succ_key h m k"
proof (cases "filter (\<lambda>e. h \<le> fst e) (entries m)")
  case Nil
  with s obtain es where es: "entries m = (k, v) # es"
    by (cases "entries m") (auto simp: successor_def)
  have low: "\<forall>e\<in>set (entries m). fst e < h" using Nil by (auto simp: filter_empty_conv)
  show ?thesis using head_least [of "(k, v)" es] entries_sorted [OF wf] low
    by (auto simp: es succ_key_def)
next
  case (Cons e fs)
  with s have e: "e = (k, v)" by (simp add: successor_def)
  have "(k, v) \<in> set (filter (\<lambda>e. h \<le> fst e) (entries m))" using Cons e by simp
  then have in_m: "(k, v) \<in> set (entries m)" "h \<le> k" by auto
  have "sorted_wrt (<) (map fst (e # fs))"
    using sorted_wrt_filter [of "\<lambda>x y. fst x < fst y" "entries m" "\<lambda>e. h \<le> fst e"]
      entries_sorted [OF wf] by (simp add: Cons sorted_wrt_map)
  then have "k \<le> fst x" if "x \<in> set (entries m)" "h \<le> fst x" for x
    using that head_least [of e fs x] arg_cong [OF Cons, of set] e by auto
  with in_m show ?thesis
    using get_in [OF wf, of k v] imageI [OF in_m(1), of fst] by (auto simp: succ_key_def)
qed

lemma successor_None: "successor h m = None \<longleftrightarrow> entries m = []"
  by (cases "filter (\<lambda>e. h \<le> fst e) (entries m)"; cases "entries m")
    (auto simp: successor_def)

lemma successor_iff:
  assumes "wf m"
  shows "successor h m = Some (k, v) \<longleftrightarrow> map_of (entries m) k = Some v \<and> succ_key h m k"
proof (cases "successor h m")
  case None
  then show ?thesis using successor_None [of h m] by simp
next
  case (Some e)
  obtain k' v' where e: "e = (k', v')" by force
  have "map_of (entries m) k' = Some v' \<and> succ_key h m k'"
    using successor_succ_key [OF assms] Some e by simp
  then show ?thesis using Some e by (auto dest: succ_key_unique)
qed

lemma keys_insrt: "wf m \<Longrightarrow> fst ` set (entries (insrt k v m)) = insert k (fst ` set (entries m))"
  using get_insrt [of m k v] by (metis dom_fun_upd dom_map_of_conv_image_fst option.distinct(1))

lemma keys_remov: "wf m \<Longrightarrow> fst ` set (entries (remov k m)) = fst ` set (entries m) - {k}"
  using get_remov [of m k] by (metis dom_fun_upd dom_map_of_conv_image_fst)

text \<open>Inserting an entry can only take over points of the circle, never hand them to others.\<close>

lemma successor_insrt:
  assumes wf: "wf m"
  shows "successor h (insrt k v m) = Some (k, v) \<or> successor h (insrt k v m) = successor h m"
proof (cases "successor h (insrt k v m)")
  case None
  then show ?thesis using keys_insrt [OF wf, of k v] by (simp add: successor_None)
next
  case (Some e)
  obtain k' v' where e: "e = (k', v')" by force
  have s: "map_of (entries (insrt k v m)) k' = Some v'" "succ_key h (insrt k v m) k'"
    using Some e by (simp_all add: successor_iff [OF wf_insrt [OF wf]])
  show ?thesis
  proof (cases "k' = k")
    case True
    with s(1) show ?thesis using Some e by (simp add: get_insrt [OF wf])
  next
    case False
    then have "succ_key h m k'" "map_of (entries m) k' = Some v'"
      using s by (auto simp: succ_key_def keys_insrt [OF wf] get_insrt [OF wf])
    then have "successor h m = Some (k', v')" by (simp add: successor_iff [OF wf])
    then show ?thesis using Some e by simp
  qed
qed

text \<open>Removing a key leaves every point served by another key where it was.\<close>

lemma successor_remov:
  assumes wf: "wf m" and s: "successor h m = Some (k', v')" and "k' \<noteq> k"
  shows "successor h (remov k m) = Some (k', v')"
  using s \<open>k' \<noteq> k\<close> unfolding successor_iff [OF wf] successor_iff [OF wf_remov [OF wf]]
  by (auto simp: succ_key_def keys_remov [OF wf] get_remov [OF wf])

end

interpretation btree: ordered_map bt_insert bt_remove "\<lambda>m. m" bt_wf
  by unfold_locales (simp_all add: bt_wf_insert bt_wf_remove bt_get_insert bt_get_remove,
      simp add: bt_wf_def)

lemma btree_successor_head:
  "btree.successor h m = (case bt_range_from h m @ m of [] \<Rightarrow> None | e # _ \<Rightarrow> Some e)"
  by (simp add: btree.successor_def bt_range_from_def split: list.split)

end
