(* ===== verification/Bytes.thy ===== *)
theory Bytes
  imports Prelude
begin

text \<open>
  Big-endian byte strings (\<open>u128::to_be_bytes\<close>, \<open>u128::from_be_bytes\<close>), SQLite's order of BLOB
  values as a \<open>linorder\<close> instance, string bytes, and the decimal \<open>Display\<close> of an unsigned number.
\<close>

section \<open>Base-256 digits\<close>

fun be_digits :: "nat \<Rightarrow> nat \<Rightarrow> u8 list" where
  "be_digits 0 n = []"
| "be_digits (Suc d) n = be_digits d (n div 256) @ [of_nat (n mod 256)]"

definition be_value :: "u8 list \<Rightarrow> nat" where
  "be_value bs = foldl (\<lambda>acc b. acc * 256 + unat b) 0 bs"

lemma length_be_digits [simp]: "length (be_digits d n) = d"
  by (induction d n rule: be_digits.induct) simp_all

lemma be_value_snoc [simp]: "be_value (bs @ [b]) = be_value bs * 256 + unat b"
  by (simp add: be_value_def)

lemma be_value_Nil [simp]: "be_value [] = 0"
  by (simp add: be_value_def)

lemma unat_byte: "unat (of_nat (n mod 256) :: u8) = n mod 256"
  by (simp add: unat_of_nat take_bit_eq_mod)

lemma be_value_digits: "n < 256 ^ d \<Longrightarrow> be_value (be_digits d n) = n"
proof (induction d n rule: be_digits.induct)
  case (2 d n)
  then have "n div 256 < 256 ^ d" by (simp add: less_mult_imp_div_less)
  with 2 show ?case by (simp add: unat_byte)
qed simp

lemma be_value_bound: "be_value bs < 256 ^ length bs"
proof (induction bs rule: rev_induct)
  case (snoc b bs)
  have "unat b < 256" using unsigned_less [of b, where ?'a = nat] by simp
  with snoc have "be_value bs * 256 + unat b < (be_value bs + 1) * 256" by simp
  also have "\<dots> \<le> 256 ^ length bs * 256" using snoc by (intro mult_right_mono) simp_all
  finally show ?case by (simp add: mult.commute)
qed simp

lemma be_digits_value: "be_digits (length bs) (be_value bs) = bs"
proof (induction bs rule: rev_induct)
  case (snoc b bs)
  have "unat b < 256" using unsigned_less [of b, where ?'a = nat] by simp
  with snoc show ?case by simp
qed simp

definition to_be_bytes :: "u128 \<Rightarrow> u8 list" where
  "to_be_bytes w = be_digits 16 (unat w)"

definition from_be_bytes :: "u8 list \<Rightarrow> u128" where
  "from_be_bytes bs = of_nat (be_value bs)"

lemma length_to_be_bytes [simp]: "length (to_be_bytes w) = 16"
  by (simp add: to_be_bytes_def)

lemma unat_u128: "unat (w :: u128) < 256 ^ 16"
  using unsigned_less [of w, where ?'a = nat] by simp

lemma from_to_be_bytes [simp]: "from_be_bytes (to_be_bytes w) = w"
  by (simp add: from_be_bytes_def to_be_bytes_def be_value_digits [OF unat_u128])

lemma to_from_be_bytes: "length bs = 16 \<Longrightarrow> to_be_bytes (from_be_bytes bs) = bs"
proof -
  assume len: "length bs = 16"
  then have "unat (of_nat (be_value bs) :: u128) = be_value bs"
    using be_value_bound [of bs] by (simp add: unat_of_nat take_bit_eq_mod)
  then show ?thesis
    using be_digits_value [of bs] by (simp add: to_be_bytes_def from_be_bytes_def len)
qed

lemma to_be_bytes_inject [simp]: "to_be_bytes v = to_be_bytes w \<longleftrightarrow> v = w"
  by (metis from_to_be_bytes)


section \<open>BLOB values and their order\<close>

text \<open>SQLite compares two BLOB values byte by byte (\<open>memcmp\<close>), the shorter one first on a tie.\<close>

datatype blob = Blob (blob_bytes: "u8 list")

fun memcmp_less :: "u8 list \<Rightarrow> u8 list \<Rightarrow> bool" where
  "memcmp_less [] ys \<longleftrightarrow> ys \<noteq> []"
| "memcmp_less (x # xs) [] \<longleftrightarrow> False"
| "memcmp_less (x # xs) (y # ys) \<longleftrightarrow> x < y \<or> x = y \<and> memcmp_less xs ys"

lemma memcmp_irrefl: "\<not> memcmp_less xs xs"
  by (induction xs) simp_all

lemma memcmp_Nil [simp]: "\<not> memcmp_less xs []"
  by (cases xs) simp_all

lemma memcmp_trans: "memcmp_less xs ys \<Longrightarrow> memcmp_less ys zs \<Longrightarrow> memcmp_less xs zs"
proof (induction xs ys arbitrary: zs rule: memcmp_less.induct)
  case (1 ys)
  then show ?case by (cases zs) auto
next
  case (3 x xs y ys)
  then show ?case by (cases zs) auto
qed simp

lemma memcmp_total: "xs = ys \<or> memcmp_less xs ys \<or> memcmp_less ys xs"
  by (induction xs ys rule: memcmp_less.induct) auto

instantiation blob :: linorder
begin

definition less_blob :: "blob \<Rightarrow> blob \<Rightarrow> bool" where
  "less_blob a b \<longleftrightarrow> memcmp_less (blob_bytes a) (blob_bytes b)"

definition less_eq_blob :: "blob \<Rightarrow> blob \<Rightarrow> bool" where
  "less_eq_blob a b \<longleftrightarrow> a = b \<or> memcmp_less (blob_bytes a) (blob_bytes b)"

instance
proof
  fix a b c :: blob
  show "a < b \<longleftrightarrow> a \<le> b \<and> \<not> b \<le> a"
    by (auto simp: less_blob_def less_eq_blob_def memcmp_irrefl dest: memcmp_trans)
  show "a \<le> a" by (simp add: less_eq_blob_def)
  show "a \<le> b \<Longrightarrow> b \<le> c \<Longrightarrow> a \<le> c"
    by (auto simp: less_eq_blob_def intro: memcmp_trans)
  show "a \<le> b \<Longrightarrow> b \<le> a \<Longrightarrow> a = b"
    by (auto simp: less_eq_blob_def) (metis memcmp_irrefl memcmp_trans)
  show "a \<le> b \<or> b \<le> a"
    using memcmp_total [of "blob_bytes a" "blob_bytes b"]
    by (auto simp: less_eq_blob_def intro: blob.expand)
qed

end

text \<open>On the sixteen-byte keys of the tables the order of the BLOBs is the order of the numbers.\<close>

lemma memcmp_snoc:
  "length xs = length ys \<Longrightarrow>
     memcmp_less (xs @ [x]) (ys @ [y]) \<longleftrightarrow> memcmp_less xs ys \<or> xs = ys \<and> x < y"
  by (induction xs ys rule: list_induct2) auto

lemma memcmp_be_value:
  "length xs = length ys \<Longrightarrow> memcmp_less xs ys \<longleftrightarrow> be_value xs < be_value ys"
proof (induction xs arbitrary: ys rule: rev_induct)
  case Nil
  then show ?case by simp
next
  case (snoc x xs)
  then obtain ys' y where ys: "ys = ys' @ [y]" "length xs = length ys'"
    by (cases ys rule: rev_cases) auto
  have eq: "xs = ys' \<longleftrightarrow> be_value xs = be_value ys'"
    using be_digits_value [of xs] be_digits_value [of ys'] ys(2) by metis
  have "unat x < 256" "unat y < 256"
    using unsigned_less [of x, where ?'a = nat] unsigned_less [of y, where ?'a = nat] by simp_all
  then have "be_value (xs @ [x]) < be_value (ys' @ [y]) \<longleftrightarrow>
      be_value xs < be_value ys' \<or> be_value xs = be_value ys' \<and> unat x < unat y"
    by auto
  with snoc.IH [OF ys(2)] eq show ?case
    by (simp add: ys memcmp_snoc word_less_nat_alt)
qed

definition u128_blob :: "u128 \<Rightarrow> blob" where
  "u128_blob w = Blob (to_be_bytes w)"

lemma u128_blob_inject [simp]: "u128_blob v = u128_blob w \<longleftrightarrow> v = w"
  by (simp add: u128_blob_def)

lemma u128_blob_less [simp]: "u128_blob v < u128_blob w \<longleftrightarrow> v < w"
  by (simp add: u128_blob_def less_blob_def memcmp_be_value to_be_bytes_def
      be_value_digits [OF unat_u128] word_less_nat_alt)

lemma u128_blob_le [simp]: "u128_blob v \<le> u128_blob w \<longleftrightarrow> v \<le> w"
  by (simp add: le_less)


section \<open>Strings\<close>

text \<open>\<open>str::as_bytes\<close>: a \<open>string\<close> is the list of its UTF-8 bytes.\<close>

definition as_bytes :: "string \<Rightarrow> u8 list" where
  "as_bytes s = map of_char s"

text \<open>\<open>Display\<close> of \<open>usize\<close>.\<close>

fun usize_to_string :: "nat \<Rightarrow> string" where
  "usize_to_string n =
     (if n < 10 then [char_of (48 + n)]
      else usize_to_string (n div 10) @ [char_of (48 + n mod 10)])"

declare usize_to_string.simps [simp del]

end
