(* ===== verification/Hash_Ring.thy ===== *)
theory Hash_Ring
  imports Ordered_Map Bytes
begin

text \<open>
  \<open>src/hash_ring.rs\<close>: the consistent hash ring that places shopping lists on servers. The ring is
  a \<open>BTreeMap\<close> from points of the 128-bit circle to servers; every server owns one point per virtual
  node. \<open>Uuid::to_string\<close> and the MD5 digest are functions of other crates and parameters of the
  model. \<open>print_ring\<close> only prints and is not modelled.
\<close>

text \<open>The functions of the \<open>uuid\<close> and \<open>md-5\<close> crates the program calls.\<close>

record digest_lib =
  uuid_to_string :: "uuid \<Rightarrow> string"
  uuid_parse :: "string \<Rightarrow> uuid option"
  md5 :: "u8 list \<Rightarrow> u8 list"

definition VNODES :: nat where "VNODES = 3"
definition REPLICAS :: nat where "REPLICAS = 3"
definition WRITE_NODES :: nat where "WRITE_NODES = 2"
definition READ_NODES :: nat where "READ_NODES = 2"

record hash_ring =
  hr_ring :: "(u128, uuid) btree_map"
  hr_virtual_nodes :: nat
  hr_replicas :: nat

definition hash_ring_new :: "nat \<Rightarrow> nat \<Rightarrow> hash_ring" where
  "hash_ring_new virtual_nodes replicas =
     \<lparr>hr_ring = [], hr_virtual_nodes = virtual_nodes, hr_replicas = replicas\<rparr>"

definition ring_hash :: "'a digest_lib_scheme \<Rightarrow> string \<Rightarrow> u128" where
  "ring_hash lib key = from_be_bytes (md5 lib (as_bytes key))"

text \<open>The hash of \<open>format!("{}-{}", node_id, i)\<close>.\<close>

definition vnode_hash :: "'a digest_lib_scheme \<Rightarrow> uuid \<Rightarrow> nat \<Rightarrow> u128" where
  "vnode_hash lib node_id i =
     ring_hash lib (uuid_to_string lib node_id @ ''-'' @ usize_to_string i)"

definition add_node :: "'a digest_lib_scheme \<Rightarrow> hash_ring \<Rightarrow> uuid \<Rightarrow> hash_ring" where
  "add_node lib hr node_id =
     hr\<lparr>hr_ring := fold (\<lambda>i ring. bt_insert (vnode_hash lib node_id i) node_id ring)
        [0..<hr_virtual_nodes hr] (hr_ring hr)\<rparr>"

definition remove_node :: "'a digest_lib_scheme \<Rightarrow> hash_ring \<Rightarrow> uuid \<Rightarrow> hash_ring" where
  "remove_node lib hr node_id =
     hr\<lparr>hr_ring := fold (\<lambda>i ring. bt_remove (vnode_hash lib node_id i) ring)
        [0..<hr_virtual_nodes hr] (hr_ring hr)\<rparr>"

text \<open>The loop of \<open>get_preference_list\<close>: servers in the order met, each once, until enough.\<close>

fun pick_distinct :: "nat \<Rightarrow> uuid list \<Rightarrow> uuid set \<Rightarrow> (u128 \<times> uuid) list \<Rightarrow> uuid list" where
  "pick_distinct replicas preference_list seen_servers [] = preference_list"
| "pick_distinct replicas preference_list seen_servers ((_, node_id) # iter) =
     (if node_id \<notin> seen_servers
      then (let preference_list' = preference_list @ [node_id];
                seen_servers' = insert node_id seen_servers
            in if length preference_list' \<ge> replicas then preference_list'
               else pick_distinct replicas preference_list' seen_servers' iter)
      else pick_distinct replicas preference_list seen_servers iter)"

definition get_preference_list_hash :: "hash_ring \<Rightarrow> u128 \<Rightarrow> uuid list" where
  "get_preference_list_hash hr hash =
     (if hr_ring hr = [] then []
      else pick_distinct (hr_replicas hr) [] {} (bt_range_from hash (hr_ring hr) @ hr_ring hr))"

definition get_preference_list :: "'a digest_lib_scheme \<Rightarrow> hash_ring \<Rightarrow> uuid \<Rightarrow> uuid list" where
  "get_preference_list lib hr list_id =
     (if hr_ring hr = [] then []
      else (let hash = ring_hash lib (uuid_to_string lib list_id)
            in pick_distinct (hr_replicas hr) [] {}
                 (bt_range_from hash (hr_ring hr) @ hr_ring hr)))"

definition get_coordinator :: "'a digest_lib_scheme \<Rightarrow> hash_ring \<Rightarrow> uuid \<Rightarrow> uuid option" where
  "get_coordinator lib hr list_id =
     (case get_preference_list lib hr list_id of [] \<Rightarrow> None | n # _ \<Rightarrow> Some n)"

definition get_all_servers :: "hash_ring \<Rightarrow> uuid set" where
  "get_all_servers hr = set (map snd (hr_ring hr))"

definition server_count :: "hash_ring \<Rightarrow> nat" where
  "server_count hr = card (get_all_servers hr)"

text \<open>The points a server owns, in ring order (\<open>filter_map\<close> over the ring).\<close>

definition vnodes_of :: "hash_ring \<Rightarrow> uuid \<Rightarrow> u128 list" where
  "vnodes_of hr node_id = map fst (filter (\<lambda>(_, owner). owner = node_id) (hr_ring hr))"

definition next_node :: "hash_ring \<Rightarrow> uuid \<Rightarrow> uuid option res" where
  "next_node hr node_id =
     (if hr_ring hr = [] then Ok None
      else case sort (vnodes_of hr node_id) of
        [] \<Rightarrow> Ok None
      | start # _ \<Rightarrow>
          bind_res (checked_add start 1) (\<lambda>from.
            Ok (map_option snd (List.find (\<lambda>(_, next_id). next_id \<noteq> node_id)
              (bt_range_from from (hr_ring hr) @ hr_ring hr)))))"

definition prev_node_hash :: "hash_ring \<Rightarrow> uuid \<Rightarrow> u128 option" where
  "prev_node_hash hr node_id =
     (if hr_ring hr = [] then None
      else case vnodes_of hr node_id of
        [] \<Rightarrow> None
      | node_hash # _ \<Rightarrow>
          (case map_option fst (next_back (bt_range_below node_hash (hr_ring hr))) of
             Some h \<Rightarrow> Some h
           | None \<Rightarrow> map_option fst (next_back (hr_ring hr))))"

fun pick_predecessors :: "nat \<Rightarrow> uuid \<Rightarrow> uuid list \<Rightarrow> uuid set \<Rightarrow> (u128 \<times> uuid) list \<Rightarrow> uuid list" where
  "pick_predecessors replicas node_id predecessors seen [] = predecessors"
| "pick_predecessors replicas node_id predecessors seen ((_, other) # iter) =
     (if other \<noteq> node_id \<and> other \<notin> seen
      then (let predecessors' = predecessors @ [other]
            in if length predecessors' \<ge> replicas then predecessors'
               else pick_predecessors replicas node_id predecessors' (insert other seen) iter)
      else pick_predecessors replicas node_id predecessors seen iter)"

definition get_predecessors :: "hash_ring \<Rightarrow> uuid \<Rightarrow> uuid list" where
  "get_predecessors hr node_id =
     (if hr_ring hr = [] then []
      else pick_predecessors (hr_replicas hr) node_id [] {} (rev (hr_ring hr)))"


section \<open>Order of first occurrence\<close>

fun firsts :: "'a list \<Rightarrow> 'a list" where
  "firsts [] = []"
| "firsts (x # xs) = x # filter (\<lambda>y. y \<noteq> x) (firsts xs)"

lemma set_firsts [simp]: "set (firsts xs) = set xs"
  by (induction xs) auto

lemma distinct_firsts [simp]: "distinct (firsts xs)"
  by (induction xs) auto

lemma length_firsts: "length (firsts xs) = card (set xs)"
  using distinct_card [OF distinct_firsts, of xs] by simp

lemma firsts_filter: "firsts (filter P xs) = filter P (firsts xs)"
  by (induction xs) (auto intro: filter_cong)

text \<open>The reference definition: the first \<open>r\<close> distinct servers, but never fewer than one.\<close>

lemma pick_distinct_firsts:
  "length pref < max 1 r \<Longrightarrow>
     pick_distinct r pref seen es =
       pref @ take (max 1 r - length pref) (filter (\<lambda>n. n \<notin> seen) (firsts (map snd es)))"
proof (induction r pref seen es rule: pick_distinct.induct)
  case (1 r pref seen)
  then show ?case by simp
next
  case (2 r pref seen k n es)
  show ?case
  proof (cases "n \<in> seen")
    case True
    have "filter (\<lambda>m. m \<notin> seen) (filter (\<lambda>y. y \<noteq> n) xs) = filter (\<lambda>m. m \<notin> seen) xs" for xs
      using True by (auto intro: filter_cong)
    with True 2 show ?thesis by simp
  next
    case False
    have "filter (\<lambda>m. m \<notin> seen) (filter (\<lambda>y. y \<noteq> n) xs) = filter (\<lambda>m. m \<notin> insert n seen) xs" for xs
      by (auto intro: filter_cong)
    with False 2 show ?thesis
      by (cases "length (pref @ [n]) \<ge> r") 
        (auto simp: Let_def take_Cons' Suc_diff_Suc not_le max_def split: if_splits)
  qed
qed

lemma preference_list_hash_firsts:
  "get_preference_list_hash hr h =
     take (max 1 (hr_replicas hr)) (firsts (map snd (bt_range_from h (hr_ring hr) @ hr_ring hr)))"
  by (simp add: get_preference_list_hash_def pick_distinct_firsts bt_range_from_def)

lemma preference_list_via_hash:
  "get_preference_list lib hr l =
     get_preference_list_hash hr (ring_hash lib (uuid_to_string lib l))"
  by (simp add: get_preference_list_def get_preference_list_hash_def Let_def)

lemma bt_range_from_Nil [simp]: "bt_range_from h [] = []"
  by (simp add: bt_range_from_def)

lemma set_clockwise: "set (map snd (bt_range_from h m @ m)) = set (map snd m)"
  by (auto simp: bt_range_from_def)

lemma coordinator_successor:
  "get_coordinator lib hr l =
     map_option snd (btree.successor (ring_hash lib (uuid_to_string lib l)) (hr_ring hr))"
proof -
  let ?es = "bt_range_from (ring_hash lib (uuid_to_string lib l)) (hr_ring hr) @ hr_ring hr"
  have "get_preference_list lib hr l = take (max 1 (hr_replicas hr)) (firsts (map snd ?es))"
    by (simp add: preference_list_via_hash preference_list_hash_firsts)
  then show ?thesis
    by (cases ?es) (simp_all add: get_coordinator_def btree_successor_head take_Cons')
qed


section \<open>Invariant of the ring\<close>

text \<open>Every point of a ring built by \<open>add_node\<close> and \<open>remove_node\<close> is a virtual node of its owner.\<close>

definition ring_ok :: "'a digest_lib_scheme \<Rightarrow> hash_ring \<Rightarrow> bool" where
  "ring_ok lib hr \<longleftrightarrow> bt_wf (hr_ring hr) \<and>
     (\<forall>(k, n)\<in>set (hr_ring hr). \<exists>i<hr_virtual_nodes hr. k = vnode_hash lib n i)"

lemma ring_ok_point:
  "ring_ok lib hr \<Longrightarrow> (k, m) \<in> set (hr_ring hr) \<Longrightarrow> \<exists>i<hr_virtual_nodes hr. k = vnode_hash lib m i"
  by (auto simp: ring_ok_def)

lemma fold_bt_insert:
  "bt_wf m \<Longrightarrow> bt_wf (fold (\<lambda>i. bt_insert (f i) n) is m) \<and>
     set (fold (\<lambda>i. bt_insert (f i) n) is m) \<subseteq> (\<lambda>i. (f i, n)) ` set is \<union> set m \<and>
     map_of (fold (\<lambda>i. bt_insert (f i) n) is m) =
       (\<lambda>k. if k \<in> f ` set is then Some n else map_of m k)"
proof (induction "is" arbitrary: m)
  case Nil
  then show ?case by simp
next
  case (Cons i "is")
  from Cons.IH [OF bt_wf_insert [OF Cons.prems, of "f i" n]] show ?case
    using bt_set_insert [of "f i" n m] Cons.prems by (auto simp: bt_get_insert fun_eq_iff)
qed

lemma fold_bt_remove:
  "bt_wf m \<Longrightarrow> bt_wf (fold (\<lambda>i. bt_remove (f i)) is m) \<and>
     map_of (fold (\<lambda>i. bt_remove (f i)) is m) = (map_of m) |` (- f ` set is)"
proof (induction "is" arbitrary: m)
  case Nil
  then show ?case by simp
next
  case (Cons i "is")
  from Cons.IH [OF bt_wf_remove [OF Cons.prems, of "f i"]] show ?case
    using Cons.prems by (auto simp: bt_get_remove restrict_map_def fun_eq_iff)
qed

lemma bt_in_get: "bt_wf m \<Longrightarrow> (k, v) \<in> set m \<longleftrightarrow> map_of m k = Some v"
  by (simp add: bt_wf_distinct)

lemma ring_ok_new: "ring_ok lib (hash_ring_new v r)"
  by (simp add: ring_ok_def hash_ring_new_def)

lemma ring_ok_add_node:
  assumes ok: "ring_ok lib hr"
  shows "ring_ok lib (add_node lib hr n)"
proof -
  let ?ring = "hr_ring (add_node lib hr n)"
  have new: "bt_wf ?ring"
    "set ?ring \<subseteq> (\<lambda>i. (vnode_hash lib n i, n)) ` {0..<hr_virtual_nodes hr} \<union> set (hr_ring hr)"
    using fold_bt_insert [of "hr_ring hr" "vnode_hash lib n" n "[0..<hr_virtual_nodes hr]"] ok
    by (simp_all add: ring_ok_def add_node_def)
  have "\<exists>i<hr_virtual_nodes hr. k = vnode_hash lib m i" if "(k, m) \<in> set ?ring" for k m
    using subsetD [OF new(2) that] ok by (auto simp: ring_ok_def)
  with new(1) show ?thesis by (auto simp: ring_ok_def add_node_def)
qed

lemma ring_remove_node_get:
  "bt_wf (hr_ring hr) \<Longrightarrow> bt_wf (hr_ring (remove_node lib hr n)) \<and>
     map_of (hr_ring (remove_node lib hr n)) =
       map_of (hr_ring hr) |` (- vnode_hash lib n ` {0..<hr_virtual_nodes hr})"
  using fold_bt_remove [of "hr_ring hr" "vnode_hash lib n" "[0..<hr_virtual_nodes hr]"]
  by (simp add: remove_node_def)

lemma ring_ok_remove_node: "ring_ok lib hr \<Longrightarrow> ring_ok lib (remove_node lib hr n)"
proof -
  assume ok: "ring_ok lib hr"
  then have wf: "bt_wf (hr_ring hr)" by (simp add: ring_ok_def)
  have "set (hr_ring (remove_node lib hr n)) \<subseteq> set (hr_ring hr)"
    using ring_remove_node_get [OF wf, of lib n]
    by (auto simp: bt_in_get wf restrict_map_def split: if_splits)
  moreover have "bt_wf (hr_ring (remove_node lib hr n))"
    using ring_remove_node_get [OF wf, of lib n] by simp
  ultimately show ?thesis
    using ok unfolding ring_ok_def by (auto simp: remove_node_def)
qed

lemma remove_node_ring_fields [simp]:
  "hr_virtual_nodes (remove_node lib hr n) = hr_virtual_nodes hr"
  "hr_replicas (remove_node lib hr n) = hr_replicas hr"
  "hr_virtual_nodes (add_node lib hr n) = hr_virtual_nodes hr"
  "hr_replicas (add_node lib hr n) = hr_replicas hr"
  by (simp_all add: remove_node_def add_node_def)


section \<open>The interface of placement\<close>

text \<open>What the peers and the proxy rely on when they ask a ring where a list lives.\<close>

locale placement =
  fixes pref :: "'r \<Rightarrow> 'l \<Rightarrow> 'n list" and coord :: "'r \<Rightarrow> 'l \<Rightarrow> 'n option"
    and servers :: "'r \<Rightarrow> 'n set"
  assumes pref_distinct: "distinct (pref r l)"
    and pref_servers: "set (pref r l) \<subseteq> servers r"
    and pref_nonempty: "servers r \<noteq> {} \<Longrightarrow> pref r l \<noteq> []"
    and coord_head: "coord r l = (case pref r l of [] \<Rightarrow> None | n # _ \<Rightarrow> Some n)"
begin

lemma coord_exists: "servers r \<noteq> {} \<Longrightarrow> \<exists>c\<in>servers r. coord r l = Some c"
  using pref_nonempty [of r l] pref_servers [of r l] coord_head [of r l]
  by (auto split: list.splits)

lemma coord_None: "servers r = {} \<Longrightarrow> coord r l = None"
  using pref_servers [of r l] coord_head [of r l] by simp

text \<open>The replicas, the preference list without its head, are other servers than the coordinator.\<close>

lemma replicas_others:
  "coord r l = Some c \<Longrightarrow> c \<notin> set (drop 1 (pref r l)) \<and> set (drop 1 (pref r l)) \<subseteq> servers r"
  using pref_distinct [of r l] pref_servers [of r l] coord_head [of r l]
  by (auto split: list.splits)

lemma replicas_distinct: "distinct (drop 1 (pref r l))"
  using pref_distinct by (rule distinct_drop)

end

interpretation ring: placement "get_preference_list lib" "get_coordinator lib" get_all_servers
  for lib :: "'a digest_lib_scheme"
proof (unfold_locales, goal_cases)
  case (1 r l)
  then show ?case by (simp add: preference_list_via_hash preference_list_hash_firsts)
next
  case (2 r l)
  then show ?case
    using set_take_subset [of _ "firsts _"]
    by (fastforce simp: preference_list_via_hash preference_list_hash_firsts get_all_servers_def
        bt_range_from_def)
next
  case (3 r l)
  then show ?case
    by (cases "bt_range_from (ring_hash lib (uuid_to_string lib l)) (hr_ring r) @ hr_ring r")
      (auto simp: preference_list_via_hash preference_list_hash_firsts get_all_servers_def)
next
  case (4 r l)
  then show ?case by (simp add: get_coordinator_def)
qed


section \<open>Facts behind the properties\<close>

lemma firsts_append: "firsts (xs @ zs) = firsts xs @ filter (\<lambda>y. y \<notin> set xs) (firsts zs)"
  by (induction xs) (auto intro: filter_cong)

lemma firsts_append_seen: "set zs \<subseteq> set xs \<Longrightarrow> firsts (xs @ zs) = firsts xs"
  by (auto simp: firsts_append filter_empty_conv)

lemma ring_split: "bt_wf m \<Longrightarrow> m = bt_range_below h m @ bt_range_from h m"
proof (induction m)
  case (Cons e m)
  obtain k v where e: "e = (k, v)" by force
  show ?case
  proof (cases "k < h")
    case True
    then show ?thesis using Cons by (simp add: e bt_wf_Cons bt_range_below_def bt_range_from_def)
  next
    case False
    then have "filter (\<lambda>e. fst e < h) m = []" "filter (\<lambda>e. h \<le> fst e) m = m"
      using Cons.prems by (auto simp: e bt_wf_Cons filter_empty_conv filter_id_conv)
    with False show ?thesis by (simp add: e bt_range_below_def bt_range_from_def)
  qed
qed (simp add: bt_range_below_def)

lemma coordinator_fold_insert:
  "bt_wf m \<Longrightarrow>
     map_option snd (btree.successor h (fold (\<lambda>i. bt_insert (f i) n) is m)) = Some n \<or>
     btree.successor h (fold (\<lambda>i. bt_insert (f i) n) is m) = btree.successor h m"
proof (induction "is" arbitrary: m)
  case (Cons i "is")
  then show ?case
    using Cons.IH [OF bt_wf_insert [OF Cons.prems, of "f i" n]]
      btree.successor_insrt [OF Cons.prems, of h "f i" n] by auto
qed simp

lemma coordinator_fold_remove:
  "\<lbrakk>bt_wf m; btree.successor h m = Some (k, v); k \<notin> f ` set is\<rbrakk> \<Longrightarrow>
     btree.successor h (fold (\<lambda>i. bt_remove (f i)) is m) = Some (k, v)"
proof (induction "is" arbitrary: m)
  case (Cons i "is")
  then show ?case
    using btree.successor_remov [OF Cons.prems(1,2), of "f i"] by (simp add: bt_wf_remove)
qed simp

lemma bt_wf_filter: "bt_wf m \<Longrightarrow> bt_wf (filter P m)"
  by (induction m) (auto simp: bt_wf_def)

lemma vnodes_of_sorted: "bt_wf (hr_ring hr) \<Longrightarrow> sorted_wrt (<) (vnodes_of hr n)"
  using bt_wf_filter [of "hr_ring hr" "\<lambda>(_, owner). owner = n"]
  by (simp add: vnodes_of_def bt_wf_def)

lemma set_vnodes_of: "set (vnodes_of hr n) = {k. (k, n) \<in> set (hr_ring hr)}"
  by (force simp: vnodes_of_def)

lemma vnodes_of_Nil: "vnodes_of hr n = [] \<longleftrightarrow> n \<notin> get_all_servers hr"
  by (force simp: vnodes_of_def get_all_servers_def filter_empty_conv)

lemma vnodes_of_head:
  "bt_wf (hr_ring hr) \<Longrightarrow> vnodes_of hr n = k # ks \<Longrightarrow>
     k = Min {k. (k, n) \<in> set (hr_ring hr)}"
  using vnodes_of_sorted [of hr n] unfolding set_vnodes_of [symmetric]
  by (intro Min_eqI [symmetric]) auto

lemma filter_range_from: "filter P (bt_range_from h m) = bt_range_from h (filter P m)"
  by (simp add: bt_range_from_def conj_commute)

lemma pick_predecessors_firsts:
  "length pre < max 1 r \<Longrightarrow> pick_predecessors r n pre seen es =
     pre @ take (max 1 r - length pre)
       (filter (\<lambda>m. m \<noteq> n \<and> m \<notin> seen) (firsts (map snd es)))"
proof (induction r n pre seen es rule: pick_predecessors.induct)
  case (1 r n pre seen)
  then show ?case by simp
next
  case (2 r n pre seen k m es)
  let ?P = "\<lambda>seen y. y \<noteq> n \<and> y \<notin> seen"
  show ?case
  proof (cases "?P seen m")
    case False
    have "filter (?P seen) (filter (\<lambda>y. y \<noteq> m) xs) = filter (?P seen) xs" for xs
      using False by (auto intro: filter_cong)
    with False 2 show ?thesis by auto
  next
    case True
    have "filter (?P seen) (filter (\<lambda>y. y \<noteq> m) xs) = filter (?P (insert m seen)) xs" for xs
      by (auto intro: filter_cong)
    with True 2 show ?thesis
      by (cases "length (pre @ [m]) \<ge> r")
        (auto simp: Let_def take_Cons' Suc_diff_Suc not_le max_def split: if_splits)
  qed
qed

lemma servers_add_node:
  "bt_wf (hr_ring hr) \<Longrightarrow> get_all_servers (add_node lib hr n) \<subseteq> insert n (get_all_servers hr)"
  using fold_bt_insert [of "hr_ring hr" "vnode_hash lib n" n "[0..<hr_virtual_nodes hr]"]
  by (auto simp: get_all_servers_def add_node_def)

lemma servers_get: "bt_wf (hr_ring hr) \<Longrightarrow> n \<in> get_all_servers hr \<longleftrightarrow> n \<in> ran (map_of (hr_ring hr))"
  by (force simp: get_all_servers_def ran_def bt_in_get [symmetric])

lemma servers_add_node_new:
  "\<lbrakk>bt_wf (hr_ring hr); 0 < hr_virtual_nodes hr\<rbrakk> \<Longrightarrow> n \<in> get_all_servers (add_node lib hr n)"
  using fold_bt_insert [of "hr_ring hr" "vnode_hash lib n" n "[0..<hr_virtual_nodes hr]"]
  by (subst servers_get) (auto simp: add_node_def ran_def intro!: exI [of _ "vnode_hash lib n 0"])

lemma servers_remove_node_gone:
  assumes ok: "ring_ok lib hr"
  shows "n \<notin> get_all_servers (remove_node lib hr n)"
proof
  assume "n \<in> get_all_servers (remove_node lib hr n)"
  then obtain k where k: "(k, n) \<in> set (hr_ring (remove_node lib hr n))"
    by (auto simp: get_all_servers_def)
  have wf: "bt_wf (hr_ring hr)" using ok by (simp add: ring_ok_def)
  have "\<exists>i<hr_virtual_nodes hr. k = vnode_hash lib n i"
    using k ring_ok_remove_node [OF ok, of n] by (auto simp: ring_ok_def)
  with k show False
    using ring_remove_node_get [OF wf, of lib n] by (auto simp: bt_in_get restrict_map_def)
qed

lemma coordinator_add_node:
  "bt_wf (hr_ring hr) \<Longrightarrow>
     get_coordinator lib (add_node lib hr n) l \<in> {Some n, get_coordinator lib hr l}"
  using coordinator_fold_insert [of "hr_ring hr" "ring_hash lib (uuid_to_string lib l)"
      "vnode_hash lib n" n "[0..<hr_virtual_nodes hr]"]
  by (auto simp: coordinator_successor add_node_def)

lemma bt_wf_add_node: "bt_wf (hr_ring hr) \<Longrightarrow> bt_wf (hr_ring (add_node lib hr n))"
  using fold_bt_insert [of "hr_ring hr" "vnode_hash lib n" n "[0..<hr_virtual_nodes hr]"]
  by (simp add: add_node_def)


section \<open>A concrete instance of the library functions\<close>

text \<open>Identifiers written in unary and a digest that counts bytes: enough to evaluate the
  definitions on concrete rings.\<close>

definition sample_lib :: digest_lib where
  "sample_lib = \<lparr>uuid_to_string = (\<lambda>u. replicate (unat u) CHR ''x''),
     uuid_parse = (\<lambda>s. Some (of_nat (length s))),
     md5 = (\<lambda>bs. replicate 15 0 @ [of_nat (length bs)])\<rparr>"

lemma be_value_zeros: "be_value (replicate n 0 @ [b]) = unat b"
proof -
  have "be_value (replicate n 0) = 0"
    by (induction n) (simp_all add: replicate_append_same [symmetric])
  then show ?thesis by simp
qed

lemma ring_hash_sample: "ring_hash sample_lib key = of_nat (length key mod 256)"
  by (simp add: ring_hash_def sample_lib_def from_be_bytes_def be_value_zeros as_bytes_def
      unat_of_nat take_bit_eq_mod del: be_value_snoc)

lemma sample_lib_simps [simp]:
  "uuid_to_string sample_lib u = replicate (unat u) CHR ''x''"
  "uuid_parse sample_lib s = Some (of_nat (length s))"
  by (simp_all add: sample_lib_def)

lemma vnode_hash_sample: "i < 10 \<Longrightarrow> vnode_hash sample_lib n i = of_nat ((unat n + 2) mod 256)"
  by (simp add: vnode_hash_def ring_hash_sample usize_to_string.simps)


lemma pref_list_shape:
  "distinct (get_preference_list lib hr l) \<and>
   set (get_preference_list lib hr l) \<subseteq> get_all_servers hr \<and>
   length (get_preference_list lib hr l) = min (max 1 (hr_replicas hr)) (server_count hr)"
proof -
  have "card (set (map snd (bt_range_from h (hr_ring hr) @ hr_ring hr))) = server_count hr" for h
    unfolding set_clockwise by (simp add: server_count_def get_all_servers_def)
  then have "length (get_preference_list lib hr l) = min (max 1 (hr_replicas hr)) (server_count hr)"
    by (simp add: preference_list_via_hash preference_list_hash_firsts length_firsts min.commute
        del: map_append set_append)
  then show ?thesis by (simp add: ring.pref_distinct ring.pref_servers)
qed


section \<open>Properties\<close>

text \<open>C19: Placement is one walk around the circle: the preference list of a list is the first
  \<open>replicas\<close> distinct servers (at least one) among the owners of the points from the list's hash
  upwards and then of the points below it. The code walks the points above twice; that adds nothing.\<close>

theorem preference_list_walks_once:
  assumes "bt_wf (hr_ring hr)"
  shows "get_preference_list lib hr l =
    take (max 1 (hr_replicas hr))
      (firsts (map snd (bt_range_from (ring_hash lib (uuid_to_string lib l)) (hr_ring hr)) @
               map snd (bt_range_below (ring_hash lib (uuid_to_string lib l)) (hr_ring hr))))"
proof -
  let ?h = "ring_hash lib (uuid_to_string lib l)"
  let ?F = "bt_range_from ?h (hr_ring hr)" and ?B = "bt_range_below ?h (hr_ring hr)"
  have "firsts (map snd (?F @ hr_ring hr)) = firsts ((map snd ?F @ map snd ?B) @ map snd ?F)"
    using arg_cong [OF ring_split [OF assms, of ?h], of "\<lambda>m. firsts (map snd (?F @ m))"] by simp
  also have "\<dots> = firsts (map snd ?F @ map snd ?B)"
    by (rule firsts_append_seen) simp
  finally show ?thesis by (simp add: preference_list_via_hash preference_list_hash_firsts)
qed

theorem preference_list_walks_once_witness:
  "get_preference_list sample_lib
     \<lparr>hr_ring = [(10, 1), (20, 2), (30, 1), (40, 3), (50, 4)], hr_virtual_nodes = 1, hr_replicas = 3\<rparr>
     25 = [1, 3, 4]"
  by (subst preference_list_walks_once)
    (simp_all add: bt_wf_def bt_range_from_def bt_range_below_def ring_hash_sample)

text \<open>A preference list has no duplicates, names only servers of the ring and has as many of them
  as the replication factor asks for (at least one), or all of them when there are fewer.\<close>

lemma preference_list_size:
  "distinct (get_preference_list lib hr l) \<and>
   set (get_preference_list lib hr l) \<subseteq> get_all_servers hr \<and>
   length (get_preference_list lib hr l) = min (max 1 (hr_replicas hr)) (server_count hr)"
  by (rule pref_list_shape)

text \<open>The coordinator of a list is the owner of the first point at or above the hash of the
  list's id, or of the lowest point when there is none; it exists as soon as the ring has a
  server, and the other servers of the preference list never include it.\<close>

lemma coordinator_clockwise:
  assumes "bt_wf (hr_ring hr)"
  shows "(get_coordinator lib hr l = Some n \<longleftrightarrow>
      (\<exists>k. map_of (hr_ring hr) k = Some n \<and>
        (let h = ring_hash lib (uuid_to_string lib l); K = fst ` set (hr_ring hr)
         in h \<le> k \<and> (\<forall>j\<in>K. h \<le> j \<longrightarrow> k \<le> j) \<or> (\<forall>j\<in>K. j < h \<and> k \<le> j)))) \<and>
    (get_coordinator lib hr l = None \<longleftrightarrow> get_all_servers hr = {}) \<and>
    (get_coordinator lib hr l = Some n \<longrightarrow> n \<notin> set (drop 1 (get_preference_list lib hr l)))"
proof -
  have "k \<in> fst ` set (hr_ring hr)" if "map_of (hr_ring hr) k = Some n" for k n
    using that by (metis map_of_eq_None_iff option.distinct(1))
  moreover have "get_coordinator lib hr l = None \<longleftrightarrow> get_all_servers hr = {}"
    using ring.coord_exists [of hr lib l] ring.coord_None [of hr lib l] by force
  ultimately show ?thesis
    using ring.replicas_others [of lib hr l n]
    by (auto simp: coordinator_successor btree.successor_iff [OF assms(1)] btree.succ_key_def Let_def)
qed

lemma coordinator_clockwise_witness:
  "get_coordinator sample_lib
     \<lparr>hr_ring = [(10, 1), (20, 2), (30, 3)], hr_virtual_nodes = 1, hr_replicas = 3\<rparr> 35 = Some 1"
  using coordinator_clockwise [of "\<lparr>hr_ring = [(10, 1), (20, 2), (30, 3)], hr_virtual_nodes = 1,
      hr_replicas = 3\<rparr>" sample_lib 35 1]
  by (simp add: bt_wf_def ring_hash_sample exI [of _ 10])

text \<open>C20: A server joining the ring takes over lists but never moves a list between two others: the
  coordinator of every list is afterwards the new server or the same as before. The ring keeps its
  invariant and gains no server but the new one, which is placed when there is a virtual node.\<close>

theorem join_moves_lists_only_to_new_node:
  assumes "ring_ok lib hr" and "0 < hr_virtual_nodes hr"
  shows "ring_ok lib (add_node lib hr n) \<and>
    n \<in> get_all_servers (add_node lib hr n) \<and>
    get_all_servers (add_node lib hr n) \<subseteq> insert n (get_all_servers hr) \<and>
    get_coordinator lib (add_node lib hr n) l \<in> {Some n, get_coordinator lib hr l}"
  using assms ring_ok_add_node [OF assms(1)] servers_add_node [of hr lib n]
    servers_add_node_new [of hr n lib] coordinator_add_node [of hr lib n l]
  by (simp add: ring_ok_def)

theorem join_moves_lists_only_to_new_node_witness:
  "get_coordinator sample_lib (add_node sample_lib (add_node sample_lib (hash_ring_new 3 3) 1) 2) 9
     \<in> {Some 2, get_coordinator sample_lib (add_node sample_lib (hash_ring_new 3 3) 1) 9}"
  using join_moves_lists_only_to_new_node [of sample_lib "add_node sample_lib (hash_ring_new 3 3) 1" 2 9]
    ring_ok_add_node [OF ring_ok_new, of sample_lib 3 3 1]
  by (simp add: hash_ring_new_def)

text \<open>C21: A server leaving the ring, when none of its points collides with a point of another server,
  disappears from it and takes nobody else with it, and every list coordinated by another server
  keeps its coordinator.\<close>

theorem leave_moves_only_own_lists:
  assumes ok: "ring_ok lib hr"
    and collision_free: "\<forall>m\<in>get_all_servers hr - {n}. \<forall>i<hr_virtual_nodes hr.
      \<forall>j<hr_virtual_nodes hr. vnode_hash lib m i \<noteq> vnode_hash lib n j"
    and c: "get_coordinator lib hr l = Some c" "c \<noteq> n"
  shows "ring_ok lib (remove_node lib hr n) \<and>
    get_all_servers (remove_node lib hr n) = get_all_servers hr - {n} \<and>
    get_coordinator lib (remove_node lib hr n) l = Some c"
proof -
  let ?gone = "vnode_hash lib n ` {0..<hr_virtual_nodes hr}"
  have wf: "bt_wf (hr_ring hr)" using ok by (simp add: ring_ok_def)
  have kept: "k \<notin> ?gone" if here: "(k, m) \<in> set (hr_ring hr)" "m \<noteq> n" for k m
  proof -
    obtain i where "i < hr_virtual_nodes hr" "k = vnode_hash lib m i"
      using ring_ok_point [OF ok here(1)] by blast
    moreover have "m \<in> get_all_servers hr - {n}"
      using here by (force simp: get_all_servers_def)
    ultimately show ?thesis using collision_free by fastforce
  qed
  have "get_all_servers (remove_node lib hr n) = get_all_servers hr - {n}"
  proof -
    have "m \<in> get_all_servers (remove_node lib hr n) \<longleftrightarrow> m \<in> get_all_servers hr" if "m \<noteq> n" for m
      using ring_remove_node_get [OF wf, of lib n] kept [OF _ that]
      by (auto simp: servers_get wf ran_def restrict_map_def bt_in_get [symmetric])
    with servers_remove_node_gone [OF ok, of n] show ?thesis by (intro set_eqI) (metis DiffE DiffI singletonD singletonI)
  qed
  moreover have "get_coordinator lib (remove_node lib hr n) l = Some c"
  proof -
    obtain k where k: "btree.successor (ring_hash lib (uuid_to_string lib l)) (hr_ring hr) = Some (k, c)"
      using c(1) by (auto simp: coordinator_successor)
    then have "(k, c) \<in> set (hr_ring hr)" by (simp add: btree.successor_iff [OF wf] bt_in_get [OF wf])
    then have "k \<notin> vnode_hash lib n ` set [0..<hr_virtual_nodes hr]" using kept c(2) by simp
    from coordinator_fold_remove [OF wf k this] show ?thesis
      by (simp add: coordinator_successor remove_node_def)
  qed
  ultimately show ?thesis using ring_ok_remove_node [OF ok] by simp
qed

theorem leave_moves_only_own_lists_witness:
  "get_coordinator sample_lib (remove_node sample_lib
     \<lparr>hr_ring = [(3, 1), (4, 2), (5, 3)], hr_virtual_nodes = 3, hr_replicas = 3\<rparr> 2) 5 = Some 3"
proof -
  let ?hr = "\<lparr>hr_ring = [(3, 1), (4, 2), (5, 3)], hr_virtual_nodes = 3, hr_replicas = 3\<rparr> :: hash_ring"
  have ok: "ring_ok sample_lib ?hr"
    by (auto simp: ring_ok_def bt_wf_def vnode_hash_sample intro!: exI [of _ 0])
  have c: "get_coordinator sample_lib ?hr 5 = Some 3"
    by (simp add: coordinator_successor ring_hash_sample btree.successor_def)
  have free: "\<forall>m\<in>get_all_servers ?hr - {2}. \<forall>i<hr_virtual_nodes ?hr. \<forall>j<hr_virtual_nodes ?hr.
      vnode_hash sample_lib m i \<noteq> vnode_hash sample_lib 2 j"
    by (auto simp: get_all_servers_def vnode_hash_sample)
  show ?thesis
    using leave_moves_only_own_lists [OF ok free c] by simp
qed

text \<open>\<open>next_node\<close> starts at the lowest point of the given server and returns the owner of the
  next point clockwise among the points of all other servers, nothing when the server has no point
  or is alone, and panics on overflow exactly when that lowest point is the last of the circle.\<close>

lemma next_node_clockwise:
  assumes "bt_wf (hr_ring hr)"
  shows "next_node hr n =
    (let own = {k. (k, n) \<in> set (hr_ring hr)};
         others = filter (\<lambda>(_, m). m \<noteq> n) (hr_ring hr)
     in if own = {} then Ok None
        else if Min own = - 1 then Err overflow
        else Ok (map_option snd (btree.successor (Min own + 1) others)))"
proof (cases "vnodes_of hr n")
  case Nil
  then show ?thesis
    using set_vnodes_of [of hr n] by (simp add: next_node_def Let_def)
next
  case (Cons k ks)
  then have k: "k = Min {k. (k, n) \<in> set (hr_ring hr)}" by (rule vnodes_of_head [OF assms])
  have own: "{k. (k, n) \<in> set (hr_ring hr)} \<noteq> {}" "hr_ring hr \<noteq> []"
    using set_vnodes_of [of hr n] Cons by auto
  have "sort (vnodes_of hr n) = k # ks"
    using vnodes_of_sorted [OF assms, of n] Cons by (metis sorted_sort_id strict_sorted_imp_sorted)
  then show ?thesis
    using own by (auto simp: checked_add_one_u128 next_node_def Let_def k [symmetric] btree_successor_head
        filter_range_from [symmetric] find_filter case_prod_unfold split: list.splits)
qed

lemma next_node_clockwise_witness:
  "next_node \<lparr>hr_ring = [(3, 1), (4, 2), (5, 1), (6, 3)], hr_virtual_nodes = 2, hr_replicas = 3\<rparr> 3
     = Ok (Some 1)"
  by (subst next_node_clockwise) (simp_all add: bt_wf_def Let_def btree.successor_def)

text \<open>\<open>prev_node_hash\<close> returns, for a server of the ring, the greatest point below the server's
  lowest point, or the greatest point of the whole ring when its lowest point is the first; for a
  server without points it returns nothing.\<close>

lemma prev_node_hash_counter_clockwise:
  assumes "bt_wf (hr_ring hr)"
  shows "prev_node_hash hr n =
    (let own = {k. (k, n) \<in> set (hr_ring hr)};
         below = {k \<in> fst ` set (hr_ring hr). k < Min own}
     in if own = {} then None
        else if below = {} then Some (Max (fst ` set (hr_ring hr)))
        else Some (Max below))"
proof (cases "vnodes_of hr n")
  case Nil
  then show ?thesis using set_vnodes_of [of hr n] by (simp add: prev_node_hash_def Let_def)
next
  case (Cons k ks)
  then have k: "k = Min {k. (k, n) \<in> set (hr_ring hr)}" by (rule vnodes_of_head [OF assms])
  have own: "{k. (k, n) \<in> set (hr_ring hr)} \<noteq> {}" "hr_ring hr \<noteq> []"
    using set_vnodes_of [of hr n] Cons by auto
  have below: "fst ` set (bt_range_below k (hr_ring hr)) = {j \<in> fst ` set (hr_ring hr). j < k}"
    by (auto simp: bt_range_below_def)
  have last_max: "fst (last m) = Max (fst ` set m)" if "bt_wf m" "m \<noteq> []"
    for m :: "(u128 \<times> uuid) list"
  proof (cases m rule: rev_cases)
    case (snoc ys e)
    with that have "\<forall>x\<in>fst ` set ys. x \<le> fst e"
      by (auto simp: bt_wf_def sorted_wrt_append less_imp_le)
    then show ?thesis by (simp add: snoc, intro Max_eqI [symmetric]) auto
  qed (use that in simp)
  show ?thesis
  proof (cases "bt_range_below k (hr_ring hr) = []")
    case True
    then show ?thesis
      using own Cons below last_max [OF assms]
      by (simp add: prev_node_hash_def next_back_def Let_def k [symmetric])
  next
    case False
    have "bt_wf (bt_range_below k (hr_ring hr))"
      unfolding bt_range_below_def by (rule bt_wf_filter [OF assms])
    from last_max [OF this False]
    have last: "fst (last (bt_range_below k (hr_ring hr))) = Max {j \<in> fst ` set (hr_ring hr). j < k}"
      by (simp only: below)
    have "{j \<in> fst ` set (hr_ring hr). j < k} \<noteq> {}"
      unfolding below [symmetric] using False by simp
    with own Cons False last show ?thesis
      by (simp only: prev_node_hash_def next_back_def Let_def k [symmetric]) simp
  qed
qed

lemma prev_node_hash_counter_clockwise_witness:
  "prev_node_hash \<lparr>hr_ring = [(3, 1), (4, 2), (5, 1), (6, 3)], hr_virtual_nodes = 2, hr_replicas = 3\<rparr> 1
     = Some 6"
proof -
  have "{k. k = (3::u128) \<or> k = 5} = {3, 5}" by auto
  then show ?thesis
    by (subst prev_node_hash_counter_clockwise) (simp add: bt_wf_def, auto simp: Let_def)
qed

text \<open>\<open>get_predecessors\<close> walks down from the top of the ring and not from the given server: it
  returns the first distinct other servers of the reversed ring (up to the replication factor), so
  where the server's own points lie has no influence on the answer.\<close>

lemma predecessors_ignore_position:
  "get_predecessors hr n =
     take (max 1 (hr_replicas hr))
       (firsts (rev (map snd (filter (\<lambda>(_, m). m \<noteq> n) (hr_ring hr)))))"
proof -
  have "map snd (filter (\<lambda>(_, m). m \<noteq> n) es) = filter (\<lambda>m. m \<noteq> n) (map snd es)"
    for es :: "(u128 \<times> uuid) list"
    by (induction es) auto
  then have "firsts (rev (map snd (filter (\<lambda>(_, m). m \<noteq> n) es))) =
      filter (\<lambda>m. m \<noteq> n) (firsts (map snd (rev es)))" for es :: "(u128 \<times> uuid) list"
    by (simp add: firsts_filter [symmetric] rev_filter rev_map)
  then show ?thesis
    by (simp add: get_predecessors_def pick_predecessors_firsts rev_map)
qed

end
