(* ===== verification/Keyed_Store.thy ===== *)
theory Keyed_Store
  imports Prelude
begin

text \<open>
  The interface of a table with a unique key, as the server code uses it: entries are put under
  their key, replacing what the key held, removed by key and looked up by key. The lemmas of the
  locale are about sequences of such operations; the storage theories interpret it on the model
  of their tables.
\<close>

locale keyed_store =
  fixes inv :: "'s \<Rightarrow> bool"
    and look :: "'s \<Rightarrow> 'k \<Rightarrow> 'v option"
    and put :: "'s \<Rightarrow> 'e \<Rightarrow> 's res"
    and del :: "'s \<Rightarrow> 'd \<Rightarrow> 's res"
    and ok :: "'e \<Rightarrow> bool"
    and key :: "'e \<Rightarrow> 'k"
    and val :: "'e \<Rightarrow> 'v"
    and del_key :: "'d \<Rightarrow> 'k"
  assumes put_law: "\<lbrakk>inv s; ok e\<rbrakk> \<Longrightarrow>
      \<exists>s'. put s e = Ok s' \<and> inv s' \<and> look s' = (look s)(key e \<mapsto> val e)"
    and del_law: "inv s \<Longrightarrow>
      \<exists>s'. del s d = Ok s' \<and> inv s' \<and> look s' = (look s)(del_key d := None)"
begin

lemma put_get:
  assumes "inv s" "ok e" "put s e = Ok s'"
  shows "inv s'" "look s' (key e) = Some (val e)" "k \<noteq> key e \<Longrightarrow> look s' k = look s k"
  using put_law [OF assms(1,2)] assms(3) by auto

lemma puts_last:
  "\<lbrakk>inv s; list_all ok es\<rbrakk> \<Longrightarrow>
     \<exists>s'. run_res put s es = Ok s' \<and> inv s' \<and>
       (\<forall>k. look s' k = (case List.find (\<lambda>e. key e = k) (rev es) of
                        None \<Rightarrow> look s k | Some e \<Rightarrow> Some (val e)))"
proof (induction es arbitrary: s)
  case Nil
  then show ?case by simp
next
  case (Cons e es)
  obtain s1 where s1: "put s e = Ok s1" "inv s1" "look s1 = (look s)(key e \<mapsto> val e)"
    using put_law [of s e] Cons.prems by auto
  obtain s' where s': "run_res put s1 es = Ok s'" "inv s'"
      "\<And>k. look s' k = (case List.find (\<lambda>e. key e = k) (rev es) of
                        None \<Rightarrow> look s1 k | Some e \<Rightarrow> Some (val e))"
    using Cons.IH [OF s1(2)] Cons.prems by auto
  have find_append: "List.find P (xs @ [x]) =
      (case List.find P xs of None \<Rightarrow> if P x then Some x else None | Some y \<Rightarrow> Some y)"
    for P and xs :: "'e list" and x
    by (induction xs) auto
  show ?case
    using s1 s' by (auto simp: find_append split: option.splits)
qed

lemma put_del:
  assumes "inv s" "ok e" "put s e = Ok s'" "del s' d = Ok s''" "del_key d = key e"
  shows "inv s''" "look s'' = (look s)(key e := None)"
proof -
  from put_law [OF assms(1,2)] assms(3) have 1: "inv s'" "look s' = (look s)(key e \<mapsto> val e)"
    by auto
  from del_law [OF 1(1), of d] assms(4,5) 1(2)
  show "inv s''" "look s'' = (look s)(key e := None)" by auto
qed

end

end
