(* ===== verification/Server_Storage.thy ===== *)
theory Server_Storage
  imports Crdt Hash_Ring Keyed_Store
begin

text \<open>
  \<open>ServerStorage\<close> of \<open>src/storage.rs\<close>: the SQLite table in which a peer keeps the shopping lists it
  is responsible for, each a JSON document under the hash of the list's id, with the name of the
  server it is held for when it is a hinted handoff.

  The SQL statements of the source are modelled on the table as a list of rows in insertion order.
  Whether SQLite carries out the statements of a call is an argument of the call (\<open>sql_ok\<close>): a call
  whose statements fail returns an error and its transaction is rolled back. \<open>serde_json\<close> is a
  parameter: the functions that encode and decode a list. Directory handling and the connection
  are not modelled.
\<close>

record 'b json_lib = digest_lib +
  sl_to_json :: "shopping_list \<Rightarrow> 'b option"
  sl_from_json :: "'b \<Rightarrow> shopping_list option"

record 'b server_row =
  row_id :: blob
  crdt_data :: 'b
  hinted_handoff :: "string option"

record 'b server_storage =
  ss_server_id :: uuid
  ss_rows :: "'b server_row list"

definition sqlite_error :: error where
  "sqlite_error = Fail ''SQLite error''"

definition json_error :: error where
  "json_error = Fail ''json error''"

text \<open>\<open>ServerStorage::new\<close>: \<open>CREATE TABLE IF NOT EXISTS\<close> keeps the rows of an existing file.\<close>

definition ss_new :: "uuid \<Rightarrow> 'b server_row list option \<Rightarrow> 'b server_storage" where
  "ss_new server_id on_disk =
     \<lparr>ss_server_id = server_id, ss_rows = (case on_disk of None \<Rightarrow> [] | Some rows \<Rightarrow> rows)\<rparr>"

definition list_key :: "('b, 'x) json_lib_scheme \<Rightarrow> uuid \<Rightarrow> blob" where
  "list_key lib list_id = Blob (to_be_bytes (ring_hash lib (uuid_to_string lib list_id)))"

definition insert_or_replace :: "'b server_row \<Rightarrow> 'b server_row list \<Rightarrow> 'b server_row list" where
  "insert_or_replace row rows = filter (\<lambda>r. row_id r \<noteq> row_id row) rows @ [row]"

definition ss_get_shopping_list ::
    "('b, 'x) json_lib_scheme \<Rightarrow> bool \<Rightarrow> 'b server_storage \<Rightarrow> uuid \<Rightarrow> shopping_list option res" where
  "ss_get_shopping_list lib sql_ok s list_id =
     (if \<not> sql_ok then Err sqlite_error
      else case filter (\<lambda>r. row_id r = list_key lib list_id) (ss_rows s) of
        [] \<Rightarrow> Ok None
      | row # _ \<Rightarrow>
          (case sl_from_json lib (crdt_data row) of
             None \<Rightarrow> Err json_error
           | Some lst \<Rightarrow> Ok (Some lst)))"

text \<open>The list the two write functions compute from the stored and the incoming one. Only its id is
  used afterwards: the row they store holds the encoding of the incoming list.\<close>

definition ss_merged ::
    "('b, 'x) json_lib_scheme \<Rightarrow> bool \<Rightarrow> 'b server_storage \<Rightarrow> shopping_list \<Rightarrow> shopping_list" where
  "ss_merged lib read_ok s lst =
     (let stored = (case ss_get_shopping_list lib read_ok s (sl_id lst) of
                      Inr (Some st) \<Rightarrow> Some st | Inr None \<Rightarrow> None | Inl _ \<Rightarrow> None)
      in case stored of
           Some st \<Rightarrow> st\<lparr>sl_list := awormap_merge (sl_list st) (sl_list lst)\<rparr>
         | None \<Rightarrow> lst)"

definition ss_write_shopping_list ::
    "('b, 'x) json_lib_scheme \<Rightarrow> bool \<Rightarrow> bool \<Rightarrow> 'b server_storage \<Rightarrow> shopping_list \<Rightarrow>
     'b server_storage res" where
  "ss_write_shopping_list lib read_ok sql_ok s lst =
     (case sl_to_json lib lst of
        None \<Rightarrow> Err json_error
      | Some data \<Rightarrow>
          (let new_shopping_list = ss_merged lib read_ok s lst;
               key = list_key lib (sl_id new_shopping_list)
           in if sql_ok
              then Ok (s\<lparr>ss_rows := insert_or_replace
                     \<lparr>row_id = key, crdt_data = data, hinted_handoff = None\<rparr> (ss_rows s)\<rparr>)
              else Err sqlite_error))"

definition ss_write_shopping_list_handoff ::
    "('b, 'x) json_lib_scheme \<Rightarrow> bool \<Rightarrow> bool \<Rightarrow> 'b server_storage \<Rightarrow> shopping_list \<Rightarrow> uuid \<Rightarrow>
     'b server_storage res" where
  "ss_write_shopping_list_handoff lib read_ok sql_ok s lst server_id =
     (case sl_to_json lib lst of
        None \<Rightarrow> Err json_error
      | Some data \<Rightarrow>
          (let new_shopping_list = ss_merged lib read_ok s lst;
               key = list_key lib (sl_id new_shopping_list)
           in if sql_ok
              then Ok (s\<lparr>ss_rows := insert_or_replace
                     \<lparr>row_id = key, crdt_data = data,
                      hinted_handoff = Some (uuid_to_string lib server_id)\<rparr> (ss_rows s)\<rparr>)
              else Err sqlite_error))"

definition handoff_of_row ::
    "('b, 'x) json_lib_scheme \<Rightarrow> 'b server_row \<Rightarrow> (uuid \<times> shopping_list) res" where
  "handoff_of_row lib row =
     (case hinted_handoff row of
        None \<Rightarrow> Err sqlite_error
      | Some uuid_raw \<Rightarrow>
          (case sl_from_json lib (crdt_data row) of
             None \<Rightarrow> Err json_error
           | Some lst \<Rightarrow>
               (case uuid_parse lib uuid_raw of
                  None \<Rightarrow> Err (Fail ''uuid error'')
                | Some dest \<Rightarrow> Ok (dest, lst))))"

definition ss_get_hinted_handoffs ::
    "('b, 'x) json_lib_scheme \<Rightarrow> bool \<Rightarrow> 'b server_storage \<Rightarrow> (uuid \<times> shopping_list) list res" where
  "ss_get_hinted_handoffs lib sql_ok s =
     (if \<not> sql_ok then Err sqlite_error
      else collect_res (handoff_of_row lib)
             (filter (\<lambda>r. hinted_handoff r \<noteq> None) (ss_rows s)))"

definition list_of_row_or_panic :: "('b, 'x) json_lib_scheme \<Rightarrow> 'b server_row \<Rightarrow> shopping_list res" where
  "list_of_row_or_panic lib row =
     (case sl_from_json lib (crdt_data row) of
        None \<Rightarrow> Err (Panic ''json parsing error'')
      | Some lst \<Rightarrow> Ok lst)"

text \<open>The placeholders \<open>?1\<close> and \<open>?2\<close> are bound to the node's own hash and to \<open>prev_node_hash\<close>.\<close>

definition ss_get_old_data ::
    "('b, 'x) json_lib_scheme \<Rightarrow> bool \<Rightarrow> 'b server_storage \<Rightarrow> uuid \<Rightarrow> u128 \<Rightarrow> shopping_list list res" where
  "ss_get_old_data lib sql_ok s node_id prev_hash =
     (let hash = ring_hash lib (uuid_to_string lib node_id);
          p1 = Blob (to_be_bytes hash);
          p2 = Blob (to_be_bytes prev_hash);
          query = (if prev_hash < hash
                   then (\<lambda>r. row_id r > p1 \<and> row_id r \<le> p2 \<and> hinted_handoff r = None)
                   else (\<lambda>r. (row_id r > p1 \<or> row_id r \<le> p2) \<and> hinted_handoff r = None))
      in if \<not> sql_ok then Err sqlite_error
         else collect_res (list_of_row_or_panic lib) (filter query (ss_rows s)))"

definition hash_of_row :: "('b, 'x) json_lib_scheme \<Rightarrow> 'b server_row \<Rightarrow> (u128 \<times> shopping_list) res" where
  "hash_of_row lib row =
     (if length (blob_bytes (row_id row)) \<noteq> 16
      then Err (Panic ''source slice length does not match destination slice length'')
      else bind_res (list_of_row_or_panic lib row)
             (\<lambda>lst. Ok (from_be_bytes (blob_bytes (row_id row)), lst)))"

definition ss_get_all_rows ::
    "('b, 'x) json_lib_scheme \<Rightarrow> bool \<Rightarrow> 'b server_storage \<Rightarrow> (u128 \<times> shopping_list) list res" where
  "ss_get_all_rows lib sql_ok s =
     (if \<not> sql_ok then Err sqlite_error else collect_res (hash_of_row lib) (ss_rows s))"

definition ss_delete_shopping_list ::
    "('b, 'x) json_lib_scheme \<Rightarrow> bool \<Rightarrow> 'b server_storage \<Rightarrow> uuid \<Rightarrow> 'b server_storage res" where
  "ss_delete_shopping_list lib sql_ok s list_id =
     (if sql_ok
      then Ok (s\<lparr>ss_rows := filter (\<lambda>r. row_id r \<noteq> list_key lib list_id) (ss_rows s)\<rparr>)
      else Err sqlite_error)"

section \<open>What is assumed of \<open>serde_json\<close>, and the table's invariant\<close>

definition sl_wf :: "shopping_list \<Rightarrow> bool" where
  "sl_wf lst \<longleftrightarrow> hm_wf (aw_items (sl_list lst)) \<and>
     list_all (\<lambda>i. pncounter_ok (amount i)) (hm_values (aw_items (sl_list lst)))"

text \<open>Two lists are the same list when they have the same id and every lookup in them agrees: the
  order in which a hash map is encoded is not part of it.\<close>

definition sl_content :: "shopping_list \<Rightarrow> uuid \<times> (string \<Rightarrow> item_view option)" where
  "sl_content lst = (sl_id lst, awormap_view (sl_list lst))"

text \<open>What encoding a list and decoding the bytes gives: the same list.\<close>

definition json_law :: "('b, 'x) json_lib_scheme \<Rightarrow> bool" where
  "json_law lib \<longleftrightarrow> (\<forall>lst. sl_wf lst \<longrightarrow>
     (\<exists>data lst'. sl_to_json lib lst = Some data \<and> sl_from_json lib data = Some lst' \<and>
        sl_wf lst' \<and> sl_content lst' = sl_content lst))"

text \<open>\<open>Uuid::parse_str\<close> reads what \<open>Uuid::to_string\<close> writes.\<close>

definition uuid_law :: "'x digest_lib_scheme \<Rightarrow> bool" where
  "uuid_law lib \<longleftrightarrow> (\<forall>u. uuid_parse lib (uuid_to_string lib u) = Some u)"

definition row_ok :: "('b, 'x) json_lib_scheme \<Rightarrow> 'b server_row \<Rightarrow> bool" where
  "row_ok lib row \<longleftrightarrow>
     (case sl_from_json lib (crdt_data row) of
        None \<Rightarrow> False
      | Some lst \<Rightarrow> sl_wf lst \<and> row_id row = list_key lib (sl_id lst)) \<and>
     (case hinted_handoff row of None \<Rightarrow> True | Some u \<Rightarrow> uuid_parse lib u \<noteq> None)"

definition ss_ok :: "('b, 'x) json_lib_scheme \<Rightarrow> 'b server_storage \<Rightarrow> bool" where
  "ss_ok lib s \<longleftrightarrow> distinct (map row_id (ss_rows s)) \<and> list_all (row_ok lib) (ss_rows s)"

definition row_list :: "('b, 'x) json_lib_scheme \<Rightarrow> 'b server_row \<Rightarrow> shopping_list" where
  "row_list lib row = the (sl_from_json lib (crdt_data row))"

definition row_dest :: "('b, 'x) json_lib_scheme \<Rightarrow> 'b server_row \<Rightarrow> uuid" where
  "row_dest lib row = the (uuid_parse lib (the (hinted_handoff row)))"

text \<open>The table as a function of the key: what the row holds, and for whom.\<close>

definition ss_lookup ::
    "('b, 'x) json_lib_scheme \<Rightarrow> 'b server_storage \<Rightarrow> blob \<Rightarrow>
     ((uuid \<times> (string \<Rightarrow> item_view option)) \<times> string option) option" where
  "ss_lookup lib s k =
     map_option (\<lambda>row. (sl_content (row_list lib row), hinted_handoff row))
       (List.find (\<lambda>row. row_id row = k) (ss_rows s))"

lemma row_ok_decodes: "row_ok lib row \<Longrightarrow> sl_from_json lib (crdt_data row) = Some (row_list lib row)"
  by (auto simp: row_ok_def row_list_def split: option.splits)

lemma row_ok_wf: "row_ok lib row \<Longrightarrow> sl_wf (row_list lib row)"
  by (auto simp: row_ok_def row_list_def split: option.splits)

lemma row_ok_key: "row_ok lib row \<Longrightarrow> row_id row = list_key lib (sl_id (row_list lib row))"
  by (auto simp: row_ok_def row_list_def split: option.splits)

lemma list_key_blob: "list_key lib i = u128_blob (ring_hash lib (uuid_to_string lib i))"
  by (simp add: list_key_def u128_blob_def)

lemma ss_ok_row: "ss_ok lib s \<Longrightarrow> row \<in> set (ss_rows s) \<Longrightarrow> row_ok lib row"
  by (simp add: ss_ok_def list_all_iff)

text \<open>A row made from an encoded list.\<close>

lemma encoded_row:
  assumes "json_law lib" "sl_wf lst"
  obtains data where "sl_to_json lib lst = Some data"
    "row_ok lib \<lparr>row_id = list_key lib (sl_id lst), crdt_data = data, hinted_handoff = h\<rparr>
       \<longleftrightarrow> (case h of None \<Rightarrow> True | Some u \<Rightarrow> uuid_parse lib u \<noteq> None)"
    "\<And>h. sl_content (row_list lib \<lparr>row_id = list_key lib (sl_id lst), crdt_data = data,
       hinted_handoff = h\<rparr>) = sl_content lst"
proof -
  obtain data lst' where d: "sl_to_json lib lst = Some data" "sl_from_json lib data = Some lst'"
      "sl_wf lst'" "sl_content lst' = sl_content lst"
    using assms by (auto simp: json_law_def)
  show ?thesis
    using d by (intro that [OF d(1)]) (auto simp: row_ok_def row_list_def sl_content_def)
qed

lemma ss_merged_id:
  assumes "ss_ok lib s"
  shows "list_key lib (sl_id (ss_merged lib read_ok s lst)) = list_key lib (sl_id lst)"
proof (cases "filter (\<lambda>r. row_id r = list_key lib (sl_id lst)) (ss_rows s)")
  case (Cons row rows)
  then have "row \<in> set (filter (\<lambda>r. row_id r = list_key lib (sl_id lst)) (ss_rows s))"
    by simp
  then have row: "row \<in> set (ss_rows s)" "row_id row = list_key lib (sl_id lst)" by auto
  with assms have ok: "row_ok lib row" by (simp add: ss_ok_row)
  show ?thesis
    using Cons row_ok_key [OF ok] row(2) row_ok_decodes [OF ok]
    by (simp add: ss_merged_def ss_get_shopping_list_def Let_def)
qed (simp add: ss_merged_def ss_get_shopping_list_def)

lemma insert_or_replace_find:
  "List.find (\<lambda>r. row_id r = k) (insert_or_replace row rows) =
     (if k = row_id row then Some row else List.find (\<lambda>r. row_id r = k) rows)"
proof -
  have *: "filter (\<lambda>r. row_id r = k) (insert_or_replace row rows) =
      (if k = row_id row then [row] else filter (\<lambda>r. row_id r = k) rows)"
    by (auto simp: insert_or_replace_def filter_empty_conv intro!: filter_cong)
  show ?thesis by (simp add: find_filter *)
qed

lemma delete_find:
  "List.find (\<lambda>r. row_id r = k) (filter (\<lambda>r. row_id r \<noteq> k') rows) =
     (if k = k' then None else List.find (\<lambda>r. row_id r = k) rows)"
  by (induction rows) auto

lemma insert_or_replace_ok:
  "ss_ok lib s \<Longrightarrow> row_ok lib row \<Longrightarrow> ss_ok lib (s\<lparr>ss_rows := insert_or_replace row (ss_rows s)\<rparr>)"
  by (auto simp: ss_ok_def insert_or_replace_def list_all_iff distinct_map inj_on_def)

lemma delete_ok: "ss_ok lib s \<Longrightarrow> ss_ok lib (s\<lparr>ss_rows := filter P (ss_rows s)\<rparr>)"
  by (auto simp: ss_ok_def list_all_iff distinct_map inj_on_def)

section \<open>The table is a keyed store\<close>

text \<open>Both write functions as one operation on lists and optional hand-off destinations, for calls
  whose SQL statements succeed. Whether the read before the write succeeds does not matter.\<close>

definition ss_put ::
    "('b, 'x) json_lib_scheme \<Rightarrow> bool \<Rightarrow> 'b server_storage \<Rightarrow> shopping_list \<times> uuid option \<Rightarrow>
     'b server_storage res" where
  "ss_put lib read_ok s e =
     (case snd e of
        None \<Rightarrow> ss_write_shopping_list lib read_ok True s (fst e)
      | Some dest \<Rightarrow> ss_write_shopping_list_handoff lib read_ok True s (fst e) dest)"

definition entry_val ::
    "('b, 'x) json_lib_scheme \<Rightarrow> shopping_list \<times> uuid option \<Rightarrow>
     (uuid \<times> (string \<Rightarrow> item_view option)) \<times> string option" where
  "entry_val lib e = (sl_content (fst e), map_option (uuid_to_string lib) (snd e))"

lemma ss_put_row:
  assumes "json_law lib" "uuid_law lib" "ss_ok lib s" "sl_wf lst"
  obtains row where "ss_put lib read_ok s (lst, dest) =
      Ok (s\<lparr>ss_rows := insert_or_replace row (ss_rows s)\<rparr>)"
    "row_ok lib row" "row_id row = list_key lib (sl_id lst)"
    "sl_content (row_list lib row) = sl_content lst"
    "hinted_handoff row = map_option (uuid_to_string lib) dest"
proof -
  obtain data where data: "sl_to_json lib lst = Some data"
    "row_ok lib \<lparr>row_id = list_key lib (sl_id lst), crdt_data = data,
        hinted_handoff = map_option (uuid_to_string lib) dest\<rparr>
       \<longleftrightarrow> (case map_option (uuid_to_string lib) dest of
             None \<Rightarrow> True | Some u \<Rightarrow> uuid_parse lib u \<noteq> None)"
    "\<And>h. sl_content (row_list lib \<lparr>row_id = list_key lib (sl_id lst), crdt_data = data,
       hinted_handoff = h\<rparr>) = sl_content lst"
    using encoded_row [OF assms(1,4)] by metis
  show ?thesis
  proof (rule that [of "\<lparr>row_id = list_key lib (sl_id lst), crdt_data = data,
      hinted_handoff = map_option (uuid_to_string lib) dest\<rparr>"])
    show "ss_put lib read_ok s (lst, dest) = Ok (s\<lparr>ss_rows := insert_or_replace
      \<lparr>row_id = list_key lib (sl_id lst), crdt_data = data,
       hinted_handoff = map_option (uuid_to_string lib) dest\<rparr> (ss_rows s)\<rparr>)"
      using data(1) ss_merged_id [OF assms(3)]
      by (cases dest) (simp_all add: ss_put_def ss_write_shopping_list_def
          ss_write_shopping_list_handoff_def Let_def)
  qed (use data assms(2) in \<open>auto simp: uuid_law_def split: option.splits\<close>)
qed

lemma ss_lookup_insert:
  "row_ok lib row \<Longrightarrow>
   ss_lookup lib (s\<lparr>ss_rows := insert_or_replace row (ss_rows s)\<rparr>) =
     (ss_lookup lib s)(row_id row \<mapsto> (sl_content (row_list lib row), hinted_handoff row))"
  by (simp add: fun_eq_iff ss_lookup_def insert_or_replace_find)

text \<open>The store's laws need the laws of the library: those the table's invariant carries.\<close>

definition ss_inv :: "('b, 'x) json_lib_scheme \<Rightarrow> 'b server_storage \<Rightarrow> bool" where
  "ss_inv lib s \<longleftrightarrow> json_law lib \<and> uuid_law lib \<and> ss_ok lib s"

interpretation ss: keyed_store "ss_inv lib" "ss_lookup lib" "ss_put lib read_ok"
  "ss_delete_shopping_list lib True" "\<lambda>e. sl_wf (fst e)" "\<lambda>e. list_key lib (sl_id (fst e))"
  "entry_val lib" "list_key lib"
  for lib :: "('b, 'x) json_lib_scheme" and read_ok :: bool
proof (unfold_locales, goal_cases)
  case (1 s e)
  obtain lst dest where e: "e = (lst, dest)" by force
  from 1 have laws: "json_law lib" "uuid_law lib" "ss_ok lib s" "sl_wf lst"
    by (auto simp: ss_inv_def e)
  obtain row where row: "ss_put lib read_ok s (lst, dest) =
      Ok (s\<lparr>ss_rows := insert_or_replace row (ss_rows s)\<rparr>)"
    "row_ok lib row" "row_id row = list_key lib (sl_id lst)"
    "sl_content (row_list lib row) = sl_content lst"
    "hinted_handoff row = map_option (uuid_to_string lib) dest"
    by (rule ss_put_row [OF laws])
  show ?case
    using laws row insert_or_replace_ok [OF laws(3) row(2)] ss_lookup_insert [OF row(2), of s]
    by (simp add: e ss_inv_def entry_val_def)
next
  case (2 s d)
  then show ?case
    by (auto simp: ss_inv_def ss_delete_shopping_list_def delete_ok ss_lookup_def delete_find
        fun_eq_iff)
qed

lemma ss_get_lookup:
  assumes "ss_ok lib s"
  shows "case ss_lookup lib s (list_key lib i) of
      None \<Rightarrow> ss_get_shopping_list lib True s i = Ok None
    | Some (c, h) \<Rightarrow> \<exists>lst. ss_get_shopping_list lib True s i = Ok (Some lst) \<and>
        sl_content lst = c \<and> sl_wf lst"
proof (cases "filter (\<lambda>r. row_id r = list_key lib i) (ss_rows s)")
  case (Cons row rows)
  then have "row \<in> set (filter (\<lambda>r. row_id r = list_key lib i) (ss_rows s))" by simp
  then have ok: "row_ok lib row" using assms by (simp add: ss_ok_row)
  show ?thesis
    using Cons row_ok_decodes [OF ok] row_ok_wf [OF ok]
    by (simp add: ss_lookup_def find_filter ss_get_shopping_list_def)
qed (simp add: ss_lookup_def find_filter ss_get_shopping_list_def)

lemma ss_get_find:
  "ss_get_shopping_list lib True s i =
     (case List.find (\<lambda>r. row_id r = list_key lib i) (ss_rows s) of
        None \<Rightarrow> Ok None
      | Some row \<Rightarrow> (case sl_from_json lib (crdt_data row) of
                       None \<Rightarrow> Err json_error | Some lst \<Rightarrow> Ok (Some lst)))"
  by (simp add: ss_get_shopping_list_def find_filter split: list.split)

lemma hinted_handoffs_rows:
  assumes "ss_ok lib s"
  shows "ss_get_hinted_handoffs lib True s = Ok (map (\<lambda>r. (row_dest lib r, row_list lib r))
           (filter (\<lambda>r. hinted_handoff r \<noteq> None) (ss_rows s)))"
proof -
  have "list_all (\<lambda>r. handoff_of_row lib r = Ok (row_dest lib r, row_list lib r))
      (filter (\<lambda>r. hinted_handoff r \<noteq> None) (ss_rows s))"
  proof (clarsimp simp: list_all_iff)
    fix row u
    assume "row \<in> set (ss_rows s)" and u: "hinted_handoff row = Some u"
    with assms have ok: "row_ok lib row" by (simp add: ss_ok_row)
    then obtain d where "uuid_parse lib u = Some d" using u by (auto simp: row_ok_def)
    then show "handoff_of_row lib row = Ok (row_dest lib row, row_list lib row)"
      using row_ok_decodes [OF ok] u by (simp add: handoff_of_row_def row_dest_def)
  qed
  then show ?thesis by (simp add: ss_get_hinted_handoffs_def collect_res_map)
qed

text \<open>The pairs a hand-off round sees, as a set, through the table's lookup function.\<close>

lemma hinted_handoffs_lookup:
  assumes "ss_ok lib s"
  shows "\<exists>hs. ss_get_hinted_handoffs lib True s = Ok hs \<and>
    (\<forall>d c. (\<exists>lst. (d, lst) \<in> set hs \<and> sl_content lst = c) \<longleftrightarrow>
       (\<exists>u. ss_lookup lib s (list_key lib (fst c)) = Some (c, Some u) \<and> uuid_parse lib u = Some d))"
proof (intro exI conjI allI, rule hinted_handoffs_rows [OF assms])
  fix d c
  let ?rows = "filter (\<lambda>r. hinted_handoff r \<noteq> None) (ss_rows s)"
  let ?hs = "map (\<lambda>r. (row_dest lib r, row_list lib r)) ?rows"
  show "(\<exists>lst. (d, lst) \<in> set ?hs \<and> sl_content lst = c) \<longleftrightarrow>
      (\<exists>u. ss_lookup lib s (list_key lib (fst c)) = Some (c, Some u) \<and> uuid_parse lib u = Some d)"
    (is "?l \<longleftrightarrow> ?r")
  proof
    assume ?l
    then obtain row u where row: "row \<in> set (ss_rows s)" "hinted_handoff row = Some u"
        "row_dest lib row = d" "sl_content (row_list lib row) = c"
      by auto
    with assms have ok: "row_ok lib row" by (simp add: ss_ok_row)
    have key: "row_id row = list_key lib (fst c)"
      using row_ok_key [OF ok] row(4) by (auto simp: sl_content_def)
    have "List.find (\<lambda>r. row_id r = row_id row) (ss_rows s) = Some row"
      using assms row(1) unfolding ss_ok_def
      by (induction "ss_rows s" arbitrary: s rule: list.induct)
        (auto simp: find_Some_iff in_set_conv_nth distinct_conv_nth nth_eq_iff_index_eq)
    then show ?r
      using row key ok by (auto simp: ss_lookup_def row_ok_def row_dest_def)
  next
    assume ?r
    then obtain u row where u: "uuid_parse lib u = Some d" "hinted_handoff row = Some u"
        "sl_content (row_list lib row) = c"
        "List.find (\<lambda>r. row_id r = list_key lib (fst c)) (ss_rows s) = Some row"
      by (auto simp: ss_lookup_def)
    then have "row \<in> set ?rows" by (auto simp: find_Some_iff)
    with u show ?l by (force simp: row_dest_def)
  qed
qed

section \<open>A concrete library\<close>

text \<open>Lists encoded as themselves: enough to evaluate the operations on concrete tables.\<close>

definition sample_json :: "shopping_list json_lib" where
  "sample_json = \<lparr>uuid_to_string = uuid_to_string sample_lib, uuid_parse = uuid_parse sample_lib,
     md5 = md5 sample_lib, sl_to_json = Some, sl_from_json = Some\<rparr>"

lemma sample_json_simps [simp]:
  "uuid_to_string sample_json u = replicate (unat u) CHR ''x''"
  "uuid_parse sample_json str = Some (of_nat (length str))"
  "sl_to_json sample_json = Some" "sl_from_json sample_json = Some"
  by (simp_all add: sample_json_def)

lemma ring_hash_sample_json [simp]: "ring_hash sample_json key = of_nat (length key mod 256)"
  using ring_hash_sample [of key] by (simp add: ring_hash_def sample_json_def)

lemma sample_json_laws [simp]: "json_law sample_json" "uuid_law sample_json"
  by (simp_all add: json_law_def uuid_law_def)

lemma sample_ss_inv [simp]: "ss_inv sample_json \<lparr>ss_server_id = u, ss_rows = []\<rparr>"
  by (simp add: ss_inv_def ss_ok_def)

lemma server_stores:
  assumes "ss_inv lib s" "sl_wf lst"
  shows "\<exists>s' got. ss_write_shopping_list lib read_ok True s lst = Ok s' \<and> ss_inv lib s' \<and>
    ss_get_shopping_list lib True s' (sl_id lst) = Ok (Some got) \<and>
    sl_content got = sl_content lst \<and>
    (\<forall>i. list_key lib i \<noteq> list_key lib (sl_id lst) \<longrightarrow>
       ss_get_shopping_list lib True s' i = ss_get_shopping_list lib True s i)"
proof -
  have laws: "json_law lib" "uuid_law lib" "ss_ok lib s" using assms by (auto simp: ss_inv_def)
  obtain row where row: "ss_put lib read_ok s (lst, None) =
      Ok (s\<lparr>ss_rows := insert_or_replace row (ss_rows s)\<rparr>)"
    "row_ok lib row" "row_id row = list_key lib (sl_id lst)"
    "sl_content (row_list lib row) = sl_content lst"
    by (rule ss_put_row [OF laws assms(2), where dest = None])
  then show ?thesis
    using insert_or_replace_ok [OF laws(3) row(2)] laws row_ok_decodes [OF row(2)]
    by (auto simp: ss_put_def ss_inv_def ss_get_find insert_or_replace_find)
qed


lemma old_data_rows:
  assumes "ss_ok lib s"
  shows "ss_get_old_data lib True s node_id prev_hash =
    Ok (if prev_hash < ring_hash lib (uuid_to_string lib node_id) then []
        else map (row_list lib) (filter (\<lambda>r. hinted_handoff r = None) (ss_rows s)))"
proof -
  let ?h = "ring_hash lib (uuid_to_string lib node_id)"
  have rows: "collect_res (list_of_row_or_panic lib) (filter P (ss_rows s)) =
      Ok (map (row_list lib) (filter P (ss_rows s)))" for P
    using assms by (intro collect_res_map)
      (auto simp: list_all_iff list_of_row_or_panic_def row_ok_decodes dest: ss_ok_row)
  show ?thesis
  proof (cases "prev_hash < ?h")
    case True
    have "\<not> (row_id r > u128_blob ?h \<and> row_id r \<le> u128_blob prev_hash)" for r :: "'a server_row"
      using True by (metis less_le_not_le order_less_le_trans order_less_trans u128_blob_less)
    then have none: "filter (\<lambda>r. row_id r > u128_blob ?h \<and> row_id r \<le> u128_blob prev_hash \<and>
        hinted_handoff r = None) (ss_rows s) = []"
      by (auto simp: filter_empty_conv)
    from True show ?thesis
      by (simp add: ss_get_old_data_def u128_blob_def [symmetric] Let_def none)
  next
    case False
    then have "row_id r > u128_blob ?h \<or> row_id r \<le> u128_blob prev_hash" for r :: "'a server_row"
      by (meson leI order_trans u128_blob_le)
    with False rows show ?thesis
      by (simp add: ss_get_old_data_def u128_blob_def [symmetric] Let_def)
  qed
qed


lemma all_rows_hashes:
  assumes "ss_ok lib s"
  shows "ss_get_all_rows lib True s =
    Ok (map (\<lambda>r. (ring_hash lib (uuid_to_string lib (sl_id (row_list lib r))), row_list lib r)) (ss_rows s))"
proof -
  have "hash_of_row lib r = Ok (ring_hash lib (uuid_to_string lib (sl_id (row_list lib r))), row_list lib r)"
    if "r \<in> set (ss_rows s)" for r
    using row_ok_key [OF ss_ok_row [OF assms that]] row_ok_decodes [OF ss_ok_row [OF assms that]]
    by (simp add: hash_of_row_def list_key_def list_of_row_or_panic_def)
  then show ?thesis
    by (simp add: ss_get_all_rows_def collect_res_map list_all_iff)
qed


section \<open>Properties\<close>

text \<open>C17: A server that writes a list reads back the same list (its id and every item), whatever was
  stored before and whether or not the read that precedes the write succeeds; lists under other
  keys are untouched and the table stays well formed.\<close>

theorem server_write_then_read:
  assumes "ss_inv lib s" "sl_wf lst"
  shows "\<exists>s' got. ss_write_shopping_list lib read_ok True s lst = Ok s' \<and> ss_inv lib s' \<and>
    ss_get_shopping_list lib True s' (sl_id lst) = Ok (Some got) \<and>
    sl_content got = sl_content lst \<and>
    (\<forall>i. list_key lib i \<noteq> list_key lib (sl_id lst) \<longrightarrow>
       ss_get_shopping_list lib True s' i = ss_get_shopping_list lib True s i)"
  by (rule server_stores [OF assms])

text \<open>One item \<open>milk\<close> and one item \<open>tea\<close>, in two lists of the same id.\<close>

definition milk_list :: shopping_list where
  "milk_list = \<lparr>sl_id = 7, sl_list = awormap_insert awormap_new ''milk'' (item_new 2 False 1)\<rparr>"

definition tea_list :: shopping_list where
  "tea_list = \<lparr>sl_id = 7, sl_list = awormap_insert awormap_new ''tea'' (item_new 3 True 2)\<rparr>"

lemma sample_lists [simp]: "sl_wf milk_list" "sl_wf tea_list" "sl_id milk_list = 7" "sl_id tea_list = 7"
  by (simp_all add: sl_wf_def milk_list_def tea_list_def awormap_insert_def awormap_new_def item_new_def
      pncounter_ok_def gcounter_ok_def pncounter_new_def pncounter_with_count_def gcounter_new_def
      gcounter_with_count_def)

theorem server_write_then_read_witness:
  "\<exists>s' got. ss_write_shopping_list sample_json False True \<lparr>ss_server_id = 1, ss_rows = []\<rparr> milk_list = Ok s' \<and>
    ss_get_shopping_list sample_json True s' 7 = Ok (Some got) \<and> sl_content got = sl_content milk_list"
  using server_write_then_read [OF sample_ss_inv [of 1] sample_lists(1), of False] by auto

text \<open>C16: The stored list is always the last one written under its key, by either write function:
  the merge with the previously stored list that both functions compute never reaches the table, so
  items that only the earlier writes had are lost.\<close>

theorem server_keeps_last_write:
  assumes "ss_inv lib s" "list_all (\<lambda>e. sl_wf (fst e)) writes"
    and "List.find (\<lambda>e. list_key lib (sl_id (fst e)) = list_key lib i) (rev writes) = Some last_write"
  shows "\<exists>s' got. run_res (ss_put lib read_ok) s writes = Ok s' \<and> ss_inv lib s' \<and>
    ss_get_shopping_list lib True s' i = Ok (Some got) \<and>
    sl_content got = sl_content (fst last_write)"
proof -
  obtain s' where s': "run_res (ss_put lib read_ok) s writes = Ok s'" "ss_inv lib s'"
      "ss_lookup lib s' (list_key lib i) = Some (entry_val lib last_write)"
    using ss.puts_last [OF assms(1,2), of read_ok] assms(3) by fastforce
  then have "ss_ok lib s'" by (simp add: ss_inv_def)
  from ss_get_lookup [OF this, of i] s' show ?thesis by (auto simp: entry_val_def)
qed

theorem server_keeps_last_write_witness:
  "\<exists>s' got. run_res (ss_put sample_json True) \<lparr>ss_server_id = 1, ss_rows = []\<rparr>
       [(milk_list, None), (tea_list, None)] = Ok s' \<and>
     ss_get_shopping_list sample_json True s' 7 = Ok (Some got) \<and>
     awormap_view (sl_list got) ''milk'' = None \<and>
     awormap_view (awormap_merge (sl_list milk_list) (sl_list tea_list)) ''milk'' \<noteq> None"
proof -
  have "awormap_view (sl_list tea_list) ''milk'' = None"
    by (simp add: awormap_view_def tea_list_def awormap_insert_def awormap_new_def)
  moreover have "awormap_view (awormap_merge (sl_list milk_list) (sl_list tea_list)) ''milk'' \<noteq> None"
    by (simp add: awormap_view_def tea_list_def milk_list_def awormap_insert_def awormap_new_def)
  ultimately show ?thesis
    using server_keeps_last_write [OF sample_ss_inv [of 1], where read_ok = True and
        writes = "[(milk_list, None), (tea_list, None)]" and i = 7 and last_write = "(tea_list, None)"]
    by (auto simp: sl_content_def)
qed

text \<open>A hinted hand-off is listed for its destination until the list is deleted, and not after; a
  plain write of the same list also ends it, because the row is shared with the server's own copy.\<close>

lemma server_handoff_lifecycle:
  assumes "ss_inv lib s" "sl_wf lst" "sl_wf own" "sl_id own = sl_id lst"
  shows "\<exists>s1 hs1 s2 hs2 s3 hs3.
    ss_write_shopping_list_handoff lib read_ok True s lst dest = Ok s1 \<and>
    ss_get_hinted_handoffs lib True s1 = Ok hs1 \<and>
    (\<exists>l. (dest, l) \<in> set hs1 \<and> sl_content l = sl_content lst) \<and>
    ss_delete_shopping_list lib True s1 (sl_id lst) = Ok s2 \<and>
    ss_get_hinted_handoffs lib True s2 = Ok hs2 \<and> (\<forall>(d, l)\<in>set hs2. sl_id l \<noteq> sl_id lst) \<and>
    ss_write_shopping_list lib read_ok True s1 own = Ok s3 \<and>
    ss_get_hinted_handoffs lib True s3 = Ok hs3 \<and> (\<forall>(d, l)\<in>set hs3. sl_id l \<noteq> sl_id lst)"
proof -
  let ?k = "list_key lib (sl_id lst)"
  obtain s1 where s1: "ss_put lib read_ok s (lst, Some dest) = Ok s1" "ss_inv lib s1"
      "ss_lookup lib s1 = (ss_lookup lib s)(?k \<mapsto> entry_val lib (lst, Some dest))"
    using ss.put_law [OF assms(1), of "(lst, Some dest)" read_ok] assms(2) by auto
  obtain s2 where s2: "ss_delete_shopping_list lib True s1 (sl_id lst) = Ok s2" "ss_inv lib s2"
      "ss_lookup lib s2 ?k = None"
    using ss.del_law [OF s1(2), of "sl_id lst"] by auto
  obtain s3 where s3: "ss_put lib read_ok s1 (own, None) = Ok s3" "ss_inv lib s3"
      "ss_lookup lib s3 ?k = Some (entry_val lib (own, None))"
    using ss.put_law [OF s1(2), of "(own, None)" read_ok] assms(3,4) by auto
  have ok: "ss_ok lib s1" "uuid_parse lib (uuid_to_string lib dest) = Some dest"
    using s1(2) by (simp_all add: ss_inv_def uuid_law_def)
  obtain hs1 where hs1: "ss_get_hinted_handoffs lib True s1 = Ok hs1"
      "\<exists>l. (dest, l) \<in> set hs1 \<and> sl_content l = sl_content lst"
    using hinted_handoffs_lookup [OF ok(1)] s1(3) ok(2) by (auto simp: entry_val_def sl_content_def)
  have gone: "\<exists>hs. ss_get_hinted_handoffs lib True s' = Ok hs \<and> (\<forall>(d, l)\<in>set hs. sl_id l \<noteq> sl_id lst)"
    if "ss_inv lib s'" "\<forall>c u. ss_lookup lib s' ?k \<noteq> Some (c, Some u)" for s'
  proof -
    have "ss_ok lib s'" using that(1) by (simp add: ss_inv_def)
    from hinted_handoffs_lookup [OF this]
    obtain hs where hs: "ss_get_hinted_handoffs lib True s' = Ok hs"
      "\<forall>d c. (\<exists>l. (d, l) \<in> set hs \<and> sl_content l = c) \<longleftrightarrow>
        (\<exists>u. ss_lookup lib s' (list_key lib (fst c)) = Some (c, Some u) \<and> uuid_parse lib u = Some d)"
      by blast
    have "sl_id l \<noteq> sl_id lst" if "(d, l) \<in> set hs" for d l
      using that hs(2) \<open>\<forall>c u. ss_lookup lib s' ?k \<noteq> Some (c, Some u)\<close>
      by (metis fst_conv sl_content_def)
    with hs(1) show ?thesis by blast
  qed
  have "ss_write_shopping_list_handoff lib read_ok True s lst dest = Ok s1"
    "ss_write_shopping_list lib read_ok True s1 own = Ok s3"
    using s1(1) s3(1) by (simp_all add: ss_put_def)
  with hs1 s2 gone [OF s2(2)] gone [OF s3(2)] s3(3) show ?thesis
    by (fastforce simp: entry_val_def)
qed

lemma server_handoff_lifecycle_witness:
  "\<exists>s1 hs1. ss_write_shopping_list_handoff sample_json True True \<lparr>ss_server_id = 1, ss_rows = []\<rparr> milk_list 9 = Ok s1 \<and>
     ss_get_hinted_handoffs sample_json True s1 = Ok hs1 \<and>
     (\<exists>l. (9, l) \<in> set hs1 \<and> sl_content l = sl_content milk_list)"
  using server_handoff_lifecycle [OF sample_ss_inv [of 1] sample_lists(1) sample_lists(2), of True 9]
  by auto

text \<open>C38: \<open>get_old_data\<close> never selects a range: when the previous node's hash is below the node's own it
  returns no list, and otherwise it returns every list of the table that is not a hand-off. (Its two
  bounds are swapped, so the plain query is unsatisfiable and the wrap-around one always true.)\<close>

theorem server_old_data_all_or_nothing:
  assumes "ss_ok lib s"
  shows "ss_get_old_data lib True s node_id prev_hash =
    Ok (if prev_hash < ring_hash lib (uuid_to_string lib node_id) then []
        else map (row_list lib) (filter (\<lambda>r. hinted_handoff r = None) (ss_rows s)))"
  by (rule old_data_rows [OF assms])

theorem server_old_data_all_or_nothing_witness:
  "ss_get_old_data sample_json True \<lparr>ss_server_id = 1, ss_rows =
      [\<lparr>row_id = list_key sample_json 7, crdt_data = milk_list, hinted_handoff = None\<rparr>]\<rparr> 9 5 = Ok [] \<and>
   ss_get_old_data sample_json True \<lparr>ss_server_id = 1, ss_rows =
      [\<lparr>row_id = list_key sample_json 7, crdt_data = milk_list, hinted_handoff = None\<rparr>]\<rparr> 9 50 = Ok [milk_list]"
proof -
  have "ss_ok sample_json \<lparr>ss_server_id = 1, ss_rows =
      [\<lparr>row_id = list_key sample_json 7, crdt_data = milk_list, hinted_handoff = None\<rparr>]\<rparr>"
    by (simp add: ss_ok_def row_ok_def)
  from server_old_data_all_or_nothing [OF this, of 9 5] server_old_data_all_or_nothing [OF this, of 9 50]
  show ?thesis by (simp add: row_list_def)
qed

text \<open>Every row of the table is read back with the ring hash of its list's id, which is what
  \<open>leave\<close> looks the list's new coordinator up with.\<close>

lemma server_all_rows_hashes:
  assumes "ss_ok lib s"
  shows "ss_get_all_rows lib True s =
    Ok (map (\<lambda>r. (ring_hash lib (uuid_to_string lib (sl_id (row_list lib r))), row_list lib r)) (ss_rows s))"
  by (rule all_rows_hashes [OF assms])

lemma server_all_rows_hashes_witness:
  "ss_get_all_rows sample_json True \<lparr>ss_server_id = 1, ss_rows =
      [\<lparr>row_id = list_key sample_json 7, crdt_data = milk_list, hinted_handoff = None\<rparr>]\<rparr> = Ok [(7, milk_list)]"
proof -
  have "ss_ok sample_json \<lparr>ss_server_id = 1, ss_rows =
      [\<lparr>row_id = list_key sample_json 7, crdt_data = milk_list, hinted_handoff = None\<rparr>]\<rparr>"
    by (simp add: ss_ok_def row_ok_def)
  from server_all_rows_hashes [OF this] show ?thesis by (simp add: row_list_def)
qed

end
