(* ===== verification/Message.thy ===== *)
theory Message
  imports Crdt
begin

text \<open>
  The messages of \<open>src/message.rs\<close> and the membership table of \<open>src/server.rs\<close> that one of them
  carries.
\<close>

type_synonym membership_table = "(uuid, string) hash_map"

datatype msg =
    Hello uuid string
  | Gossip membership_table
  | Ping
  | Ack string
  | Nack string
  | AckList string shopping_list
  | GetList shopping_list
  | PutList shopping_list
  | ReplicateList string shopping_list bool
  | MergeList shopping_list
  | ListResponse "shopping_list option"
  | Handoff string shopping_list uuid
  | Leave

fun msg_name :: "msg \<Rightarrow> string" where
  "msg_name (Hello _ _) = ''HELLO''"
| "msg_name (Gossip _) = ''GOSSIP''"
| "msg_name (Ack _) = ''ACK''"
| "msg_name (Nack _) = ''NACK''"
| "msg_name (GetList _) = ''GET_LIST''"
| "msg_name (PutList _) = ''PUT_LIST''"
| "msg_name (MergeList _) = ''MERGE_LIST''"
| "msg_name (ListResponse _) = ''LIST_RESPONSE''"
| "msg_name (ReplicateList _ _ _) = ''REPLICATE''"
| "msg_name (AckList _ _) = ''AckList''"
| "msg_name (Handoff _ _ _) = ''HANDOFF''"
| "msg_name Ping = ''PING''"
| "msg_name Leave = ''LEAVE''"

end
