(* ===== verification/Action.thy ===== *)
theory Action
  imports Prelude
begin

text \<open>
  Stateful calls of the peer: a call takes the state and returns the state it leaves and its
  result. A call that fails keeps the changes it made before it failed, as in the source.

  The locks the calling thread holds are an argument of the calls that lock: taking a lock the
  thread already holds never returns (\<open>std::sync::Mutex\<close> is not reentrant).
\<close>

named_theorems keeps_intros \<open>rules for predicates a call keeps\<close>

type_synonym ('s, 'a) act = "'s \<Rightarrow> 's \<times> 'a res"

definition act_ret :: "'a \<Rightarrow> ('s, 'a) act" where
  "act_ret x = (\<lambda>s. (s, Ok x))"

definition act_err :: "error \<Rightarrow> ('s, 'a) act" where
  "act_err e = (\<lambda>s. (s, Err e))"

definition act_bind :: "('s, 'a) act \<Rightarrow> ('a \<Rightarrow> ('s, 'b) act) \<Rightarrow> ('s, 'b) act" where
  "act_bind m f = (\<lambda>s. case m s of (s', Inl e) \<Rightarrow> (s', Inl e) | (s', Inr x) \<Rightarrow> f x s')"

abbreviation act_seq :: "('s, 'a) act \<Rightarrow> ('s, 'b) act \<Rightarrow> ('s, 'b) act" where
  "act_seq m n \<equiv> act_bind m (\<lambda>_. n)"

definition act_gets :: "('s \<Rightarrow> 'a) \<Rightarrow> ('s, 'a) act" where
  "act_gets f = (\<lambda>s. (s, Ok (f s)))"

definition act_modify :: "('s \<Rightarrow> 's) \<Rightarrow> ('s, unit) act" where
  "act_modify f = (\<lambda>s. (f s, Ok ()))"

text \<open>A \<open>Result\<close> that the caller looks at instead of passing it on: only \<open>Fail\<close> can be seen.\<close>

definition act_try :: "('s, 'a) act \<Rightarrow> ('s, 'a res) act" where
  "act_try m = (\<lambda>s. case m s of
      (s', Inl (Fail e)) \<Rightarrow> (s', Ok (Inl (Fail e)))
    | (s', Inl e) \<Rightarrow> (s', Inl e)
    | (s', Inr x) \<Rightarrow> (s', Ok (Inr x)))"

text \<open>\<open>let _ = call;\<close> and a call whose \<open>Result\<close> is dropped.\<close>

definition act_ignore :: "('s, 'a) act \<Rightarrow> ('s, unit) act" where
  "act_ignore m = act_seq (act_try m) (act_ret ())"

definition act_of_res :: "'a res \<Rightarrow> ('s, 'a) act" where
  "act_of_res r = (\<lambda>s. (s, r))"

fun act_for :: "'a list \<Rightarrow> ('a \<Rightarrow> ('s, unit) act) \<Rightarrow> ('s, unit) act" where
  "act_for [] f = act_ret ()"
| "act_for (x # xs) f = act_seq (f x) (act_for xs f)"

lemma act_apply [simp]:
  "act_ret x s = (s, Ok x)"
  "act_err e s = (s, Err e)"
  "act_gets f s = (s, Ok (f s))"
  "act_modify g s = (g s, Ok ())"
  "act_of_res r s = (s, r)"
  by (simp_all add: act_ret_def act_err_def act_gets_def act_modify_def act_of_res_def)

lemma act_bind_apply:
  "act_bind m f s = (case snd (m s) of Inl e \<Rightarrow> (fst (m s), Inl e) | Inr x \<Rightarrow> f x (fst (m s)))"
  by (simp add: act_bind_def split: prod.split sum.split)

lemma act_try_apply:
  "act_try m s = (fst (m s), case snd (m s) of
      Inl (Fail e) \<Rightarrow> Ok (Inl (Fail e)) | Inl e \<Rightarrow> Inl e | Inr x \<Rightarrow> Ok (Inr x))"
  by (simp add: act_try_def split: prod.split sum.split error.split)

lemma act_bind_Ok:
  "act_bind m f s = (s', Inr y) \<longleftrightarrow> (\<exists>s1 x. m s = (s1, Inr x) \<and> f x s1 = (s', Inr y))"
  by (cases "m s"; cases "snd (m s)") (auto simp: act_bind_apply)

lemma act_try_Ok: "act_try m s = (s', Inr r) \<Longrightarrow> m s = (s', r)"
  by (cases "m s"; cases "snd (m s)") (auto simp: act_try_apply split: error.splits)

lemma act_try_case_Ok:
  assumes "act_bind (act_try m) (case_sum f g) s = (s', Inr y)" "\<And>e q q'. f e q \<noteq> (q', Inr y)"
  obtains s1 x where "m s = (s1, Inr x)" "g x s1 = (s', Inr y)"
proof (cases "snd (m s)")
  case (Inl e)
  with assms show ?thesis
    by (cases e) (auto simp: act_bind_apply act_try_apply)
next
  case (Inr x)
  with assms show ?thesis
    by (intro that [of "fst (m s)" x]) (auto simp: act_bind_apply act_try_apply prod_eq_iff)
qed

lemma act_ignore_apply:
  "act_ignore m s = (fst (m s), case snd (m s) of
      Inl (Fail e) \<Rightarrow> Ok () | Inl e \<Rightarrow> Inl e | Inr x \<Rightarrow> Ok ())"
  by (simp add: act_ignore_def act_bind_apply act_try_apply split: sum.split error.split)

lemma act_ignore_fst [simp]: "fst (act_ignore m s) = fst (m s)"
  by (simp add: act_ignore_apply)


section \<open>What a call keeps\<close>

definition keeps :: "('s \<Rightarrow> bool) \<Rightarrow> ('s, 'a) act \<Rightarrow> bool" where
  "keeps P m \<longleftrightarrow> (\<forall>s. P s \<longrightarrow> P (fst (m s)))"

lemma keepsD: "keeps P m \<Longrightarrow> P s \<Longrightarrow> P (fst (m s))"
  by (simp add: keeps_def)

lemma keeps_basic [simp, keeps_intros]:
  "keeps P (act_ret x)" "keeps P (act_err e)" "keeps P (act_gets f)" "keeps P (act_of_res r)"
  by (simp_all add: keeps_def)

lemma keeps_modify [keeps_intros]: "(\<And>s. P s \<Longrightarrow> P (g s)) \<Longrightarrow> keeps P (act_modify g)"
  by (simp add: keeps_def)

lemma keeps_bind [keeps_intros]: "keeps P m \<Longrightarrow> (\<And>x. keeps P (f x)) \<Longrightarrow> keeps P (act_bind m f)"
  by (auto simp: keeps_def act_bind_apply split: sum.split)

lemma keeps_try [keeps_intros]: "keeps P m \<Longrightarrow> keeps P (act_try m)"
  by (simp add: keeps_def act_try_apply)

lemma keeps_ignore [keeps_intros]: "keeps P m \<Longrightarrow> keeps P (act_ignore m)"
  by (simp add: keeps_def)

lemma keeps_for [keeps_intros]: "(\<And>x. keeps P (f x)) \<Longrightarrow> keeps P (act_for xs f)"
  by (induction xs) (auto intro!: keeps_intros)

text \<open>A field that no step of a call writes: the call keeps its value.\<close>

definition frame :: "('s \<Rightarrow> 'f) \<Rightarrow> ('s, 'a) act \<Rightarrow> bool" where
  "frame f m \<longleftrightarrow> (\<forall>s. f (fst (m s)) = f s)"

lemma frame_keeps: "frame f m \<longleftrightarrow> (\<forall>v. keeps (\<lambda>s. f s = v) m)"
  by (auto simp: frame_def keeps_def)


section \<open>Locks and calls that return\<close>

definition act_lock :: "'l list \<Rightarrow> 'l \<Rightarrow> ('s, 'a) act \<Rightarrow> ('s, 'a) act" where
  "act_lock held l m = (if l \<in> set held then act_err Deadlock else m)"

lemma act_lock_free [simp]: "l \<notin> set held \<Longrightarrow> act_lock held l m = m"
  by (simp add: act_lock_def)

lemma act_lock_held [simp]: "l \<in> set held \<Longrightarrow> act_lock held l m = act_err Deadlock"
  by (simp add: act_lock_def)

lemma keeps_lock [keeps_intros]: "keeps P m \<Longrightarrow> keeps P (act_lock held l m)"
  by (simp add: act_lock_def)

text \<open>A result a call comes back with: a value, or an error its caller can look at.\<close>

fun comes_back :: "'a res \<Rightarrow> bool" where
  "comes_back (Inr x) = True"
| "comes_back (Inl (Fail e)) = True"
| "comes_back (Inl _) = False"

text \<open>A call that keeps \<open>P\<close> and comes back from every state with \<open>P\<close>.\<close>

definition safe :: "('s \<Rightarrow> bool) \<Rightarrow> ('s, 'a) act \<Rightarrow> bool" where
  "safe P m \<longleftrightarrow> (\<forall>s. P s \<longrightarrow> P (fst (m s)) \<and> comes_back (snd (m s)))"

named_theorems safe_intros \<open>rules for calls that come back\<close>

lemma safe_basic [simp, safe_intros]:
  "safe P (act_ret x)" "safe P (act_err (Fail e))" "safe P (act_gets f)"
  by (simp_all add: safe_def)

lemma safe_modify [safe_intros]: "(\<And>s. P s \<Longrightarrow> P (g s)) \<Longrightarrow> safe P (act_modify g)"
  by (simp add: safe_def)

lemma safe_of_res [safe_intros]: "comes_back r \<Longrightarrow> safe P (act_of_res r)"
  by (simp add: safe_def)

lemma comes_back_cases: "comes_back r \<longleftrightarrow> (\<exists>x. r = Inr x) \<or> (\<exists>e. r = Inl (Fail e))"
  by (cases r rule: comes_back.cases) auto

lemma safe_bind [safe_intros]:
  assumes "safe P m" "\<And>x. safe P (f x)"
  shows "safe P (act_bind m f)"
  unfolding safe_def
proof (intro allI impI)
  fix s assume "P s"
  with assms(1) have "P (fst (m s))" "comes_back (snd (m s))" by (auto simp: safe_def)
  with assms(2) show "P (fst (act_bind m f s)) \<and> comes_back (snd (act_bind m f s))"
    by (cases "snd (m s)") (auto simp: act_bind_apply safe_def comes_back_cases)
qed

lemma safe_try [safe_intros]: "safe P m \<Longrightarrow> safe P (act_try m)"
  by (fastforce simp: safe_def act_try_apply comes_back_cases)

lemma safe_ignore [safe_intros]: "safe P m \<Longrightarrow> safe P (act_ignore m)"
  unfolding act_ignore_def by (intro safe_bind safe_try) simp_all

lemma safe_for [safe_intros]: "(\<And>x. safe P (f x)) \<Longrightarrow> safe P (act_for xs f)"
  by (induction xs) (auto intro!: safe_intros)

lemma safe_lock [safe_intros]: "l \<notin> set held \<Longrightarrow> safe P m \<Longrightarrow> safe P (act_lock held l m)"
  by simp

lemma safe_if [safe_intros]: "(b \<Longrightarrow> safe P m) \<Longrightarrow> (\<not> b \<Longrightarrow> safe P n) \<Longrightarrow> safe P (if b then m else n)"
  by simp

lemma keeps_if [keeps_intros]: "(b \<Longrightarrow> keeps P m) \<Longrightarrow> (\<not> b \<Longrightarrow> keeps P n) \<Longrightarrow> keeps P (if b then m else n)"
  by simp

lemma safe_keeps: "safe P m \<Longrightarrow> keeps P m"
  by (simp add: safe_def keeps_def)


section \<open>Case distinctions in calls\<close>

lemma keeps_cases [keeps_intros]:
  "(x = None \<Longrightarrow> keeps P a) \<Longrightarrow> (\<And>y. x = Some y \<Longrightarrow> keeps P (b y)) \<Longrightarrow> keeps P (case_option a b x)"
  "(\<And>e. r = Inl e \<Longrightarrow> keeps P (f e)) \<Longrightarrow> (\<And>y. r = Inr y \<Longrightarrow> keeps P (g y)) \<Longrightarrow> keeps P (case_sum f g r)"
  "(l = [] \<Longrightarrow> keeps P a) \<Longrightarrow> (\<And>y ys. l = y # ys \<Longrightarrow> keeps P (c y ys)) \<Longrightarrow> keeps P (case_list a c l)"
  "(\<And>y z. q = (y, z) \<Longrightarrow> keeps P (d y z)) \<Longrightarrow> keeps P (case_prod d q)"
  by (simp_all split: option.split sum.split list.split prod.split)

lemma safe_cases [safe_intros]:
  "(x = None \<Longrightarrow> safe P a) \<Longrightarrow> (\<And>y. x = Some y \<Longrightarrow> safe P (b y)) \<Longrightarrow> safe P (case_option a b x)"
  "(\<And>e. r = Inl e \<Longrightarrow> safe P (f e)) \<Longrightarrow> (\<And>y. r = Inr y \<Longrightarrow> safe P (g y)) \<Longrightarrow> safe P (case_sum f g r)"
  "(l = [] \<Longrightarrow> safe P a) \<Longrightarrow> (\<And>y ys. l = y # ys \<Longrightarrow> safe P (c y ys)) \<Longrightarrow> safe P (case_list a c l)"
  "(\<And>y z. q = (y, z) \<Longrightarrow> safe P (d y z)) \<Longrightarrow> safe P (case_prod d q)"
  by (simp_all split: option.split sum.split list.split prod.split)

text \<open>A call whose \<open>Result\<close> is matched on: only errors that can be seen reach the match.\<close>

lemma safe_try_case:
  assumes "safe P m" "\<And>e. safe P (f (Fail e))" "\<And>x. safe P (g x)"
  shows "safe P (act_bind (act_try m) (case_sum f g))"
  unfolding safe_def
proof (intro allI impI)
  fix p assume "P p"
  with assms(1) have m: "P (fst (m p))" "comes_back (snd (m p))" by (auto simp: safe_def)
  then consider e where "snd (m p) = Inl (Fail e)" | x where "snd (m p) = Inr x"
    by (auto simp: comes_back_cases)
  then show "P (fst (act_bind (act_try m) (case_sum f g) p)) \<and>
      comes_back (snd (act_bind (act_try m) (case_sum f g) p))"
    by cases (use m assms(2,3) in \<open>auto simp: act_bind_apply act_try_apply safe_def\<close>)
qed

text \<open>A relation every round of a loop is in is one the loop is in, when it is a preorder.\<close>

lemma act_for_rel:
  assumes "\<And>x s. x \<in> set xs \<Longrightarrow> R s (fst (f x s))" "\<And>s. R s s" "\<And>a b c. R a b \<Longrightarrow> R b c \<Longrightarrow> R a c"
  shows "R s (fst (act_for xs f s))"
  using assms(1)
proof (induction xs arbitrary: s)
  case (Cons x xs)
  have "R s (fst (f x s))" using Cons.prems by simp
  moreover have "R (fst (f x s)) (fst (act_for xs f (fst (f x s))))" using Cons by simp
  ultimately show ?case using assms(3) by (auto simp: act_bind_apply split: sum.split)
qed (simp add: assms(2))


section \<open>Changes a call does not notice\<close>

text \<open>Running the call after the change is running it before: the result is the same and the change is made to
  the state the call leaves.\<close>

definition unaffected :: "('s \<Rightarrow> 's) \<Rightarrow> ('s, 'a) act \<Rightarrow> bool" where
  "unaffected u m \<longleftrightarrow> (\<forall>s. m (u s) = (u (fst (m s)), snd (m s)))"

named_theorems unaffected_intros \<open>rules for changes that calls do not notice\<close>

lemma unaffectedD: "unaffected u m \<Longrightarrow> m (u s) = (u (fst (m s)), snd (m s))"
  by (simp add: unaffected_def)

lemma unaffected_basic [unaffected_intros]:
  "unaffected u (act_ret x)" "unaffected u (act_err e)" "unaffected u (act_of_res r)"
  by (simp_all add: unaffected_def)

lemma unaffected_gets [unaffected_intros]: "(\<And>s. f (u s) = f s) \<Longrightarrow> unaffected u (act_gets f)"
  by (simp add: unaffected_def)

lemma unaffected_modify [unaffected_intros]: "(\<And>s. g (u s) = u (g s)) \<Longrightarrow> unaffected u (act_modify g)"
  by (simp add: unaffected_def)

lemma unaffected_bind [unaffected_intros]:
  "unaffected u m \<Longrightarrow> (\<And>x. unaffected u (f x)) \<Longrightarrow> unaffected u (act_bind m f)"
  by (auto simp: unaffected_def act_bind_apply split: sum.split)

lemma unaffected_try [unaffected_intros]: "unaffected u m \<Longrightarrow> unaffected u (act_try m)"
  by (simp add: unaffected_def act_try_apply)

lemma unaffected_ignore [unaffected_intros]: "unaffected u m \<Longrightarrow> unaffected u (act_ignore m)"
  by (simp add: unaffected_def act_ignore_apply)

lemma unaffected_for [unaffected_intros]: "(\<And>x. unaffected u (f x)) \<Longrightarrow> unaffected u (act_for xs f)"
  by (induction xs) (auto intro!: unaffected_intros)

lemma unaffected_lock [unaffected_intros]: "unaffected u m \<Longrightarrow> unaffected u (act_lock held l m)"
  by (simp add: act_lock_def unaffected_intros)

lemma unaffected_if [unaffected_intros]:
  "(b \<Longrightarrow> unaffected u m) \<Longrightarrow> (\<not> b \<Longrightarrow> unaffected u n) \<Longrightarrow> unaffected u (if b then m else n)"
  by simp

lemma unaffected_cases [unaffected_intros]:
  "(x = None \<Longrightarrow> unaffected u a) \<Longrightarrow> (\<And>y. x = Some y \<Longrightarrow> unaffected u (b y)) \<Longrightarrow> unaffected u (case_option a b x)"
  "(\<And>e. r = Inl e \<Longrightarrow> unaffected u (f e)) \<Longrightarrow> (\<And>y. r = Inr y \<Longrightarrow> unaffected u (g y)) \<Longrightarrow> unaffected u (case_sum f g r)"
  "(l = [] \<Longrightarrow> unaffected u a) \<Longrightarrow> (\<And>y ys. l = y # ys \<Longrightarrow> unaffected u (c y ys)) \<Longrightarrow> unaffected u (case_list a c l)"
  "(\<And>y z. q = (y, z) \<Longrightarrow> unaffected u (d y z)) \<Longrightarrow> unaffected u (case_prod d q)"
  by (simp_all split: option.split sum.split list.split prod.split)

end
