(* ===== verification/Peer_State.thy ===== *)
theory Peer_State
  imports Server_Storage Message Action
begin

text \<open>
  The state of a peer (\<open>src/server.rs\<close>): the membership table, the table of failed peers, the
  quorum requests in flight, the storage and the ring, with the operations of the tables.

  The outside world is a parameter, the record \<open>world\<close>: every call that leaves the program takes
  the next tick of the peer and reads its outcome there (did the ZeroMQ call fail, did SQLite, what
  does the clock say, which UUID was drawn, which peer did the generator choose). A statement about
  all worlds is one about all outcomes. Messages a peer sends are appended to logs.
\<close>

section \<open>Membership and failures\<close>

definition membership_insert :: "membership_table \<Rightarrow> uuid \<Rightarrow> string \<Rightarrow> membership_table" where
  "membership_insert table server_id addr = hm_insert server_id addr table"

record peer_failure_info =
  last_failure :: nat
  failed :: bool

type_synonym failure_table = "(uuid, peer_failure_info) hash_map"

definition failure_table_new :: failure_table where
  "failure_table_new = []"

text \<open>\<open>Instant::now()\<close> is the argument \<open>now\<close>.\<close>

definition mark_failure :: "nat \<Rightarrow> failure_table \<Rightarrow> uuid \<Rightarrow> failure_table" where
  "mark_failure now table server_id =
     (case hm_get table server_id of
        Some e \<Rightarrow> hm_insert server_id (e\<lparr>last_failure := now, failed := True\<rparr>) table
      | None \<Rightarrow> hm_insert server_id \<lparr>last_failure = now, failed = True\<rparr> table)"

definition clear_failure :: "failure_table \<Rightarrow> uuid \<Rightarrow> failure_table" where
  "clear_failure table server_id = hm_remove server_id table"

definition is_available :: "failure_table \<Rightarrow> uuid \<Rightarrow> bool" where
  "is_available table server_id =
     (case hm_get table server_id of None \<Rightarrow> True | Some info \<Rightarrow> failed info)"


section \<open>Quorum requests\<close>

text \<open>The sender half of a request's one-shot channel is named by the request's id; sending on it
  puts the id into the peer's list of signalled channels.\<close>

record quorom_state =
  q_needed :: nat
  q_received :: nat
  q_responder :: "string option"
  q_lists :: "shopping_list list"

definition is_quorom_reached :: "quorom_state \<Rightarrow> bool" where
  "is_quorom_reached q \<longleftrightarrow> q_received q \<ge> q_needed q"

definition merge_list_into :: "shopping_list \<Rightarrow> shopping_list \<Rightarrow> shopping_list" where
  "merge_list_into merged lst = merged\<lparr>sl_list := awormap_merge (sl_list merged) (sl_list lst)\<rparr>"

definition merge_lists :: "quorom_state \<Rightarrow> shopping_list res" where
  "merge_lists q =
     (case q_lists q of
        [] \<Rightarrow> Err (Fail ''No shopping lists to merge'')
      | first # others \<Rightarrow> Ok (foldl merge_list_into first others))"

definition add_list :: "quorom_state \<Rightarrow> shopping_list \<Rightarrow> quorom_state" where
  "add_list q lst = q\<lparr>q_received := q_received q + 1, q_lists := q_lists q @ [lst]\<rparr>"

definition increment_received :: "quorom_state \<Rightarrow> quorom_state" where
  "increment_received q = q\<lparr>q_received := q_received q + 1\<rparr>"


lemma sl_wf_get:
  "sl_wf lst \<longleftrightarrow> hm_wf (aw_items (sl_list lst)) \<and>
     (\<forall>k i. hm_get (aw_items (sl_list lst)) k = Some i \<longrightarrow> pncounter_ok (amount i))"
  by (auto simp: sl_wf_def list_all_iff hm_get_in [symmetric]) force

lemma sl_wf_merge: "sl_wf a \<Longrightarrow> sl_wf b \<Longrightarrow> sl_wf (merge_list_into a b)"
  by (auto simp: sl_wf_get merge_list_into_def merge_into_get join_opt_def item_merge_def
      pncounter.ok_merge split: option.splits)

lemma sl_wf_foldl: "sl_wf a \<Longrightarrow> list_all sl_wf ls \<Longrightarrow> sl_wf (foldl merge_list_into a ls)"
  by (induction ls arbitrary: a) (simp_all add: sl_wf_merge)


section \<open>The peer and its world\<close>

record 'b world = "'b json_lib" +
  w_zmq :: "nat \<Rightarrow> string option"
  w_sql_ok :: "nat \<Rightarrow> bool"
  w_now :: "nat \<Rightarrow> nat"
  w_new_uuid :: "nat \<Rightarrow> uuid"
  w_choose :: "nat \<Rightarrow> nat"

record 'b peer =
  p_uuid :: uuid
  p_storage :: "'b server_storage"
  p_addr :: string
  p_membership :: membership_table
  p_hashring :: hash_ring
  p_failure :: failure_table
  p_in_flight :: "(string, quorom_state) hash_map"
  p_signalled :: "string list"
  p_sent :: "(uuid option \<times> string \<times> msg) list"
  p_proxied :: "(u8 list \<times> msg) list"
  p_tick :: nat

datatype lock_name =
  L_storage | L_proxy_dealer | L_router | L_membership | L_hashring | L_failure | L_in_flight

type_synonym locks = "lock_name list"

text \<open>\<open>Peer::new\<close>, once its sockets are open and its storage is.\<close>

definition peer_new :: "('b, 'x) world_scheme \<Rightarrow> uuid \<Rightarrow> string \<Rightarrow> 'b server_storage \<Rightarrow> 'b peer" where
  "peer_new w uuid bind_addr storage =
     \<lparr>p_uuid = uuid, p_storage = storage, p_addr = bind_addr,
      p_membership = membership_insert [] uuid bind_addr,
      p_hashring = add_node w (hash_ring_new VNODES REPLICAS) uuid,
      p_failure = failure_table_new, p_in_flight = [],
      p_signalled = [], p_sent = [], p_proxied = [], p_tick = 0\<rparr>"


section \<open>Calls to the outside\<close>

definition world_tick :: "(nat \<Rightarrow> 'a) \<Rightarrow> ('b peer, 'a) act" where
  "world_tick f = (\<lambda>p. (p\<lparr>p_tick := p_tick p + 1\<rparr>, Ok (f (p_tick p))))"

definition zmq_call :: "('b, 'x) world_scheme \<Rightarrow> ('b peer, unit) act" where
  "zmq_call w = act_bind (world_tick (w_zmq w))
     (\<lambda>r. case r of None \<Rightarrow> act_ret () | Some e \<Rightarrow> act_err (Fail e))"

text \<open>The calls on the storage, under its lock.\<close>

definition storage_write ::
    "('b, 'x) world_scheme \<Rightarrow> locks \<Rightarrow> shopping_list \<Rightarrow> ('b peer, unit) act" where
  "storage_write w held lst = act_lock held L_storage
     (act_bind (world_tick (w_sql_ok w)) (\<lambda>read_ok.
      act_bind (world_tick (w_sql_ok w)) (\<lambda>sql_ok.
      act_bind (act_gets p_storage) (\<lambda>s.
      act_bind (act_of_res (ss_write_shopping_list w read_ok sql_ok s lst)) (\<lambda>s'.
      act_modify (\<lambda>p. p\<lparr>p_storage := s'\<rparr>))))))"

definition storage_write_handoff ::
    "('b, 'x) world_scheme \<Rightarrow> locks \<Rightarrow> shopping_list \<Rightarrow> uuid \<Rightarrow> ('b peer, unit) act" where
  "storage_write_handoff w held lst server_id = act_lock held L_storage
     (act_bind (world_tick (w_sql_ok w)) (\<lambda>read_ok.
      act_bind (world_tick (w_sql_ok w)) (\<lambda>sql_ok.
      act_bind (act_gets p_storage) (\<lambda>s.
      act_bind (act_of_res (ss_write_shopping_list_handoff w read_ok sql_ok s lst server_id)) (\<lambda>s'.
      act_modify (\<lambda>p. p\<lparr>p_storage := s'\<rparr>))))))"

definition storage_get ::
    "('b, 'x) world_scheme \<Rightarrow> locks \<Rightarrow> uuid \<Rightarrow> ('b peer, shopping_list option) act" where
  "storage_get w held list_id = act_lock held L_storage
     (act_bind (world_tick (w_sql_ok w)) (\<lambda>sql_ok.
      act_bind (act_gets p_storage) (\<lambda>s. act_of_res (ss_get_shopping_list w sql_ok s list_id))))"

definition storage_delete :: "('b, 'x) world_scheme \<Rightarrow> locks \<Rightarrow> uuid \<Rightarrow> ('b peer, unit) act" where
  "storage_delete w held list_id = act_lock held L_storage
     (act_bind (world_tick (w_sql_ok w)) (\<lambda>sql_ok.
      act_bind (act_gets p_storage) (\<lambda>s.
      act_bind (act_of_res (ss_delete_shopping_list w sql_ok s list_id)) (\<lambda>s'.
      act_modify (\<lambda>p. p\<lparr>p_storage := s'\<rparr>)))))"

definition storage_handoffs ::
    "('b, 'x) world_scheme \<Rightarrow> locks \<Rightarrow> ('b peer, (uuid \<times> shopping_list) list) act" where
  "storage_handoffs w held = act_lock held L_storage
     (act_bind (world_tick (w_sql_ok w)) (\<lambda>sql_ok.
      act_bind (act_gets p_storage) (\<lambda>s. act_of_res (ss_get_hinted_handoffs w sql_ok s))))"

definition storage_old_data ::
    "('b, 'x) world_scheme \<Rightarrow> locks \<Rightarrow> uuid \<Rightarrow> u128 \<Rightarrow> ('b peer, shopping_list list) act" where
  "storage_old_data w held node_id prev_hash = act_lock held L_storage
     (act_bind (world_tick (w_sql_ok w)) (\<lambda>sql_ok.
      act_bind (act_gets p_storage) (\<lambda>s. act_of_res (ss_get_old_data w sql_ok s node_id prev_hash))))"

definition storage_all_rows ::
    "('b, 'x) world_scheme \<Rightarrow> locks \<Rightarrow> ('b peer, (u128 \<times> shopping_list) list) act" where
  "storage_all_rows w held =
     act_bind (world_tick (w_sql_ok w)) (\<lambda>sql_ok.
     act_bind (act_gets p_storage) (\<lambda>s. act_of_res (ss_get_all_rows w sql_ok s)))"


text \<open>What the storage calls do to the peer.\<close>

lemma storage_runs:
  assumes "L_storage \<notin> set held"
  shows "storage_write w held lst p =
      (case ss_write_shopping_list w (w_sql_ok w (p_tick p)) (w_sql_ok w (p_tick p + 1)) (p_storage p) lst of
         Inl e \<Rightarrow> (p\<lparr>p_tick := p_tick p + 2\<rparr>, Inl e)
       | Inr st \<Rightarrow> (p\<lparr>p_tick := p_tick p + 2, p_storage := st\<rparr>, Ok ()))"
    "storage_write_handoff w held lst u p =
      (case ss_write_shopping_list_handoff w (w_sql_ok w (p_tick p)) (w_sql_ok w (p_tick p + 1))
              (p_storage p) lst u of
         Inl e \<Rightarrow> (p\<lparr>p_tick := p_tick p + 2\<rparr>, Inl e)
       | Inr st \<Rightarrow> (p\<lparr>p_tick := p_tick p + 2, p_storage := st\<rparr>, Ok ()))"
    "storage_delete w held i p =
      (case ss_delete_shopping_list w (w_sql_ok w (p_tick p)) (p_storage p) i of
         Inl e \<Rightarrow> (p\<lparr>p_tick := p_tick p + 1\<rparr>, Inl e)
       | Inr st \<Rightarrow> (p\<lparr>p_tick := p_tick p + 1, p_storage := st\<rparr>, Ok ()))"
    "storage_get w held i p = (p\<lparr>p_tick := p_tick p + 1\<rparr>,
       ss_get_shopping_list w (w_sql_ok w (p_tick p)) (p_storage p) i)"
    "storage_handoffs w held p = (p\<lparr>p_tick := p_tick p + 1\<rparr>,
       ss_get_hinted_handoffs w (w_sql_ok w (p_tick p)) (p_storage p))"
    "storage_old_data w held n h p = (p\<lparr>p_tick := p_tick p + 1\<rparr>,
       ss_get_old_data w (w_sql_ok w (p_tick p)) (p_storage p) n h)"
  using assms
  by (simp_all add: storage_write_def storage_write_handoff_def storage_delete_def storage_get_def
      storage_handoffs_def storage_old_data_def act_bind_apply world_tick_def split: sum.split)

lemma storage_all_rows_run: "storage_all_rows w held p = (p\<lparr>p_tick := p_tick p + 1\<rparr>,
    ss_get_all_rows w (w_sql_ok w (p_tick p)) (p_storage p))"
  by (simp add: storage_all_rows_def act_bind_apply world_tick_def split: sum.split)


section \<open>A concrete world\<close>

text \<open>A world in which nothing fails and every drawn UUID is 4.\<close>

definition sample_world :: "shopping_list world" where
  "sample_world = \<lparr>uuid_to_string = uuid_to_string sample_lib, uuid_parse = uuid_parse sample_lib,
     md5 = md5 sample_lib, sl_to_json = Some, sl_from_json = Some,
     w_zmq = (\<lambda>_. None), w_sql_ok = (\<lambda>_. True), w_now = (\<lambda>t. t), w_new_uuid = (\<lambda>_. 4),
     w_choose = (\<lambda>_. 0)\<rparr>"

definition sample_peer :: "shopping_list peer" where
  "sample_peer = peer_new sample_world 1 ''a'' \<lparr>ss_server_id = 1, ss_rows = []\<rparr>"

lemma ring_hash_sample_world [simp]: "ring_hash sample_world key = of_nat (length key mod 256)"
  using ring_hash_sample [of key] by (simp add: ring_hash_def sample_world_def)

lemma sample_world_simps [simp]:
  "uuid_to_string sample_world u = replicate (unat u) CHR ''x''"
  "uuid_parse sample_world str = Some (of_nat (length str))"
  "sl_to_json sample_world = Some" "sl_from_json sample_world = Some"
  "w_zmq sample_world t = None" "w_sql_ok sample_world t = True" "w_now sample_world t = t"
  "w_new_uuid sample_world t = 4" "w_choose sample_world t = 0"
  by (simp_all add: sample_world_def)

lemma sample_id_2 [simp]: "replicate 2 CHR ''x'' = ''xx''"
  by (simp add: numeral_2_eq_2)

lemma vnode_hash_sample_world: "i < 10 \<Longrightarrow> vnode_hash sample_world n i = of_nat ((unat n + 2) mod 256)"
  by (simp add: vnode_hash_def usize_to_string.simps)

lemma add_node_sample_world:
  "hr_virtual_nodes hr = 3 \<Longrightarrow> add_node sample_world hr n = (let k = of_nat ((unat n + 2) mod 256) in
     hr\<lparr>hr_ring := bt_insert k n (bt_insert k n (bt_insert k n (hr_ring hr)))\<rparr>)"
  by (simp add: add_node_def vnode_hash_sample_world upt_rec Let_def)

end
