(* ===== verification/Peer_Network.thy ===== *)
theory Peer_Network
  imports Peer_State
begin

text \<open>
  How a peer reaches other peers and the proxy (\<open>src/server.rs\<close>): connections, sending with failure
  marking, gossip, joining, leaving, the hand-off and failure detection rounds, and the search for a
  stand-in node. Encoding a message to JSON cannot fail for the message types of the program (their
  maps have string keys), so messages are sent as values; an open socket is the address it is
  connected to. The results of \<open>set_identity\<close> and \<open>connect\<close> are ignored by \<open>connect_to_peer\<close>.
\<close>

definition MAX_RETRIES :: nat where "MAX_RETRIES = 3"

section \<open>Failure marks\<close>

definition mark_peer_failed :: "('b, 'x) world_scheme \<Rightarrow> locks \<Rightarrow> uuid \<Rightarrow> ('b peer, unit) act" where
  "mark_peer_failed w held u = act_lock held L_failure
     (act_bind (world_tick (w_now w)) (\<lambda>now.
      act_modify (\<lambda>p. p\<lparr>p_failure := mark_failure now (p_failure p) u\<rparr>)))"

definition clear_peer_failure :: "locks \<Rightarrow> uuid \<Rightarrow> ('b peer, unit) act" where
  "clear_peer_failure held u = act_lock held L_failure
     (act_modify (\<lambda>p. if hm_contains (p_failure p) u
        then p\<lparr>p_failure := clear_failure (p_failure p) u\<rparr> else p))"

definition is_peer_available :: "locks \<Rightarrow> uuid \<Rightarrow> ('b peer, bool) act" where
  "is_peer_available held u =
     act_bind (act_lock held L_membership (act_gets (\<lambda>p. hm_contains (p_membership p) u)))
       (\<lambda>in_membership. if \<not> in_membership then act_ret False
          else act_lock held L_failure (act_gets (\<lambda>p. is_available (p_failure p) u)))"


section \<open>Sending\<close>

definition connect_to_peer ::
    "('b, 'x) world_scheme \<Rightarrow> locks \<Rightarrow> uuid \<Rightarrow> ('b peer, string) act" where
  "connect_to_peer w held u =
     act_bind (act_lock held L_membership (act_gets (\<lambda>p. hm_get (p_membership p) u)))
       (\<lambda>entry. case entry of
          None \<Rightarrow> act_err (Fail ''peer not found in membership table'')
        | Some peer_addr \<Rightarrow> act_seq (zmq_call w) (act_ret peer_addr))"

definition close_conn ::
    "('b, 'x) world_scheme \<Rightarrow> locks \<Rightarrow> uuid \<Rightarrow> string \<Rightarrow> ('b peer, unit) act" where
  "close_conn w held u socket =
     act_bind (act_lock held L_membership (act_gets (\<lambda>p. hm_get (p_membership p) u)))
       (\<lambda>entry. case entry of
          None \<Rightarrow> act_err (Fail ''peer not found in membership table'')
        | Some _ \<Rightarrow> zmq_call w)"

definition log_sent :: "uuid option \<Rightarrow> string \<Rightarrow> msg \<Rightarrow> ('b peer, unit) act" where
  "log_sent u addr m = act_modify (\<lambda>p. p\<lparr>p_sent := p_sent p @ [(u, addr, m)]\<rparr>)"

definition send_to ::
    "('b, 'x) world_scheme \<Rightarrow> locks \<Rightarrow> uuid \<Rightarrow> msg \<Rightarrow> ('b peer, unit) act" where
  "send_to w held u m =
     act_bind (act_try (connect_to_peer w held u)) (\<lambda>conn. case conn of
       Inl e \<Rightarrow> act_seq (mark_peer_failed w held u) (act_err e)
     | Inr socket \<Rightarrow>
         act_bind (act_try (zmq_call w)) (\<lambda>delimiter. case delimiter of
           Inl e \<Rightarrow> act_seq (mark_peer_failed w held u) (act_err e)
         | Inr _ \<Rightarrow>
             act_bind (act_try (zmq_call w)) (\<lambda>sent. case sent of
               Inl e \<Rightarrow> act_seq (mark_peer_failed w held u)
                          (act_seq (act_ignore (close_conn w held u socket)) (act_err e))
             | Inr _ \<Rightarrow> act_seq (log_sent (Some u) socket m)
                          (act_seq (clear_peer_failure held u) (close_conn w held u socket)))))"

definition send_to_proxy ::
    "('b, 'x) world_scheme \<Rightarrow> locks \<Rightarrow> u8 list \<Rightarrow> msg \<Rightarrow> ('b peer, unit) act" where
  "send_to_proxy w held client_id m = act_lock held L_proxy_dealer
     (act_seq (zmq_call w) (act_modify (\<lambda>p. p\<lparr>p_proxied := p_proxied p @ [(client_id, m)]\<rparr>)))"


section \<open>Gossip, joining and leaving\<close>

definition send_gossip :: "('b, 'x) world_scheme \<Rightarrow> locks \<Rightarrow> ('b peer, unit) act" where
  "send_gossip w held =
     act_bind (act_lock held L_membership (act_gets p_membership)) (\<lambda>table.
     act_bind (act_lock held L_membership (act_gets (hm_keys \<circ> p_membership))) (\<lambda>peers.
     act_bind (world_tick (w_choose w)) (\<lambda>i.
     if peers = [] then act_err (Fail ''no peers'')
     else act_bind (act_gets p_uuid) (\<lambda>own.
       if peers ! (i mod length peers) = own then act_ret ()
       else send_to w held (peers ! (i mod length peers)) (Gossip table)))))"

definition send_gossip_to :: "('b, 'x) world_scheme \<Rightarrow> locks \<Rightarrow> uuid \<Rightarrow> ('b peer, unit) act" where
  "send_gossip_to w held u =
     act_bind (act_lock held L_membership (act_gets (\<lambda>p. hm_contains (p_membership p) u))) (\<lambda>found.
     if \<not> found then act_err (Fail ''not found'')
     else act_bind (act_lock held L_membership (act_gets p_membership)) (\<lambda>table.
       send_to w held u (Gossip table)))"

text \<open>The receive loop of \<open>join\<close>: one triple of receive results (identity, empty frame, data) for
  each round until the time is up; a message that was parsed replaces the one before.\<close>

fun join_receive ::
    "('c \<Rightarrow> msg option) \<Rightarrow> ('c res \<times> 'c res \<times> 'c res) list \<Rightarrow> msg option \<Rightarrow> msg option" where
  "join_receive from_slice [] buf = buf"
| "join_receive from_slice ((identity, delimiter, data) # rounds) buf =
     (case identity of Inl _ \<Rightarrow> join_receive from_slice rounds buf | Inr _ \<Rightarrow>
      (case delimiter of Inl _ \<Rightarrow> join_receive from_slice rounds buf | Inr _ \<Rightarrow>
      (case data of Inl _ \<Rightarrow> join_receive from_slice rounds buf | Inr bytes \<Rightarrow>
      (case from_slice bytes of
         None \<Rightarrow> join_receive from_slice rounds buf
       | Some m \<Rightarrow> join_receive from_slice rounds (Some m)))))"

text \<open>\<open>join\<close> in two parts, since the cluster goes on while it waits: the greeting, and what is made of the
  messages that came.\<close>

definition join_hello :: "('b, 'x) world_scheme \<Rightarrow> string \<Rightarrow> ('b peer, unit) act" where
  "join_hello w seed_addr =
     act_seq (zmq_call w) (act_seq (zmq_call w) (act_seq (zmq_call w)
     (act_seq (zmq_call w) (act_seq (zmq_call w)
     (act_bind (act_gets (\<lambda>p. Hello (p_uuid p) (p_addr p))) (\<lambda>hello.
      log_sent None seed_addr hello))))))"

definition join_finish ::
    "('b, 'x) world_scheme \<Rightarrow> locks \<Rightarrow> ('c \<Rightarrow> msg option) \<Rightarrow> ('c res \<times> 'c res \<times> 'c res) list \<Rightarrow>
     ('b peer, unit) act" where
  "join_finish w held from_slice rounds =
     act_seq (act_lock held L_router (act_ret ()))
     (case join_receive from_slice rounds None of
        None \<Rightarrow> act_err (Fail ''No message received'')
      | Some (Gossip table) \<Rightarrow>
          act_seq (act_lock held L_membership (act_modify (\<lambda>p. p\<lparr>p_membership := table\<rparr>))) (zmq_call w)
      | Some _ \<Rightarrow> act_err (Fail ''expected GOSSIP table''))"

definition join ::
    "('b, 'x) world_scheme \<Rightarrow> locks \<Rightarrow> ('c \<Rightarrow> msg option) \<Rightarrow> ('c res \<times> 'c res \<times> 'c res) list \<Rightarrow>
     string \<Rightarrow> ('b peer, unit) act" where
  "join w held from_slice rounds seed_addr =
     act_seq (join_hello w seed_addr) (join_finish w held from_slice rounds)"

text \<open>The retry loop of \<open>leave\<close>.\<close>

function leave_send ::
    "('b, 'x) world_scheme \<Rightarrow> locks \<Rightarrow> uuid \<Rightarrow> msg \<Rightarrow> nat \<Rightarrow> ('b peer, unit) act" where
  "leave_send w held u m attempt =
     act_bind (act_try (send_to w held u m)) (\<lambda>r. case r of
       Inr _ \<Rightarrow> act_ret ()
     | Inl e \<Rightarrow> if attempt + 1 < MAX_RETRIES then leave_send w held u m (attempt + 1) else act_ret ())"
  by pat_completeness auto
termination by (relation "measure (\<lambda>(w, held, u, m, attempt). MAX_RETRIES - attempt)") auto

declare leave_send.simps [simp del]

definition leave :: "('b, 'x) world_scheme \<Rightarrow> locks \<Rightarrow> ('b peer, unit) act" where
  "leave w held = act_lock held L_hashring
     (act_bind (act_gets p_uuid) (\<lambda>own.
      act_seq (act_modify (\<lambda>p. p\<lparr>p_hashring := remove_node w (p_hashring p) own\<rparr>))
     (act_lock (L_hashring # held) L_storage
     (act_bind (storage_all_rows w (L_hashring # held)) (\<lambda>rows.
      act_for rows (\<lambda>(hash, lst).
        act_bind (act_gets (\<lambda>p. get_preference_list_hash (p_hashring p) hash)) (\<lambda>preference_list.
        case preference_list of
          [] \<Rightarrow> act_ret ()
        | u # _ \<Rightarrow> leave_send w (L_storage # L_hashring # held) u (ReplicateList [] lst True) 0)))))))"


section \<open>Background rounds\<close>

text \<open>One round of \<open>hinted_handoff\<close>.\<close>

definition hinted_handoff_round :: "('b, 'x) world_scheme \<Rightarrow> locks \<Rightarrow> ('b peer, unit) act" where
  "hinted_handoff_round w held =
     act_bind (storage_handoffs w held) (\<lambda>handoffs.
     act_for handoffs (\<lambda>(dest, lst).
       act_bind (world_tick (w_new_uuid w)) (\<lambda>u.
       act_bind (act_try (send_to w held dest (ReplicateList (uuid_to_string w u) lst True))) (\<lambda>r.
       case r of
         Inr _ \<Rightarrow> act_ignore (storage_delete w held (sl_id lst))
       | Inl _ \<Rightarrow> act_ret ()))))"

definition send_ping_to :: "('b, 'x) world_scheme \<Rightarrow> locks \<Rightarrow> uuid \<Rightarrow> ('b peer, unit) act" where
  "send_ping_to w held u = act_ignore (send_to w held u Ping)"

text \<open>One round of \<open>failure_detection\<close>: the lock of the table is held for the whole loop.\<close>

definition failure_detection :: "('b, 'x) world_scheme \<Rightarrow> locks \<Rightarrow> ('b peer, unit) act" where
  "failure_detection w held = act_lock held L_failure
     (act_bind (act_gets (hm_keys \<circ> p_failure)) (\<lambda>uuids.
      act_for uuids (send_ping_to w (L_failure # held))))"


section \<open>Looking things up on the ring\<close>

definition add_nodes :: "('b, 'x) world_scheme \<Rightarrow> locks \<Rightarrow> uuid list \<Rightarrow> ('b peer, unit) act" where
  "add_nodes w held nodes = act_lock held L_hashring
     (act_modify (\<lambda>p. p\<lparr>p_hashring := foldl (add_node w) (p_hashring p) nodes\<rparr>))"

definition is_coordinator :: "('b, 'x) world_scheme \<Rightarrow> locks \<Rightarrow> uuid \<Rightarrow> ('b peer, bool) act" where
  "is_coordinator w held list_id = act_lock held L_hashring
     (act_bind (act_gets (\<lambda>p. get_coordinator w (p_hashring p) list_id)) (\<lambda>c. case c of
        None \<Rightarrow> act_err (Panic ''must have coordinator'')
      | Some node_id \<Rightarrow> act_gets (\<lambda>p. node_id = p_uuid p)))"

definition get_replicas :: "('b, 'x) world_scheme \<Rightarrow> locks \<Rightarrow> uuid \<Rightarrow> ('b peer, uuid list) act" where
  "get_replicas w held list_id = act_lock held L_hashring
     (act_gets (\<lambda>p. drop 1 (get_preference_list w (p_hashring p) list_id)))"

definition get_addresses :: "locks \<Rightarrow> uuid list \<Rightarrow> ('b peer, string list) act" where
  "get_addresses held ids = act_lock held L_membership
     (act_gets (\<lambda>p. List.map_filter (hm_get (p_membership p)) ids))"

text \<open>The search for the next available node: \<open>None\<close> when it never ends. The three tables do not
  change while it runs.\<close>

partial_function (option) next_available_loop ::
    "hash_ring \<Rightarrow> (uuid \<Rightarrow> bool) \<Rightarrow> uuid \<Rightarrow> uuid \<Rightarrow> uuid res option" where
  "next_available_loop ring available s current =
     (case next_node ring current of
        Inl e \<Rightarrow> Some (Inl e)
      | Inr None \<Rightarrow> Some (Err (Fail ''no available nodes''))
      | Inr (Some next) \<Rightarrow>
          if available next then Some (Ok next)
          else if next = s then Some (Err (Fail ''no available nodes''))
          else next_available_loop ring available s next)"

declare next_available_loop.simps [code]

definition peer_reachable :: "'b peer \<Rightarrow> uuid \<Rightarrow> bool" where
  "peer_reachable p u \<longleftrightarrow> hm_contains (p_membership p) u \<and> is_available (p_failure p) u"

definition get_next_available_node :: "locks \<Rightarrow> uuid \<Rightarrow> ('b peer, uuid) act" where
  "get_next_available_node held start =
     act_lock held L_hashring (act_lock held L_membership (act_lock held L_failure
       (\<lambda>p. (p, case next_available_loop (p_hashring p) (peer_reachable p) start start of
                 None \<Rightarrow> Err Hang
               | Some r \<Rightarrow> r))))"

end
