(* ===== verification/Peer_Handlers.thy ===== *)
theory Peer_Handlers
  imports Peer_Network
begin

text \<open>
  What a peer does with a message (\<open>src/server.rs\<close>): the handler of peer messages, and the handlers of
  proxy messages with the quorum requests they make.

  A quorum request waits for its channel or its timeout. The functions that make one are therefore
  cut in two at the \<open>await\<close>: the part up to it returns the request's id, the part after it is run
  with the channel as the peer's other tasks have left it. The channel is ready when the request's
  id is signalled; when it is not, the part after the \<open>await\<close> runs because the time is up.
\<close>

section \<open>Quorum requests\<close>

definition in_flight_insert :: "locks \<Rightarrow> string \<Rightarrow> quorom_state \<Rightarrow> ('b peer, unit) act" where
  "in_flight_insert held request_id q = act_lock held L_in_flight
     (act_modify (\<lambda>p. p\<lparr>p_in_flight := hm_insert request_id q (p_in_flight p)\<rparr>))"

text \<open>\<open>oneshot::channel()\<close>: a new channel carries no signal.\<close>

definition new_channel :: "string \<Rightarrow> ('b peer, unit) act" where
  "new_channel request_id = act_modify (\<lambda>p. p\<lparr>p_signalled := removeAll request_id (p_signalled p)\<rparr>)"

definition new_request_id :: "('b, 'x) world_scheme \<Rightarrow> ('b peer, string) act" where
  "new_request_id w = act_bind (world_tick (w_new_uuid w)) (\<lambda>u. act_ret (uuid_to_string w u))"

text \<open>The loop of \<open>send_replicate\<close> over the replicas, with the stand-in for a replica that cannot be
  reached; without a stand-in the loop breaks.\<close>

fun replicate_loop ::
    "('b, 'x) world_scheme \<Rightarrow> locks \<Rightarrow> string \<Rightarrow> shopping_list \<Rightarrow> msg \<Rightarrow> uuid \<Rightarrow> uuid list \<Rightarrow>
     ('b peer, unit) act" where
  "replicate_loop w held request_id lst m last_replica [] = act_ret ()"
| "replicate_loop w held request_id lst m last_replica (replica # replicas) =
     act_bind (act_try (send_to w held replica m)) (\<lambda>r. case r of
       Inr _ \<Rightarrow> replicate_loop w held request_id lst m last_replica replicas
     | Inl _ \<Rightarrow>
         act_bind (act_try (get_next_available_node held last_replica)) (\<lambda>stand_in. case stand_in of
           Inl _ \<Rightarrow> act_ret ()
         | Inr node \<Rightarrow>
             act_seq (act_ignore (send_to w held node (Handoff request_id lst replica)))
               (replicate_loop w held request_id lst m last_replica replicas)))"

definition send_replicate_start ::
    "('b, 'x) world_scheme \<Rightarrow> locks \<Rightarrow> shopping_list \<Rightarrow> uuid list \<Rightarrow> bool \<Rightarrow> ('b peer, string) act" where
  "send_replicate_start w held lst replicas write =
     act_bind (new_request_id w) (\<lambda>request_id.
     act_seq (new_channel request_id)
    (act_seq (in_flight_insert held request_id
        \<lparr>q_needed = (if write then WRITE_NODES else READ_NODES), q_received = 0,
         q_responder = Some request_id, q_lists = [lst]\<rparr>)
    (if replicas = [] then act_err (Panic ''no replicas found'')
     else act_seq (replicate_loop w held request_id lst (ReplicateList request_id lst write)
              (last replicas) replicas)
            (act_ret request_id))))"

text \<open>What the \<open>await\<close> on the channel gives: a signal, a channel whose sender is gone, or a timeout.\<close>

definition await_result :: "string \<Rightarrow> ('b peer, unit) act" where
  "await_result request_id =
     act_bind (act_gets (\<lambda>p. request_id \<in> set (p_signalled p))) (\<lambda>ready.
     act_bind (act_gets (\<lambda>p. hm_get (p_in_flight p) request_id)) (\<lambda>q.
     if ready then act_ret ()
     else if (case q of None \<Rightarrow> True | Some st \<Rightarrow> q_responder st = None)
       then act_err (Fail ''quorum aborted'')
     else act_err (Fail ''quorum timed out'')))"

definition in_flight_remove :: "locks \<Rightarrow> string \<Rightarrow> ('b peer, quorom_state option) act" where
  "in_flight_remove held request_id = act_lock held L_in_flight
     (act_bind (act_gets (\<lambda>p. hm_get (p_in_flight p) request_id)) (\<lambda>q.
      act_seq (act_modify (\<lambda>p. p\<lparr>p_in_flight := hm_remove request_id (p_in_flight p)\<rparr>)) (act_ret q)))"

definition send_replicate_finish :: "locks \<Rightarrow> string \<Rightarrow> ('b peer, unit) act" where
  "send_replicate_finish held request_id =
     act_bind (act_try (await_result request_id)) (\<lambda>result.
     act_seq (in_flight_remove held request_id) (act_of_res result))"

definition send_write_replicate_start ::
    "('b, 'x) world_scheme \<Rightarrow> locks \<Rightarrow> shopping_list \<Rightarrow> uuid list \<Rightarrow> ('b peer, string) act" where
  "send_write_replicate_start w held lst replicas = send_replicate_start w held lst replicas True"

definition send_read_replicate_start ::
    "('b, 'x) world_scheme \<Rightarrow> locks \<Rightarrow> shopping_list \<Rightarrow> uuid list \<Rightarrow> ('b peer, string) act" where
  "send_read_replicate_start w held lst replicas =
     act_bind (new_request_id w) (\<lambda>request_id.
     act_seq (new_channel request_id)
    (act_seq (in_flight_insert held request_id
        \<lparr>q_needed = READ_NODES, q_received = 0, q_responder = Some request_id, q_lists = [lst]\<rparr>)
    (act_seq (act_for replicas (\<lambda>replica.
        act_ignore (send_to w held replica (ReplicateList request_id lst False))))
     (act_ret request_id))))"

definition send_read_replicate_finish :: "locks \<Rightarrow> string \<Rightarrow> ('b peer, shopping_list) act" where
  "send_read_replicate_finish held request_id =
     act_bind (act_try (await_result request_id)) (\<lambda>result.
     act_bind (in_flight_remove held request_id) (\<lambda>q. case result of
       Inl e \<Rightarrow> act_err e
     | Inr _ \<Rightarrow> (case q of
           Some st \<Rightarrow> act_of_res (merge_lists st)
         | None \<Rightarrow> act_err (Fail ''quorum state missing''))))"


section \<open>Requests of clients\<close>

text \<open>What the proxy task waits for.\<close>

datatype proxy_wait =
    Put_Wait "u8 list" shopping_list string
  | Get_Wait "u8 list" shopping_list shopping_list string

definition put_start ::
    "('b, 'x) world_scheme \<Rightarrow> locks \<Rightarrow> u8 list \<Rightarrow> shopping_list \<Rightarrow> ('b peer, proxy_wait) act" where
  "put_start w held client_id lst =
     act_bind (get_replicas w held (sl_id lst)) (\<lambda>replicas.
     if replicas = [] then act_err (Fail ''no replicas found in hashring'')
     else act_bind (send_write_replicate_start w held lst replicas) (\<lambda>request_id.
       act_ret (Put_Wait client_id lst request_id)))"

definition put_finish ::
    "('b, 'x) world_scheme \<Rightarrow> locks \<Rightarrow> u8 list \<Rightarrow> shopping_list \<Rightarrow> string \<Rightarrow> ('b peer, unit) act" where
  "put_finish w held client_id lst request_id =
     act_bind (act_try (send_replicate_finish held request_id)) (\<lambda>r. case r of
       Inr _ \<Rightarrow> act_seq (storage_write w held lst)
                  (act_ignore (send_to_proxy w (L_storage # held) client_id (AckList [] lst)))
     | Inl _ \<Rightarrow> act_ignore (send_to_proxy w held client_id (Nack [])))"

text \<open>\<open>handle_incoming_proxy\<close> up to its first \<open>await\<close> on a quorum: the wait it leaves, if any. A list
  that is not stored is put, and the result of the put is dropped.\<close>

definition handle_incoming_proxy ::
    "('b, 'x) world_scheme \<Rightarrow> locks \<Rightarrow> u8 list \<Rightarrow> msg \<Rightarrow> ('b peer, proxy_wait option) act" where
  "handle_incoming_proxy w held client_id m =
     (case m of
        GetList lst \<Rightarrow>
          act_bind (storage_get w held (sl_id lst)) (\<lambda>stored. case stored of
            None \<Rightarrow>
              act_bind (act_try (put_start w held client_id lst)) (\<lambda>r.
              act_ret (case r of Inl _ \<Rightarrow> None | Inr wait \<Rightarrow> Some wait))
          | Some l \<Rightarrow>
              act_bind (get_replicas w held (sl_id lst)) (\<lambda>replicas.
              if replicas = [] then act_err (Fail ''no replicas found in hashring'')
              else act_bind (send_read_replicate_start w held lst replicas) (\<lambda>request_id.
                act_ret (Some (Get_Wait client_id lst l request_id)))))
      | PutList lst \<Rightarrow>
          act_bind (act_try (put_start w held client_id lst)) (\<lambda>r.
          act_ret (case r of Inl _ \<Rightarrow> None | Inr wait \<Rightarrow> Some wait))
      | _ \<Rightarrow> act_ret None)"

definition get_finish ::
    "('b, 'x) world_scheme \<Rightarrow> locks \<Rightarrow> u8 list \<Rightarrow> shopping_list \<Rightarrow> string \<Rightarrow> ('b peer, unit) act" where
  "get_finish w held client_id stored request_id =
     act_bind (act_try (send_read_replicate_finish held request_id)) (\<lambda>r. case r of
       Inr s \<Rightarrow>
         (let l = merge_list_into stored s
          in act_seq (storage_write w held l)
               (act_ignore (send_to_proxy w held client_id (AckList [] l))))
     | Inl _ \<Rightarrow> act_ignore (send_to_proxy w held client_id (Nack [])))"

definition proxy_finish :: "('b, 'x) world_scheme \<Rightarrow> locks \<Rightarrow> proxy_wait \<Rightarrow> ('b peer, unit) act" where
  "proxy_finish w held wait =
     (case wait of
        Put_Wait client_id lst request_id \<Rightarrow> put_finish w held client_id lst request_id
      | Get_Wait client_id lst stored request_id \<Rightarrow> get_finish w held client_id stored request_id)"

section \<open>Messages of peers\<close>

text \<open>The acknowledgement cases: count it, and signal the request's channel when that makes the quorum
  and the sender has not been used.\<close>

definition signal_quorom :: "string \<Rightarrow> quorom_state \<Rightarrow> ('b peer, unit) act" where
  "signal_quorom request_id q =
     (if is_quorom_reached q
      then (case q_responder q of
              Some tx \<Rightarrow> act_modify (\<lambda>p. p\<lparr>
                p_in_flight := hm_insert request_id (q\<lparr>q_responder := None\<rparr>) (p_in_flight p),
                p_signalled := tx # p_signalled p\<rparr>)
            | None \<Rightarrow> act_modify (\<lambda>p. p\<lparr>p_in_flight := hm_insert request_id q (p_in_flight p)\<rparr>))
      else act_modify (\<lambda>p. p\<lparr>p_in_flight := hm_insert request_id q (p_in_flight p)\<rparr>))"

definition handle_ack ::
    "locks \<Rightarrow> string \<Rightarrow> (quorom_state \<Rightarrow> quorom_state) \<Rightarrow> ('b peer, unit) act" where
  "handle_ack held request_id f = act_lock held L_in_flight
     (act_bind (act_gets (\<lambda>p. hm_get (p_in_flight p) request_id)) (\<lambda>quorom_state. case quorom_state of
        Some q \<Rightarrow> signal_quorom request_id (f q)
      | None \<Rightarrow> act_ret ()))"

definition handle_replicate ::
    "('b, 'x) world_scheme \<Rightarrow> locks \<Rightarrow> uuid \<Rightarrow> string \<Rightarrow> shopping_list \<Rightarrow> bool \<Rightarrow> ('b peer, unit) act" where
  "handle_replicate w held identity i lst write =
     (if write
      then act_bind (act_try (storage_write w held lst)) (\<lambda>storing. case storing of
             Inr _ \<Rightarrow> act_ignore (send_to w held identity (Ack i))
           | Inl _ \<Rightarrow> act_ret ())
      else act_bind (act_try (storage_get w held (sl_id lst))) (\<lambda>stored. case stored of
             Inr (Some l) \<Rightarrow> act_ignore (send_to w held identity (AckList i l))
           | _ \<Rightarrow> act_ret ()))"

definition handle_merge ::
    "('b, 'x) world_scheme \<Rightarrow> locks \<Rightarrow> shopping_list \<Rightarrow> ('b peer, unit) act" where
  "handle_merge w held lst =
     act_bind (storage_get w held (sl_id lst)) (\<lambda>stored. case stored of
       Some existing \<Rightarrow> storage_write w held (merge_list_into existing lst)
     | None \<Rightarrow> storage_write w held lst)"

text \<open>The transfer of old lists to a new predecessor: the membership table is locked by the caller.\<close>

definition send_old_data ::
    "('b, 'x) world_scheme \<Rightarrow> locks \<Rightarrow> uuid \<Rightarrow> ('b peer, unit) act" where
  "send_old_data w held u =
     act_bind (act_lock held L_hashring (act_gets (\<lambda>p. prev_node_hash (p_hashring p) (p_uuid p))))
       (\<lambda>prev_hash. case prev_hash of
          None \<Rightarrow> act_ret ()
        | Some h \<Rightarrow>
            act_bind (act_gets p_uuid) (\<lambda>own.
            act_bind (storage_old_data w held own h) (\<lambda>old_lists.
            act_for old_lists (\<lambda>l. act_ignore (send_to w held u (ReplicateList [] l True))))))"

definition handle_gossip ::
    "('b, 'x) world_scheme \<Rightarrow> locks \<Rightarrow> membership_table \<Rightarrow> ('b peer, unit) act" where
  "handle_gossip w held table =
     act_seq (add_nodes w held (hm_keys table))
    (act_lock held L_membership
    (act_bind (act_gets (\<lambda>p. filter (\<lambda>(u, _). \<not> hm_contains (p_membership p) u) table)) (\<lambda>new_entries.
     act_bind (act_lock (L_membership # held) L_hashring
        (act_gets (\<lambda>p. get_predecessors (p_hashring p) (p_uuid p)))) (\<lambda>predecessors.
     act_for new_entries (\<lambda>(u, addr).
       act_seq (act_modify (\<lambda>p. p\<lparr>p_membership := membership_insert (p_membership p) u addr\<rparr>))
         (if u \<in> set predecessors then send_old_data w (L_membership # held) u else act_ret ()))))))"

definition handle_hello ::
    "('b, 'x) world_scheme \<Rightarrow> locks \<Rightarrow> uuid \<Rightarrow> string \<Rightarrow> ('b peer, unit) act" where
  "handle_hello w held u addr =
     act_seq (act_lock held L_membership
        (act_modify (\<lambda>p. p\<lparr>p_membership := membership_insert (p_membership p) u addr\<rparr>)))
    (act_seq (act_ignore (send_gossip_to w held u))
      (act_ignore (send_gossip w held)))"

definition handle_handoff ::
    "('b, 'x) world_scheme \<Rightarrow> locks \<Rightarrow> uuid \<Rightarrow> string \<Rightarrow> shopping_list \<Rightarrow> uuid \<Rightarrow> ('b peer, unit) act" where
  "handle_handoff w held identity request_id lst original_node =
     act_seq (act_ignore (storage_write_handoff w held lst original_node))
       (act_ignore (send_to w held identity (Ack request_id)))"

definition handle_incoming ::
    "('b, 'x) world_scheme \<Rightarrow> locks \<Rightarrow> uuid \<Rightarrow> msg \<Rightarrow> ('b peer, unit) act" where
  "handle_incoming w held identity m =
     (case m of
        Leave \<Rightarrow> act_ignore (leave w held)
      | Gossip table \<Rightarrow> handle_gossip w held table
      | Hello u addr \<Rightarrow> handle_hello w held u addr
      | ReplicateList i lst write \<Rightarrow> handle_replicate w held identity i lst write
      | Ack request_id \<Rightarrow> handle_ack held request_id increment_received
      | AckList request_id lst \<Rightarrow> handle_ack held request_id (\<lambda>q. add_list q lst)
      | Handoff request_id lst original_node \<Rightarrow> handle_handoff w held identity request_id lst original_node
      | MergeList lst \<Rightarrow> handle_merge w held lst
      | ListResponse _ \<Rightarrow> act_ret ()
      | _ \<Rightarrow> act_ret ())"


section \<open>Receiving\<close>

text \<open>What the three frames of a received message give: \<open>from_slice\<close> decodes the data, \<open>as_str\<close> the
  identity. A message whose frames or contents are wrong is skipped.\<close>

definition listen ::
    "('b, 'x) world_scheme \<Rightarrow> ('c \<Rightarrow> msg option) \<Rightarrow> ('c \<Rightarrow> string option) \<Rightarrow>
     'c res \<times> 'c res \<times> 'c res \<Rightarrow> ('b peer, unit) act" where
  "listen w from_slice as_str frames =
     (case frames of
        (Inr identity_msg, Inr _, Inr data_msg) \<Rightarrow>
          (case from_slice data_msg of
             None \<Rightarrow> act_ret ()
           | Some m \<Rightarrow>
               (case as_str identity_msg of
                  None \<Rightarrow> act_ret ()
                | Some sender_uuid_str \<Rightarrow>
                    (case uuid_parse w sender_uuid_str of
                       None \<Rightarrow> act_ret ()
                     | Some sender_uuid \<Rightarrow> act_ignore (handle_incoming w [] sender_uuid m))))
      | _ \<Rightarrow> act_ret ())"

definition listen_proxy ::
    "('b, 'x) world_scheme \<Rightarrow> (u8 list \<Rightarrow> msg option) \<Rightarrow>
     u8 list res \<times> u8 list res \<times> u8 list res \<Rightarrow> ('b peer, proxy_wait option) act" where
  "listen_proxy w from_slice frames =
     (case frames of
        (Inr client_id_msg, Inr _, Inr data_msg) \<Rightarrow>
          (case from_slice data_msg of
             None \<Rightarrow> act_ret None
           | Some m \<Rightarrow>
               act_bind (act_try (handle_incoming_proxy w [] client_id_msg m)) (\<lambda>r.
               act_ret (case r of Inl _ \<Rightarrow> None | Inr wait \<Rightarrow> wait)))
      | _ \<Rightarrow> act_ret None)"

end
