(* ===== verification/Peer_Frame.thy ===== *)
theory Peer_Frame
  imports Peer_Handlers
begin

text \<open>
  What the calls of a peer may write. The locale \<open>network_quiet\<close> is the interface of a predicate
  that sending to peers does not disturb: every such call keeps it and, when the calling thread holds none
  of the locks involved, comes back. \<open>network_stable\<close> adds sending to the proxy. \<open>tables_stable\<close> adds predicates that say nothing about the
  storage, the membership and the ring, \<open>store_stable\<close> those that writing good lists keeps. The
  invariants of the later theories interpret them.
\<close>

locale network_quiet =
  fixes P :: "'b peer \<Rightarrow> bool"
  assumes tick_stable: "P p \<Longrightarrow> P (p\<lparr>p_tick := t\<rparr>)"
    and mark_stable: "P p \<Longrightarrow> P (p\<lparr>p_failure := mark_failure now (p_failure p) u\<rparr>)"
    and clear_stable: "P p \<Longrightarrow> P (p\<lparr>p_failure := clear_failure (p_failure p) u\<rparr>)"
    and sent_stable: "P p \<Longrightarrow> P (p\<lparr>p_sent := p_sent p @ [e]\<rparr>)"
begin

lemma safe_tick [safe_intros]: "safe P (world_tick f)"
  by (simp add: safe_def world_tick_def tick_stable)

lemma safe_zmq [safe_intros]: "safe P (zmq_call w)"
  unfolding zmq_call_def by (intro safe_intros)

lemma safe_mark [safe_intros]: "L_failure \<notin> set held \<Longrightarrow> safe P (mark_peer_failed w held u)"
  unfolding mark_peer_failed_def by (intro safe_intros) (auto simp: mark_stable)

lemma safe_clear [safe_intros]: "L_failure \<notin> set held \<Longrightarrow> safe P (clear_peer_failure held u)"
  unfolding clear_peer_failure_def by (intro safe_intros) (auto simp: clear_stable)

lemma safe_connect [safe_intros]: "L_membership \<notin> set held \<Longrightarrow> safe P (connect_to_peer w held u)"
  unfolding connect_to_peer_def by (intro safe_intros) auto

lemma safe_close [safe_intros]: "L_membership \<notin> set held \<Longrightarrow> safe P (close_conn w held u x)"
  unfolding close_conn_def by (intro safe_intros) auto

lemma safe_log_sent [safe_intros]: "safe P (log_sent u addr m)"
  unfolding log_sent_def by (intro safe_intros) (auto simp: sent_stable)

lemma safe_send_to [safe_intros]:
  assumes "L_membership \<notin> set held" "L_failure \<notin> set held"
  shows "safe P (send_to w held u m)"
  unfolding send_to_def
  by (rule safe_try_case safe_intros assms)+

lemma keeps_mark [keeps_intros]: "keeps P (mark_peer_failed w held u)"
  unfolding mark_peer_failed_def
  by (intro keeps_intros) (auto simp: mark_stable intro: safe_keeps safe_tick)

lemma keeps_clear [keeps_intros]: "keeps P (clear_peer_failure held u)"
  unfolding clear_peer_failure_def by (intro keeps_intros) (auto simp: clear_stable)

lemmas keeps_plain [keeps_intros] =
  safe_keeps [OF safe_tick] safe_keeps [OF safe_zmq] safe_keeps [OF safe_log_sent]

lemma keeps_connect [keeps_intros]: "keeps P (connect_to_peer w held u)"
  unfolding connect_to_peer_def by (intro keeps_intros)

lemma keeps_close [keeps_intros]: "keeps P (close_conn w held u x)"
  unfolding close_conn_def by (intro keeps_intros)

lemma keeps_send_to [keeps_intros]: "keeps P (send_to w held u m)"
  unfolding send_to_def by (intro keeps_intros)

lemma keeps_send_gossip [keeps_intros]: "keeps P (send_gossip w held)"
  unfolding send_gossip_def by (intro keeps_intros)

lemma keeps_send_gossip_to [keeps_intros]: "keeps P (send_gossip_to w held u)"
  unfolding send_gossip_to_def by (intro keeps_intros)

lemma keeps_ping [keeps_intros]: "keeps P (send_ping_to w held u)"
  unfolding send_ping_to_def by (intro keeps_intros)

lemma keeps_detection [keeps_intros]: "keeps P (failure_detection w held)"
  unfolding failure_detection_def by (intro keeps_intros)

lemma safe_send_gossip [safe_intros]:
  assumes "L_membership \<notin> set held" "L_failure \<notin> set held"
  shows "safe P (send_gossip w held)"
  unfolding send_gossip_def by (intro safe_intros assms)

lemma safe_send_gossip_to [safe_intros]:
  assumes "L_membership \<notin> set held" "L_failure \<notin> set held"
  shows "safe P (send_gossip_to w held u)"
  unfolding send_gossip_to_def by (intro safe_intros assms)

lemma keeps_storage_reads [keeps_intros]:
  "keeps P (storage_get w held i)" "keeps P (storage_handoffs w held)"
  "keeps P (storage_old_data w held n h)" "keeps P (storage_all_rows w held)"
  unfolding storage_get_def storage_handoffs_def storage_old_data_def storage_all_rows_def
  by (intro keeps_intros)+

lemma keeps_send_old_data [keeps_intros]: "keeps P (send_old_data w held u)"
  unfolding send_old_data_def by (intro keeps_intros)

lemma keeps_leave_send [keeps_intros]: "keeps P (leave_send w held u m n)"
proof (induction w held u m n rule: leave_send.induct)
  case (1 w held u m attempt)
  then show ?case by (subst leave_send.simps) (intro keeps_intros, auto)
qed

lemma safe_leave_send [safe_intros]:
  "L_membership \<notin> set held \<Longrightarrow> L_failure \<notin> set held \<Longrightarrow> safe P (leave_send w held u m n)"
proof (induction w held u m n rule: leave_send.induct)
  case (1 w held u m attempt)
  show ?case
    by (subst leave_send.simps) (rule safe_try_case safe_intros 1 | assumption)+
qed

end

locale network_stable = network_quiet P for P :: "'b peer \<Rightarrow> bool" +
  assumes proxied_stable: "P p \<Longrightarrow> P (p\<lparr>p_proxied := p_proxied p @ [x]\<rparr>)"
begin

lemma safe_send_to_proxy [safe_intros]:
  "L_proxy_dealer \<notin> set held \<Longrightarrow> safe P (send_to_proxy w held c m)"
  unfolding send_to_proxy_def by (intro safe_intros) (auto simp: proxied_stable)

lemma keeps_send_to_proxy [keeps_intros]: "keeps P (send_to_proxy w held c m)"
  unfolding send_to_proxy_def by (intro keeps_intros) (auto simp: proxied_stable)

end

locale tables_quiet = network_quiet P for P :: "'b peer \<Rightarrow> bool" +
  assumes storage_stable: "P p \<Longrightarrow> P (p\<lparr>p_storage := st\<rparr>)"
    and membership_stable: "P p \<Longrightarrow> P (p\<lparr>p_membership := mt\<rparr>)"
    and ring_stable: "P p \<Longrightarrow> P (p\<lparr>p_hashring := hr\<rparr>)"
begin

lemma keeps_storage [keeps_intros]:
  "keeps P (storage_write w held l)" "keeps P (storage_write_handoff w held l u)"
  "keeps P (storage_delete w held i)"
  unfolding storage_write_def storage_write_handoff_def storage_delete_def
  by (rule keeps_intros | simp add: storage_stable)+

lemma keeps_add_nodes [keeps_intros]: "keeps P (add_nodes w held ns)"
  unfolding add_nodes_def by (intro keeps_intros) (simp add: ring_stable)

lemma keeps_leave [keeps_intros]: "keeps P (leave w held)"
  unfolding leave_def by (intro keeps_intros) (simp add: ring_stable)

lemma keeps_hinted_handoff [keeps_intros]: "keeps P (hinted_handoff_round w held)"
  unfolding hinted_handoff_round_def by (intro keeps_intros)

lemma keeps_gossip [keeps_intros]: "keeps P (handle_gossip w held t)"
  unfolding handle_gossip_def by (intro keeps_intros) (simp add: membership_stable)

lemma keeps_hello [keeps_intros]: "keeps P (handle_hello w held u addr)"
  unfolding handle_hello_def by (intro keeps_intros) (simp add: membership_stable)

lemma keeps_replicate [keeps_intros]: "keeps P (handle_replicate w held u i l write)"
  unfolding handle_replicate_def by (intro keeps_intros)

lemma keeps_merge [keeps_intros]: "keeps P (handle_merge w held l)"
  unfolding handle_merge_def by (intro keeps_intros)

lemma keeps_handoff [keeps_intros]: "keeps P (handle_handoff w held u i l n)"
  unfolding handle_handoff_def by (intro keeps_intros)

lemma keeps_next [keeps_intros]: "keeps P (get_next_available_node held u)"
  unfolding get_next_available_node_def by (intro keeps_intros) (simp add: keeps_def)

lemma keeps_replicas [keeps_intros]: "keeps P (get_replicas w held i)"
  unfolding get_replicas_def by (intro keeps_intros)

lemma keeps_request_id [keeps_intros]: "keeps P (new_request_id w)"
  unfolding new_request_id_def by (intro keeps_intros)

lemma keeps_replicate_loop [keeps_intros]: "keeps P (replicate_loop w held i l m last_u us)"
  by (induction us) (simp_all only: replicate_loop.simps, (rule keeps_intros | assumption)+)

lemma keeps_join: "keeps P (join w held from_slice rounds seed_addr)"
  unfolding join_def join_hello_def join_finish_def
  by (intro keeps_intros) (auto intro!: keeps_intros simp: membership_stable split: msg.split)

end

locale tables_stable = tables_quiet P + network_stable P for P :: "'b peer \<Rightarrow> bool"

text \<open>Predicates that do not speak of quorum requests either: every step of a peer keeps them, but for the answer to
  a client, which also needs them to say nothing about what the proxy is sent.\<close>

locale step_quiet = tables_quiet P for P :: "'b peer \<Rightarrow> bool" +
  assumes in_flight_stable: "P p \<Longrightarrow> P (p\<lparr>p_in_flight := f\<rparr>)"
    and signalled_stable: "P p \<Longrightarrow> P (p\<lparr>p_signalled := g\<rparr>)"
begin

lemma keeps_in_flight [keeps_intros]:
  "keeps P (new_channel i)" "keeps P (in_flight_insert held i q)"
  "keeps P (in_flight_remove held i)" "keeps P (await_result i)"
  unfolding new_channel_def in_flight_insert_def in_flight_remove_def await_result_def
  by (rule keeps_intros | simp add: in_flight_stable signalled_stable)+

lemma keeps_signal [keeps_intros]: "keeps P (signal_quorom i q)"
  unfolding signal_quorom_def
  by (rule keeps_intros | simp add: in_flight_stable signalled_stable [OF in_flight_stable])+

lemma keeps_ack [keeps_intros]: "keeps P (handle_ack held i f)"
  unfolding handle_ack_def by (intro keeps_intros)

lemma keeps_starts [keeps_intros]:
  "keeps P (send_replicate_start w held l rs write)" "keeps P (send_read_replicate_start w held l rs)"
  unfolding send_replicate_start_def send_read_replicate_start_def by (intro keeps_intros)+

lemma keeps_incoming: "keeps P (handle_incoming w held u m)"
  unfolding handle_incoming_def by (cases m) (simp_all only: msg.case, (intro keeps_intros)+)

lemma keeps_request: "keeps P (handle_incoming_proxy w held c m)"
  unfolding handle_incoming_proxy_def put_start_def send_write_replicate_start_def
  by (cases m) (simp_all only: msg.case, (intro keeps_intros)+)

end

locale step_stable = step_quiet P + tables_stable P for P :: "'b peer \<Rightarrow> bool"
begin

lemma keeps_finish: "keeps P (proxy_finish w held wait)"
  unfolding proxy_finish_def put_finish_def get_finish_def send_replicate_finish_def
    send_read_replicate_finish_def Let_def
  by (cases wait) (simp_all only: proxy_wait.case, (intro keeps_intros)+)

end

text \<open>Predicates about the storage: \<open>good\<close> lists may be written, what is read is good, and reading
  the whole table does not panic.\<close>

locale store_stable = network_stable P for P :: "'b peer \<Rightarrow> bool" +
  fixes w :: "('b, 'x) world_scheme" and good :: "shopping_list \<Rightarrow> bool"
  assumes write_stable: "\<lbrakk>P p; good l; ss_write_shopping_list w r q (p_storage p) l = Ok st\<rbrakk> \<Longrightarrow>
      P (p\<lparr>p_storage := st\<rparr>)"
    and handoff_stable: "\<lbrakk>P p; good l; ss_write_shopping_list_handoff w r q (p_storage p) l u = Ok st\<rbrakk> \<Longrightarrow>
      P (p\<lparr>p_storage := st\<rparr>)"
    and delete_stable: "\<lbrakk>P p; ss_delete_shopping_list w q (p_storage p) i = Ok st\<rbrakk> \<Longrightarrow>
      P (p\<lparr>p_storage := st\<rparr>)"
    and get_good: "\<lbrakk>P p; ss_get_shopping_list w q (p_storage p) i = Ok (Some l)\<rbrakk> \<Longrightarrow> good l"
    and rows_safe: "P p \<Longrightarrow> comes_back (ss_get_all_rows w q (p_storage p))"
    and good_merge: "\<lbrakk>good a; good b\<rbrakk> \<Longrightarrow> good (merge_list_into a b)"
    and member_stable: "P p \<Longrightarrow> P (p\<lparr>p_membership := membership_insert (p_membership p) u addr\<rparr>)"
    and leave_stable: "P p \<Longrightarrow> P (p\<lparr>p_hashring := remove_node w (p_hashring p) u\<rparr>)"
    and ack_stable: "P p \<Longrightarrow> P (p\<lparr>p_in_flight := f\<rparr>)" "P p \<Longrightarrow> P (p\<lparr>p_signalled := g\<rparr>)"
begin

lemma ss_write_comes_back: "comes_back (ss_write_shopping_list w r q s l)"
  by (simp add: ss_write_shopping_list_def json_error_def sqlite_error_def Let_def split: option.split)

lemma ss_write_handoff_comes_back: "comes_back (ss_write_shopping_list_handoff w r q s l u)"
  by (simp add: ss_write_shopping_list_handoff_def json_error_def sqlite_error_def Let_def split: option.split)

lemma ss_delete_comes_back: "comes_back (ss_delete_shopping_list w q s i)"
  by (simp add: ss_delete_shopping_list_def sqlite_error_def)

lemma ss_get_comes_back: "comes_back (ss_get_shopping_list w q s i)"
  by (simp add: ss_get_shopping_list_def sqlite_error_def json_error_def split: list.split option.split)

lemma safe_write [safe_intros]:
  assumes "L_storage \<notin> set held" "good l"
  shows "safe P (storage_write w held l)"
  unfolding safe_def
proof (intro allI impI)
  fix p assume p: "P p"
  let ?r = "ss_write_shopping_list w (w_sql_ok w (p_tick p)) (w_sql_ok w (p_tick p + 1)) (p_storage p) l"
  show "P (fst (storage_write w held l p)) \<and> comes_back (snd (storage_write w held l p))"
    using ss_write_comes_back [of "w_sql_ok w (p_tick p)" "w_sql_ok w (p_tick p + 1)" "p_storage p" l]
      write_stable [OF tick_stable [OF p] assms(2)] tick_stable [OF p]
    by (cases ?r) (auto simp: storage_runs [OF assms(1)] comes_back_cases)
qed

lemma safe_write_handoff [safe_intros]:
  assumes "L_storage \<notin> set held" "good l"
  shows "safe P (storage_write_handoff w held l u)"
  unfolding safe_def
proof (intro allI impI)
  fix p assume p: "P p"
  let ?r = "ss_write_shopping_list_handoff w (w_sql_ok w (p_tick p)) (w_sql_ok w (p_tick p + 1)) (p_storage p) l u"
  show "P (fst (storage_write_handoff w held l u p)) \<and> comes_back (snd (storage_write_handoff w held l u p))"
    using ss_write_handoff_comes_back [of "w_sql_ok w (p_tick p)" "w_sql_ok w (p_tick p + 1)" "p_storage p" l u]
      handoff_stable [OF tick_stable [OF p] assms(2)] tick_stable [OF p]
    by (cases ?r) (auto simp: storage_runs [OF assms(1)] comes_back_cases)
qed

lemma safe_rows: "safe P (storage_all_rows w held)"
  using rows_safe by (simp add: safe_def storage_all_rows_run tick_stable)

lemma safe_get_then:
  assumes "L_storage \<notin> set held" "safe P (f None)" "\<And>l. good l \<Longrightarrow> safe P (f (Some l))"
  shows "safe P (act_bind (storage_get w held i) f)"
  unfolding safe_def
proof (intro allI impI)
  fix p assume p: "P p"
  let ?r = "ss_get_shopping_list w (w_sql_ok w (p_tick p)) (p_storage p) i"
  have "safe P (f x)" if "?r = Inr x" for x
    using that assms(2,3) get_good [OF p] by (cases x) auto
  then show "P (fst (act_bind (storage_get w held i) f p)) \<and>
      comes_back (snd (act_bind (storage_get w held i) f p))"
    using ss_get_comes_back [of "w_sql_ok w (p_tick p)" "p_storage p" i] tick_stable [OF p]
    by (cases ?r) (auto simp: act_bind_apply storage_runs [OF assms(1)] comes_back_cases safe_def)
qed

lemma safe_get: "L_storage \<notin> set held \<Longrightarrow> safe P (storage_get w held i)"
  using ss_get_comes_back by (auto simp: safe_def storage_runs tick_stable)

lemma safe_leave: "safe P (leave w [])"
  unfolding leave_def
  by (rule safe_intros safe_rows | simp add: leave_stable)+

lemma safe_hello: "safe P (handle_hello w [] u addr)"
  unfolding handle_hello_def
  by (rule safe_intros | simp add: member_stable)+

lemma safe_replicate: "good l \<Longrightarrow> safe P (handle_replicate w [] u i l write)"
  unfolding handle_replicate_def
  by (rule safe_try_case safe_intros safe_get | simp)+

lemma safe_merge: "good l \<Longrightarrow> safe P (handle_merge w [] l)"
  unfolding handle_merge_def
  by (rule safe_get_then) (auto intro!: safe_intros good_merge)

lemma safe_handoff: "good l \<Longrightarrow> safe P (handle_handoff w [] u i l n)"
  unfolding handle_handoff_def by (rule safe_intros | simp)+

lemma safe_ack: "safe P (handle_ack [] i f)"
  unfolding handle_ack_def signal_quorom_def
  by (rule safe_intros | simp add: ack_stable ack_stable(2) [OF ack_stable(1)])+

end

end
