(* ===== verification/Quorum.thy ===== *)
theory Quorum
  imports Peer_Frame
begin

text \<open>
  The steps of a running peer and what holds in every state they reach: a client is told that its
  list is stored only after enough acknowledgements of its request have arrived.
\<close>

section \<open>Steps\<close>

text \<open>A peer with its proxy task and the log of the messages it has handled. The proxy task handles
  one request at a time (\<open>listen_proxy\<close> awaits it); messages of other peers are handled, and the
  background rounds run, at any moment, also while the proxy task waits.\<close>

record 'b peer_system =
  sys_peer :: "'b peer"
  sys_wait :: "proxy_wait option"
  sys_log :: "(uuid \<times> msg) list"

inductive peer_step :: "('b, 'x) world_scheme \<Rightarrow> 'b peer_system \<Rightarrow> 'b peer_system \<Rightarrow> bool"
  for w :: "('b, 'x) world_scheme" where
  step_message:
    "handle_incoming w [] identity m p = (p', r) \<Longrightarrow>
     peer_step w \<lparr>sys_peer = p, sys_wait = wait, sys_log = log\<rparr>
       \<lparr>sys_peer = p', sys_wait = wait, sys_log = log @ [(identity, m)]\<rparr>"
| step_request:
    "handle_incoming_proxy w [] client_id m p = (p', Inr wait) \<Longrightarrow>
     peer_step w \<lparr>sys_peer = p, sys_wait = None, sys_log = log\<rparr>
       \<lparr>sys_peer = p', sys_wait = wait, sys_log = log\<rparr>"
| step_request_failed:
    "handle_incoming_proxy w [] client_id m p = (p', Inl e) \<Longrightarrow>
     peer_step w \<lparr>sys_peer = p, sys_wait = None, sys_log = log\<rparr>
       \<lparr>sys_peer = p', sys_wait = None, sys_log = log\<rparr>"
| step_finish:
    "proxy_finish w [] wait p = (p', r) \<Longrightarrow>
     peer_step w \<lparr>sys_peer = p, sys_wait = Some wait, sys_log = log\<rparr>
       \<lparr>sys_peer = p', sys_wait = None, sys_log = log\<rparr>"
| step_gossip:
    "send_gossip w [] p = (p', r) \<Longrightarrow>
     peer_step w \<lparr>sys_peer = p, sys_wait = wait, sys_log = log\<rparr>
       \<lparr>sys_peer = p', sys_wait = wait, sys_log = log\<rparr>"
| step_handoff:
    "hinted_handoff_round w [] p = (p', r) \<Longrightarrow>
     peer_step w \<lparr>sys_peer = p, sys_wait = wait, sys_log = log\<rparr>
       \<lparr>sys_peer = p', sys_wait = wait, sys_log = log\<rparr>"
| step_detection:
    "failure_detection w [] p = (p', r) \<Longrightarrow>
     peer_step w \<lparr>sys_peer = p, sys_wait = wait, sys_log = log\<rparr>
       \<lparr>sys_peer = p', sys_wait = wait, sys_log = log\<rparr>"

| step_join:
    "join w [] from_slice (rounds :: (u8 list res \<times> u8 list res \<times> u8 list res) list) seed_addr p = (p', r) \<Longrightarrow>
     peer_step w \<lparr>sys_peer = p, sys_wait = wait, sys_log = log\<rparr>
       \<lparr>sys_peer = p', sys_wait = wait, sys_log = log\<rparr>"

inductive_cases peer_stepE: "peer_step w s s'"

inductive reachable :: "('b, 'x) world_scheme \<Rightarrow> 'b peer \<Rightarrow> 'b peer_system \<Rightarrow> bool"
  for w :: "('b, 'x) world_scheme" and p0 :: "'b peer" where
  reachable_start: "reachable w p0 \<lparr>sys_peer = p0, sys_wait = None, sys_log = []\<rparr>"
| reachable_step: "reachable w p0 s \<Longrightarrow> peer_step w s s' \<Longrightarrow> reachable w p0 s'"

section \<open>The quorum invariant\<close>

text \<open>The acknowledgements of a request among the messages handled.\<close>

definition acknowledges :: "string \<Rightarrow> msg \<Rightarrow> bool" where
  "acknowledges request_id m \<longleftrightarrow>
     (case m of Ack i \<Rightarrow> i = request_id | AckList i _ \<Rightarrow> i = request_id | _ \<Rightarrow> False)"

definition ack_count :: "string \<Rightarrow> (uuid \<times> msg) list \<Rightarrow> nat" where
  "ack_count request_id log = length (filter (\<lambda>(_, m). acknowledges request_id m) log)"

definition quorum_ok :: "(uuid \<times> msg) list \<Rightarrow> string \<Rightarrow> quorom_state \<Rightarrow> bool" where
  "quorum_ok log i q \<longleftrightarrow> q_received q \<le> ack_count i log \<and> q_needed q = 2 \<and>
     (q_responder q = None \<or> q_responder q = Some i)"

definition quorum_inv :: "(uuid \<times> msg) list \<Rightarrow> 'b peer \<Rightarrow> bool" where
  "quorum_inv log p \<longleftrightarrow>
     (\<forall>i q. hm_get (p_in_flight p) i = Some q \<longrightarrow> quorum_ok log i q) \<and>
     (\<forall>i\<in>set (p_signalled p). 2 \<le> ack_count i log)"

lemma ack_count_append [simp]:
  "ack_count i (log @ [(u, m)]) = ack_count i log + (if acknowledges i m then 1 else 0)"
  by (simp add: ack_count_def)

interpretation quorum: tables_stable "quorum_inv log :: 'b peer \<Rightarrow> bool" for log
  by unfold_locales (simp_all add: quorum_inv_def)

lemma quorum_inv_log: "quorum_inv log p \<Longrightarrow> quorum_inv (log @ [(u, m)]) p"
  unfolding quorum_inv_def by (auto simp: quorum_ok_def intro: le_SucI)

lemma quorum_insert:
  "quorum_inv log p \<Longrightarrow> quorum_ok log i q \<Longrightarrow>
   quorum_inv log (p\<lparr>p_in_flight := hm_insert i q (p_in_flight p)\<rparr>)"
  by (auto simp: quorum_inv_def split: if_splits)

lemma quorum_signal:
  "quorum_inv log p \<Longrightarrow> 2 \<le> ack_count i log \<Longrightarrow>
   quorum_inv log (p\<lparr>p_signalled := i # p_signalled p\<rparr>)"
  by (auto simp: quorum_inv_def)

lemma quorum_ack:
  assumes "quorum_inv log p" "acknowledges i m"
    and f: "\<And>q. q_received (f q) = q_received q + 1 \<and> q_needed (f q) = q_needed q \<and>
                q_responder (f q) = q_responder q"
  shows "quorum_inv (log @ [(u, m)]) (fst (handle_ack held i f p))"
proof (cases "hm_get (p_in_flight p) i")
  case None
  then show ?thesis
    using quorum_inv_log [OF assms(1)] by (simp add: handle_ack_def act_lock_def act_bind_apply)
next
  case (Some q)
  have q: "quorum_ok log i q"
    using assms(1) Some by (auto simp: quorum_inv_def)
  have inv: "quorum_inv (log @ [(u, m)]) p" by (rule quorum_inv_log [OF assms(1)])
  have ok: "quorum_ok (log @ [(u, m)]) i (f q)"
    "quorum_ok (log @ [(u, m)]) i (f q\<lparr>q_responder := None\<rparr>)"
    using q f [of q] assms(2) by (auto simp: quorum_ok_def)
  have many: "2 \<le> ack_count i (log @ [(u, m)])" if "is_quorom_reached (f q)"
    using that ok(1) by (simp add: is_quorom_reached_def quorum_ok_def)
  have "q_responder (f q) = Some tx \<Longrightarrow> tx = i" for tx
    using ok(1) by (auto simp: quorum_ok_def)
  then have "quorum_inv (log @ [(u, m)]) (fst (signal_quorom i (f q) p))"
    using quorum_insert [OF inv ok(1)] quorum_signal [OF quorum_insert [OF inv ok(2)] many]
    by (auto simp: signal_quorom_def split: option.splits)
  then show ?thesis
    using Some inv by (simp add: handle_ack_def act_lock_def act_bind_apply)
qed

lemma quorum_message:
  assumes "quorum_inv log p"
  shows "quorum_inv (log @ [(u, m)]) (fst (handle_incoming w [] u m p))"
proof -
  have step: "keeps (quorum_inv (log @ [(u, m)])) c \<Longrightarrow> quorum_inv (log @ [(u, m)]) (fst (c p))"
    for c :: "('a peer, unit) act" and m
    using quorum_inv_log [OF assms] by (simp add: keepsD)
  show ?thesis
  proof (cases m)
    case (Ack i)
    show ?thesis
      unfolding Ack handle_incoming_def msg.case
      by (rule quorum_ack [OF assms]) (simp_all add: acknowledges_def increment_received_def)
  next
    case (AckList i l)
    show ?thesis
      unfolding AckList handle_incoming_def msg.case
      by (rule quorum_ack [OF assms]) (simp_all add: acknowledges_def add_list_def)
  qed (simp_all only: handle_incoming_def msg.case, (rule step, intro keeps_intros)+)
qed

lemma quorum_remove:
  "quorum_inv log p \<Longrightarrow> quorum_inv log (p\<lparr>p_in_flight := hm_remove i (p_in_flight p)\<rparr>)"
  by (auto simp: quorum_inv_def split: if_splits)

lemma quorum_in_flight [keeps_intros]:
  "keeps (quorum_inv log) (new_channel i)"
  "keeps (quorum_inv log) (in_flight_insert held i
     \<lparr>q_needed = 2, q_received = 0, q_responder = Some i, q_lists = ls\<rparr>)"
  "keeps (quorum_inv log) (in_flight_remove held i)"
  "keeps (quorum_inv log) (await_result i)"
  unfolding new_channel_def in_flight_insert_def in_flight_remove_def await_result_def
  by (rule keeps_intros | simp add: quorum_insert quorum_remove quorum_ok_def | simp add: quorum_inv_def)+

lemma quorum_starts [keeps_intros]:
  "keeps (quorum_inv log) (send_replicate_start w held l rs write)"
  "keeps (quorum_inv log) (send_read_replicate_start w held l rs)"
  unfolding send_replicate_start_def send_read_replicate_start_def WRITE_NODES_def READ_NODES_def
    if_cancel
  by (intro keeps_intros)+

lemma quorum_request: "keeps (quorum_inv log) (handle_incoming_proxy w held c m)"
  unfolding handle_incoming_proxy_def put_start_def send_write_replicate_start_def
  by (cases m) (simp_all only: msg.case, (intro keeps_intros)+)

lemma quorum_finish: "keeps (quorum_inv log) (proxy_finish w held wait)"
  unfolding proxy_finish_def put_finish_def get_finish_def send_replicate_finish_def
    send_read_replicate_finish_def Let_def
  by (cases wait) (simp_all only: proxy_wait.case, (intro keeps_intros)+)

lemma keeps_result: "keeps P m \<Longrightarrow> P p \<Longrightarrow> m p = (p', r) \<Longrightarrow> P p'"
  using keepsD by fastforce

lemmas quorum_keeps = keeps_result [OF quorum_request] keeps_result [OF quorum_finish]
  keeps_result [OF quorum.keeps_send_gossip] keeps_result [OF quorum.keeps_hinted_handoff]
  keeps_result [OF quorum.keeps_detection] keeps_result [OF quorum.keeps_join]

lemma peer_step_quorum:
  assumes "peer_step w s s'" "quorum_inv (sys_log s) (sys_peer s)"
  shows "quorum_inv (sys_log s') (sys_peer s')"
  using assms(1)
proof (cases rule: peer_step.cases)
  case (step_message identity m p p' r wait log)
  with assms(2) quorum_message [of log p identity m w] show ?thesis by simp
qed (use assms(2) in \<open>simp, blast intro: quorum_keeps\<close>)+

lemma reachable_quorum:
  assumes "reachable w p0 s" "p_in_flight p0 = []" "p_signalled p0 = []"
  shows "quorum_inv (sys_log s) (sys_peer s)"
  using assms(1)
proof (induction rule: reachable.induct)
  case reachable_start
  then show ?case using assms(2,3) by (simp add: quorum_inv_def)
next
  case (reachable_step s s')
  then show ?case by (blast intro: peer_step_quorum)
qed

section \<open>How a request ends\<close>

lemmas act_run = act_bind_apply act_try_apply world_tick_def

lemma zmq_call_run: "zmq_call w p = (p\<lparr>p_tick := p_tick p + 1\<rparr>,
    case w_zmq w (p_tick p) of None \<Rightarrow> Ok () | Some e \<Rightarrow> Err (Fail e))"
  by (simp add: zmq_call_def act_run split: option.split)

fun wait_request :: "proxy_wait \<Rightarrow> string" where
  "wait_request (Put_Wait _ _ i) = i"
| "wait_request (Get_Wait _ _ _ i) = i"

fun wait_client :: "proxy_wait \<Rightarrow> u8 list" where
  "wait_client (Put_Wait c _ _) = c"
| "wait_client (Get_Wait c _ _ _) = c"

lemma send_to_proxy_run:
  "L_proxy_dealer \<notin> set held \<Longrightarrow>
   p_proxied (fst (send_to_proxy w held c m p)) =
     p_proxied p @ (case w_zmq w (p_tick p) of None \<Rightarrow> [(c, m)] | Some e \<Rightarrow> [])"
  by (simp add: send_to_proxy_def act_run zmq_call_run split: option.split)

lemma await_unsignalled:
  "i \<notin> set (p_signalled p) \<Longrightarrow> \<exists>e. await_result i p = (p, Inl (Fail e))"
  by (auto simp: await_result_def act_run)

lemma in_flight_remove_run:
  "in_flight_remove [] i p =
     (p\<lparr>p_in_flight := hm_remove i (p_in_flight p)\<rparr>, Ok (hm_get (p_in_flight p) i))"
  by (simp add: in_flight_remove_def act_run)

lemma finish_unsignalled:
  assumes "wait_request wait \<notin> set (p_signalled p)"
  shows "p_proxied (fst (proxy_finish w [] wait p)) =
    p_proxied p @ (case w_zmq w (p_tick p) of None \<Rightarrow> [(wait_client wait, Nack [])] | Some e \<Rightarrow> [])"
proof (cases wait)
  case (Put_Wait c l i)
  then obtain e where "await_result i p = (p, Inl (Fail e))"
    using await_unsignalled [of i p] assms by auto
  then show ?thesis
    unfolding Put_Wait wait_client.simps proxy_finish_def proxy_wait.case put_finish_def
    by (simp add: send_replicate_finish_def act_run in_flight_remove_run send_to_proxy_run)
next
  case (Get_Wait c l st i)
  then obtain e where "await_result i p = (p, Inl (Fail e))"
    using await_unsignalled [of i p] assms by auto
  then show ?thesis
    unfolding Get_Wait wait_client.simps proxy_finish_def proxy_wait.case get_finish_def
    by (simp add: send_read_replicate_finish_def act_run in_flight_remove_run send_to_proxy_run)
qed

text \<open>Nothing but the end of a request sends a client anything, and that sends one answer at most.\<close>

interpretation proxied: step_quiet "\<lambda>p :: 'b peer. p_proxied p = v" for v
  by unfold_locales simp_all

lemma keeps_proxied: "keeps (\<lambda>p. p_proxied p = p_proxied q) m \<Longrightarrow> p_proxied (fst (m q)) = p_proxied q"
  using keepsD [of "\<lambda>p. p_proxied p = p_proxied q" m q] by simp

lemma answer_sent:
  "\<exists>new. p_proxied (fst (act_ignore (send_to_proxy w held c m) q)) = p_proxied q @ new \<and> (new = [] \<or> new = [(c, m)])"
  by (simp add: send_to_proxy_def act_lock_def act_run zmq_call_run split: option.split)

lemma store_and_answer:
  "\<exists>new. p_proxied (fst (act_seq (storage_write w held l) (act_ignore (send_to_proxy w held' c m)) q)) = p_proxied q @ new \<and>
     (new = [] \<or> new = [(c, m)])"
proof -
  have "p_proxied (fst (storage_write w held l q)) = p_proxied q"
    by (intro keeps_proxied proxied.keeps_storage)
  with answer_sent [of w held' c m "fst (storage_write w held l q)"] show ?thesis
    by (auto simp: act_bind_apply split: sum.split)
qed

lemma finish_answers:
  "\<exists>new. p_proxied (fst (proxy_finish w [] wait p)) = p_proxied p @ new \<and>
     (new = [] \<or> (\<exists>l. new = [(wait_client wait, AckList [] l)]) \<or> new = [(wait_client wait, Nack [])])"
proof (cases wait)
  case (Put_Wait c l i)
  let ?q = "fst (send_replicate_finish [] i p)"
  have "p_proxied ?q = p_proxied p"
    unfolding send_replicate_finish_def by (intro keeps_proxied keeps_intros)
  then show ?thesis
    unfolding Put_Wait proxy_finish_def proxy_wait.case put_finish_def
    using store_and_answer [of w "[]" l "[L_storage]" c "AckList [] l" ?q] answer_sent [of w "[]" c "Nack []" ?q]
    by (cases "snd (send_replicate_finish [] i p)") (auto simp: act_run split: error.split)
next
  case (Get_Wait c l st i)
  let ?q = "fst (send_read_replicate_finish [] i p)"
  have "p_proxied ?q = p_proxied p"
    unfolding send_read_replicate_finish_def by (intro keeps_proxied keeps_intros)
  then show ?thesis
    unfolding Get_Wait proxy_finish_def proxy_wait.case get_finish_def
    using store_and_answer [of w "[]" _ "[]" c "AckList [] _" ?q] answer_sent [of w "[]" c "Nack []" ?q]
    by (cases "snd (send_read_replicate_finish [] i p)") (fastforce simp: act_run Let_def split: error.split)+
qed

lemmas proxied_steps = keeps_result [OF proxied.keeps_incoming refl] keeps_result [OF proxied.keeps_request refl]
  keeps_result [OF proxied.keeps_send_gossip refl] keeps_result [OF proxied.keeps_hinted_handoff refl]
  keeps_result [OF proxied.keeps_detection refl] keeps_result [OF proxied.keeps_join refl]

lemma step_answers:
  assumes "peer_step w s s'" "quorum_inv (sys_log s) (sys_peer s)"
  shows "\<exists>new. p_proxied (sys_peer s') = p_proxied (sys_peer s) @ new \<and>
    (new = [] \<or> (\<exists>wait. sys_wait s = Some wait \<and> sys_wait s' = None \<and>
       (new = [(wait_client wait, Nack [])] \<or>
        (\<exists>l. new = [(wait_client wait, AckList [] l)] \<and> WRITE_NODES \<le> ack_count (wait_request wait) (sys_log s)))))"
  using assms(1)
proof (cases rule: peer_step.cases)
  case (step_finish wait p p' r log)
  have "WRITE_NODES \<le> ack_count (wait_request wait) log"
    if "p_proxied p' = p_proxied p @ [(wait_client wait, AckList [] l)]" for l
  proof (rule ccontr)
    assume "\<not> ?thesis"
    with assms(2) step_finish(1) have "wait_request wait \<notin> set (p_signalled p)"
      by (auto simp: quorum_inv_def WRITE_NODES_def)
    from finish_unsignalled [OF this, of w] that step_finish(3) show False by (auto split: option.splits)
  qed
  with finish_answers [of w wait p] step_finish show ?thesis by auto
qed (auto dest: proxied_steps)

section \<open>Requests on a network that works\<close>

definition reliable :: "('b, 'x) world_scheme \<Rightarrow> bool" where
  "reliable w \<longleftrightarrow> (\<forall>t. w_zmq w t = None \<and> w_sql_ok w t)"

lemma reliable_zmq: "reliable w \<Longrightarrow> w_zmq w t = None"
  by (simp add: reliable_def)

text \<open>A send to a member, when no ZeroMQ call fails: one message, the mark of the peer removed.\<close>

definition after_send :: "uuid \<Rightarrow> string \<Rightarrow> msg \<Rightarrow> 'b peer \<Rightarrow> 'b peer" where
  "after_send u addr m p = p\<lparr>p_sent := p_sent p @ [(Some u, addr, m)],
     p_failure := hm_remove u (p_failure p), p_tick := p_tick p + 4\<rparr>"

lemma send_to_works:
  assumes "\<And>t. w_zmq w t = None" "hm_get (p_membership p) u = Some addr"
    "L_membership \<notin> set held" "L_failure \<notin> set held"
  shows "send_to w held u m p = (after_send u addr m p, Ok ())"
proof -
  have "hm_remove u f = f" if "\<not> hm_contains f u" for f :: failure_table
    using that by (simp add: hm_contains_iff AList.delete_id)
  then have "clear_peer_failure held u q = (q\<lparr>p_failure := hm_remove u (p_failure q)\<rparr>, Ok ())" for q :: "'a peer"
    using assms(4) by (simp add: clear_peer_failure_def clear_failure_def)
  then show ?thesis
    using assms by (simp add: send_to_def act_run connect_to_peer_def zmq_call_run close_conn_def
        log_sent_def after_send_def)
qed

lemmas send_to_reliable = send_to_works [OF reliable_zmq]

lemma after_send_membership [simp]: "p_membership (after_send u a m p) = p_membership p"
  by (simp add: after_send_def)

definition after_sends :: "uuid list \<Rightarrow> msg \<Rightarrow> 'b peer \<Rightarrow> 'b peer" where
  "after_sends us m p = foldl (\<lambda>q u. after_send u (the (hm_get (p_membership p) u)) m q) p us"

lemma after_sends_Cons:
  "after_sends (u # us) m p = after_sends us m (after_send u (the (hm_get (p_membership p) u)) m p)"
  by (simp add: after_sends_def)

lemma after_sends_fields [simp]:
  "p_sent (after_sends us m p) =
     p_sent p @ map (\<lambda>u. (Some u, the (hm_get (p_membership p) u), m)) us"
  "p_storage (after_sends us m p) = p_storage p"
  "p_in_flight (after_sends us m p) = p_in_flight p"
  "p_signalled (after_sends us m p) = p_signalled p"
  "p_proxied (after_sends us m p) = p_proxied p"
  "p_membership (after_sends us m p) = p_membership p"
  by (induction us arbitrary: p) (simp_all add: after_sends_Cons, simp_all add: after_sends_def after_send_def)

lemma replicate_loop_reliable:
  assumes "reliable w"
  shows "set us \<subseteq> fst ` set (p_membership p) \<Longrightarrow>
    replicate_loop w [] i l m last_u us p = (after_sends us m p, Ok ())"
proof (induction us arbitrary: p)
  case Nil
  then show ?case by (simp add: after_sends_def)
next
  case (Cons u us)
  then obtain addr where addr: "hm_get (p_membership p) u = Some addr"
    by (metis list.set_intros(1) map_of_eq_None_iff option.exhaust subsetD)
  have "send_to w [] u m p = (after_send u addr m p, Ok ())"
    by (rule send_to_reliable [where held = "[]", OF assms addr]) simp_all
  with Cons addr show ?case by (simp add: act_run after_sends_Cons)
qed

text \<open>The state after a put request has been made.\<close>

definition after_put :: "string \<Rightarrow> shopping_list \<Rightarrow> uuid list \<Rightarrow> 'b peer \<Rightarrow> 'b peer" where
  "after_put i lst us p = after_sends us (ReplicateList i lst True)
     (p\<lparr>p_tick := p_tick p + 1, p_signalled := removeAll i (p_signalled p),
        p_in_flight := hm_insert i \<lparr>q_needed = WRITE_NODES, q_received = 0, q_responder = Some i,
          q_lists = [lst]\<rparr> (p_in_flight p)\<rparr>)"

lemma put_start_reliable:
  assumes "reliable w" "us = drop 1 (get_preference_list w (p_hashring p) (sl_id lst))" "us \<noteq> []"
    "set us \<subseteq> fst ` set (p_membership p)" "i = uuid_to_string w (w_new_uuid w (p_tick p))"
  shows "put_start w [] c lst p = (after_put i lst us p, Ok (Put_Wait c lst i))"
proof -
  have "get_replicas w [] (sl_id lst) p = (p, Ok us)"
    using assms(2) by (simp add: get_replicas_def)
  then show ?thesis
    using assms(3-5) replicate_loop_reliable [OF assms(1)]
    by (simp add: put_start_def act_run send_write_replicate_start_def send_replicate_start_def
        new_request_id_def new_channel_def in_flight_insert_def after_put_def)
qed

lemma after_put_fields [simp]:
  "p_sent (after_put i lst us p) = p_sent p @
     map (\<lambda>u. (Some u, the (hm_get (p_membership p) u), ReplicateList i lst True)) us"
  "p_storage (after_put i lst us p) = p_storage p"
  "p_proxied (after_put i lst us p) = p_proxied p"
  "hm_get (p_in_flight (after_put i lst us p)) i =
     Some \<lparr>q_needed = WRITE_NODES, q_received = 0, q_responder = Some i, q_lists = [lst]\<rparr>"
  by (simp_all add: after_put_def)

lemma ack_run:
  "hm_get (p_in_flight p) i = Some q \<Longrightarrow>
   handle_incoming w [] u (Ack i) p = signal_quorom i (increment_received q) p"
  by (simp add: handle_incoming_def handle_ack_def act_run)

text \<open>Two acknowledgements, from whichever peers, signal a request that has none yet.\<close>

lemma two_acks:
  assumes "hm_get (p_in_flight p) i =
      Some \<lparr>q_needed = WRITE_NODES, q_received = 0, q_responder = Some i, q_lists = ls\<rparr>"
    and "handle_incoming w [] a (Ack i) p = (p1, r1)" "handle_incoming w [] b (Ack i) p1 = (p2, r2)"
  shows "i \<in> set (p_signalled p2)" "p_storage p2 = p_storage p" "p_proxied p2 = p_proxied p"
    "r1 = Ok ()" "r2 = Ok ()"
proof -
  let ?q = "\<lparr>q_needed = WRITE_NODES, q_received = 1, q_responder = Some i, q_lists = ls\<rparr>"
  have p1: "p1 = p\<lparr>p_in_flight := hm_insert i ?q (p_in_flight p)\<rparr>" "r1 = Ok ()"
    using assms(2) ack_run [OF assms(1), of w a]
    by (simp_all add: signal_quorom_def is_quorom_reached_def increment_received_def WRITE_NODES_def)
  have "hm_get (p_in_flight p1) i = Some ?q" by (simp add: p1)
  from ack_run [OF this, of w b] assms(3)
  show "i \<in> set (p_signalled p2)" "p_storage p2 = p_storage p" "p_proxied p2 = p_proxied p"
    "r1 = Ok ()" "r2 = Ok ()"
    by (auto simp: signal_quorom_def is_quorom_reached_def increment_received_def WRITE_NODES_def p1)
qed

lemma put_finish_signalled:
  assumes "reliable w" "i \<in> set (p_signalled p)"
    and "ss_write_shopping_list w True True (p_storage p) lst = Ok st"
  shows "put_finish w [] c lst i p = (p\<lparr>p_in_flight := hm_remove i (p_in_flight p), p_storage := st,
    p_proxied := p_proxied p @ [(c, AckList [] lst)], p_tick := p_tick p + 3\<rparr>, Ok ())"
  using assms by (simp add: put_finish_def send_replicate_finish_def act_run await_result_def reliable_def
      in_flight_remove_run storage_write_def send_to_proxy_def act_ignore_apply zmq_call_run)


lemma put_run:
  assumes "reliable w" "ss_inv w (p_storage p)" "sl_wf lst"
    and "us = drop 1 (get_preference_list w (p_hashring p) (sl_id lst))" "us \<noteq> []"
    and "set us \<subseteq> fst ` set (p_membership p)" "i = uuid_to_string w (w_new_uuid w (p_tick p))"
  shows "\<exists>p0 p1 p2 p3 got.
    put_start w [] c lst p = (p0, Ok (Put_Wait c lst i)) \<and>
    handle_incoming w [] a (Ack i) p0 = (p1, Ok ()) \<and>
    handle_incoming w [] b (Ack i) p1 = (p2, Ok ()) \<and>
    proxy_finish w [] (Put_Wait c lst i) p2 = (p3, Ok ()) \<and>
    p_proxied p2 = p_proxied p \<and> p_proxied p3 = p_proxied p @ [(c, AckList [] lst)] \<and>
    ss_get_shopping_list w True (p_storage p3) (sl_id lst) = Ok (Some got) \<and>
    sl_content got = sl_content lst"
proof -
  let ?p0 = "after_put i lst us p"
  obtain p1 r1 where p1: "handle_incoming w [] a (Ack i) ?p0 = (p1, r1)" by force
  obtain p2 r2 where p2: "handle_incoming w [] b (Ack i) p1 = (p2, r2)" by force
  note acks = two_acks [OF after_put_fields(4) p1 p2]
  obtain st got where st: "ss_write_shopping_list w True True (p_storage p) lst = Ok st"
      "ss_get_shopping_list w True st (sl_id lst) = Ok (Some got)" "sl_content got = sl_content lst"
    using server_stores [OF assms(2,3), of True] by blast
  from put_finish_signalled [OF assms(1) acks(1), of lst st c] acks(2,3) st(1)
  show ?thesis
    using put_start_reliable [OF assms(1,4-7)] p1 p2 acks(4,5) st(2,3)
    by (auto simp: proxy_finish_def)
qed


section \<open>A concrete cluster\<close>

text \<open>The sample peer after gossip about two more servers.\<close>

definition sample_member :: "shopping_list peer" where
  "sample_member = \<lparr>p_uuid = 1, p_storage = \<lparr>ss_server_id = 1, ss_rows = []\<rparr>, p_addr = ''a'',
     p_membership = [(1, ''a''), (2, ''b''), (3, ''c'')],
     p_hashring = \<lparr>hr_ring = [(3, 1), (4, 2), (5, 3)], hr_virtual_nodes = 3, hr_replicas = 3\<rparr>,
     p_failure = [], p_in_flight = [], p_signalled = [], p_sent = [], p_proxied = [], p_tick = 2\<rparr>"

lemma sample_peer_eq: "sample_peer = \<lparr>p_uuid = 1, p_storage = \<lparr>ss_server_id = 1, ss_rows = []\<rparr>,
     p_addr = ''a'', p_membership = [(1, ''a'')],
     p_hashring = \<lparr>hr_ring = [(3, 1)], hr_virtual_nodes = 3, hr_replicas = 3\<rparr>,
     p_failure = [], p_in_flight = [], p_signalled = [], p_sent = [], p_proxied = [], p_tick = 0\<rparr>"
  by (simp add: sample_peer_def peer_new_def membership_insert_def failure_table_new_def
      add_node_sample_world hash_ring_new_def VNODES_def REPLICAS_def)

lemma sample_gossip:
  "handle_incoming sample_world [] 2 (Gossip [(2, ''b''), (3, ''c'')]) sample_peer = (sample_member, Ok ())"
  by (simp add: handle_incoming_def handle_gossip_def add_nodes_def act_run sample_peer_eq
      add_node_sample_world membership_insert_def hm_contains_def get_predecessors_def send_old_data_def
      prev_node_hash_def vnodes_of_def next_back_def bt_range_below_def storage_old_data_def
      ss_get_old_data_def act_ret_def sample_member_def)

lemma sample_preference_list [simp]:
  "get_preference_list sample_world (p_hashring sample_member) 7 = [1, 2, 3]"
  by (simp add: get_preference_list_def sample_member_def bt_range_from_def)

lemma sample_id [simp]: "replicate 4 CHR ''x'' = ''xxxx''"
  by (simp add: eval_nat_numeral)

lemma sample_world_laws [simp]:
  "reliable sample_world" "json_law sample_world" "uuid_law sample_world"
  by (simp_all add: reliable_def json_law_def uuid_law_def)

lemma sample_member_simps [simp]:
  "ss_inv sample_world (p_storage sample_member)"
  "p_membership sample_member = [(1, ''a''), (2, ''b''), (3, ''c'')]"
  "p_tick sample_member = 2" "p_proxied sample_member = []"
  "hr_replicas (p_hashring sample_member) = REPLICAS" "p_sent sample_member = []"
  by (simp_all add: ss_inv_def ss_ok_def sample_member_def REPLICAS_def)


section \<open>Properties\<close>

text \<open>C7: In every state a peer reaches, whatever messages arrive and whatever fails, its next step sends clients
  nothing, unless it ends the waiting request. That sends its client nothing, a \<open>Nack\<close>, or one
  \<open>AckList\<close>, and an \<open>AckList\<close> only when at least \<open>WRITE_NODES\<close> acknowledgements that carry the request's id have been
  handled. So a client without that many is sent one \<open>Nack\<close> or nothing.\<close>

theorem client_ack_has_quorum:
  assumes "reachable w (peer_new w u addr st) s" "peer_step w s s'"
  shows "\<exists>new. p_proxied (sys_peer s') = p_proxied (sys_peer s) @ new \<and>
    (new = [] \<or> (\<exists>wait. sys_wait s = Some wait \<and> sys_wait s' = None \<and>
       (new = [(wait_client wait, Nack [])] \<or>
        (\<exists>l. new = [(wait_client wait, AckList [] l)] \<and> WRITE_NODES \<le> ack_count (wait_request wait) (sys_log s)))))"
  by (rule step_answers [OF assms(2)], rule reachable_quorum [OF assms(1)]) (simp_all add: peer_new_def)

theorem client_ack_has_quorum_witness:
  "\<exists>s s'. reachable sample_world sample_peer s \<and> peer_step sample_world s s' \<and>
     p_proxied (sys_peer s') = [([9], AckList [] milk_list)] \<and> WRITE_NODES \<le> ack_count ''xxxx'' (sys_log s)"
proof -
  let ?wait = "Put_Wait [9] milk_list ''xxxx''"
  obtain p0 p1 p2 p3 where run:
      "put_start sample_world [] [9] milk_list sample_member = (p0, Ok ?wait)"
      "handle_incoming sample_world [] 2 (Ack ''xxxx'') p0 = (p1, Ok ())"
      "handle_incoming sample_world [] 3 (Ack ''xxxx'') p1 = (p2, Ok ())"
      "proxy_finish sample_world [] ?wait p2 = (p3, Ok ())"
      "p_proxied p2 = []" "p_proxied p3 = [([9], AckList [] milk_list)]"
    using put_run [of sample_world sample_member milk_list "[2, 3]" "''xxxx''" "[9]" 2 3] by simp blast
  let ?log = "[(2, Gossip [(2, ''b''), (3, ''c'')]), (2, Ack ''xxxx''), (3, Ack ''xxxx'')]"
  let ?s = "\<lparr>sys_peer = p2, sys_wait = Some ?wait, sys_log = ?log\<rparr>"
    and ?s' = "\<lparr>sys_peer = p3, sys_wait = None, sys_log = ?log\<rparr>"
  have request: "handle_incoming_proxy sample_world [] [9] (PutList milk_list) sample_member = (p0, Ok (Some ?wait))"
    using run(1) by (simp add: handle_incoming_proxy_def act_run)
  have reach: "reachable sample_world sample_peer ?s"
    using reachable_step [OF reachable_step [OF reachable_step [OF reachable_step [OF reachable_start
        step_message [OF sample_gossip]] step_request [OF request]] step_message [OF run(2)]]
        step_message [OF run(3)]]
    by simp
  have step: "peer_step sample_world ?s ?s'" by (rule step_finish [OF run(4)])
  have "WRITE_NODES \<le> ack_count ''xxxx'' ?log"
    using client_ack_has_quorum [OF reach [unfolded sample_peer_def] step] run(5,6) by simp
  with reach step run(6) show ?thesis by (intro exI [of _ ?s] exI [of _ ?s']) simp
qed

text \<open>C10: A put reaches its client on a network that works: when the request's two acknowledgements
  arrive, from whichever peers, the list is stored under its id and the client is sent exactly one
  \<open>AckList\<close> with it.\<close>

theorem put_completes:
  assumes "reliable w" "ss_inv w (p_storage p)" "sl_wf lst"
    and "us = drop 1 (get_preference_list w (p_hashring p) (sl_id lst))" "us \<noteq> []"
    and "set us \<subseteq> fst ` set (p_membership p)" "i = uuid_to_string w (w_new_uuid w (p_tick p))"
  shows "\<exists>p0 p1 p2 p3 got.
    put_start w [] c lst p = (p0, Ok (Put_Wait c lst i)) \<and>
    handle_incoming w [] a (Ack i) p0 = (p1, Ok ()) \<and>
    handle_incoming w [] b (Ack i) p1 = (p2, Ok ()) \<and>
    proxy_finish w [] (Put_Wait c lst i) p2 = (p3, Ok ()) \<and>
    p_proxied p3 = p_proxied p @ [(c, AckList [] lst)] \<and>
    ss_get_shopping_list w True (p_storage p3) (sl_id lst) = Ok (Some got) \<and>
    sl_content got = sl_content lst"
  using put_run [OF assms, of c a b] by blast

theorem put_completes_witness:
  "\<exists>p0 p1 p2 p3 got. put_start sample_world [] [9] milk_list sample_member = (p0, Ok (Put_Wait [9] milk_list ''xxxx'')) \<and>
    handle_incoming sample_world [] 2 (Ack ''xxxx'') p0 = (p1, Ok ()) \<and>
    handle_incoming sample_world [] 3 (Ack ''xxxx'') p1 = (p2, Ok ()) \<and>
    proxy_finish sample_world [] (Put_Wait [9] milk_list ''xxxx'') p2 = (p3, Ok ()) \<and>
    p_proxied p3 = [([9], AckList [] milk_list)] \<and>
    ss_get_shopping_list sample_world True (p_storage p3) 7 = Ok (Some got)"
  using put_completes [of sample_world sample_member milk_list "[2, 3]" "''xxxx''" "[9]" 2 3] by simp blast

text \<open>A put asks exactly the other servers of the list's preference list, once each. With fewer
  than three servers in the ring that is fewer than the \<open>WRITE_NODES\<close> acknowledgements it waits for:
  the coordinator's own copy is not counted.\<close>

lemma put_asks_each_replica_once:
  assumes "reliable w" "hr_replicas (p_hashring p) = REPLICAS"
    and "us = drop 1 (get_preference_list w (p_hashring p) (sl_id lst))" "us \<noteq> []"
    and "set us \<subseteq> fst ` set (p_membership p)"
  shows "\<exists>p' i. put_start w [] c lst p = (p', Ok (Put_Wait c lst i)) \<and>
    p_sent p' = p_sent p @ map (\<lambda>u. (Some u, the (hm_get (p_membership p) u), ReplicateList i lst True)) us \<and>
    distinct us \<and> length us = min REPLICAS (server_count (p_hashring p)) - 1 \<and>
    (server_count (p_hashring p) < REPLICAS \<longrightarrow> length us < WRITE_NODES)"
proof -
  have "distinct (get_preference_list w (p_hashring p) (sl_id lst))"
    "length (get_preference_list w (p_hashring p) (sl_id lst)) = min REPLICAS (server_count (p_hashring p))"
    using pref_list_shape [of w "p_hashring p" "sl_id lst"] by (simp_all add: assms(2) REPLICAS_def)
  then have "distinct us" "length us = min REPLICAS (server_count (p_hashring p)) - 1"
    by (simp_all add: assms(3) distinct_tl drop_Suc)
  with put_start_reliable [OF assms(1,3-5) refl, of c] show ?thesis
    by (auto simp: REPLICAS_def WRITE_NODES_def)
qed

lemma put_asks_each_replica_once_witness:
  "\<exists>p' i. put_start sample_world [] [9] milk_list sample_member = (p', Ok (Put_Wait [9] milk_list i)) \<and>
     p_sent p' = [(Some 2, ''b'', ReplicateList i milk_list True), (Some 3, ''c'', ReplicateList i milk_list True)]"
  using put_asks_each_replica_once [of sample_world sample_member "[2, 3]" milk_list "[9]"] by simp blast

text \<open>C31: A server alone in its ring answers no put at all: the request ends without any message to
  the client.\<close>

theorem lone_server_never_answers:
  assumes "hr_replicas (p_hashring p) = REPLICAS" "server_count (p_hashring p) \<le> 1"
  shows "handle_incoming_proxy w [] c (PutList lst) p = (p, Ok None)"
proof -
  have "length (get_preference_list w (p_hashring p) (sl_id lst)) \<le> 1"
    using pref_list_shape [of w "p_hashring p" "sl_id lst"] assms by (simp add: REPLICAS_def)
  then show ?thesis
    by (simp add: handle_incoming_proxy_def put_start_def get_replicas_def act_run)
qed

theorem lone_server_never_answers_witness:
  "handle_incoming_proxy sample_world [] [9] (PutList milk_list) sample_peer = (sample_peer, Ok None)"
  by (rule lone_server_never_answers)
    (simp_all add: sample_peer_eq server_count_def get_all_servers_def REPLICAS_def)

lemma stored_wf: "ss_inv w s \<Longrightarrow> ss_get_shopping_list w q s i = Ok (Some l) \<Longrightarrow> sl_wf l"
proof -
  assume inv: "ss_inv w s" and get: "ss_get_shopping_list w q s i = Ok (Some l)"
  then have "ss_get_shopping_list w True s i = Ok (Some l)"
    by (cases q) (simp_all add: ss_get_shopping_list_def)
  moreover have "ss_ok w s" using inv by (simp add: ss_inv_def)
  ultimately show "sl_wf l" using ss_get_lookup [of w s i] by (auto split: option.splits)
qed

text \<open>A read whose quorum was reached.\<close>

lemma read_answered:
  assumes "reliable w" "ss_inv w (p_storage p)" "sl_wf stored" "list_all sl_wf (own # answers)"
    and "i \<in> set (p_signalled p)"
    and "hm_get (p_in_flight p) i = Some q" "q_lists q = own # answers"
    and "l = merge_list_into stored (foldl merge_list_into own answers)"
  shows "\<exists>p' got. proxy_finish w [] (Get_Wait c own stored i) p = (p', Ok ()) \<and>
    p_proxied p' = p_proxied p @ [(c, AckList [] l)] \<and> sl_id l = sl_id stored \<and>
    ss_get_shopping_list w True (p_storage p') (sl_id l) = Ok (Some got) \<and>
    sl_content got = sl_content l"
proof -
  have wf: "sl_wf l" using assms(3,4) by (simp add: assms(8) sl_wf_merge sl_wf_foldl)
  obtain st got where st: "ss_write_shopping_list w True True (p_storage p) l = Ok st"
      "ss_get_shopping_list w True st (sl_id l) = Ok (Some got)" "sl_content got = sl_content l"
    using server_stores [OF assms(2) wf, of True] by blast
  with assms show ?thesis
    by (simp add: proxy_finish_def get_finish_def send_read_replicate_finish_def act_run await_result_def
        reliable_def in_flight_remove_run storage_write_def send_to_proxy_def act_ignore_apply
        zmq_call_run merge_lists_def merge_list_into_def Let_def)
qed

text \<open>A read from the request on: the replicas are asked, and every list they answer with is collected.\<close>

definition answered :: "('b, 'x) world_scheme \<Rightarrow> string \<Rightarrow> (uuid \<times> shopping_list) list \<Rightarrow> 'b peer \<Rightarrow> 'b peer" where
  "answered w i answers p = fold (\<lambda>(u, l) q. fst (handle_incoming w [] u (AckList i l) q)) answers p"

definition collects :: "string \<Rightarrow> shopping_list list \<Rightarrow> nat \<Rightarrow> 'b peer \<Rightarrow> bool" where
  "collects i ls n p \<longleftrightarrow> (\<exists>q. hm_get (p_in_flight p) i = Some q \<and> q_lists q = ls \<and> q_needed q = READ_NODES \<and>
     q_received q = n \<and> (q_responder q = Some i \<and> n < READ_NODES \<or> i \<in> set (p_signalled p)))"

lemma answer_collected:
  assumes "collects i ls n p"
  shows "collects i (ls @ [l]) (n + 1) (fst (handle_incoming w [] u (AckList i l) p))"
    "p_storage (fst (handle_incoming w [] u (AckList i l) p)) = p_storage p"
    "p_proxied (fst (handle_incoming w [] u (AckList i l) p)) = p_proxied p"
proof -
  obtain q where "hm_get (p_in_flight p) i = Some q" "q_lists q = ls" "q_needed q = READ_NODES" "q_received q = n"
      "q_responder q = Some i \<and> n < READ_NODES \<or> i \<in> set (p_signalled p)"
    using assms by (auto simp: collects_def)
  then show "collects i (ls @ [l]) (n + 1) (fst (handle_incoming w [] u (AckList i l) p))"
    "p_storage (fst (handle_incoming w [] u (AckList i l) p)) = p_storage p"
    "p_proxied (fst (handle_incoming w [] u (AckList i l) p)) = p_proxied p"
    by (auto simp: handle_incoming_def handle_ack_def act_run signal_quorom_def is_quorom_reached_def add_list_def
        collects_def split: option.split)
qed

lemma answers_collected:
  "collects i ls n p \<Longrightarrow> collects i (ls @ map snd answers) (n + length answers) (answered w i answers p) \<and>
     p_storage (answered w i answers p) = p_storage p \<and> p_proxied (answered w i answers p) = p_proxied p"
proof (induction answers arbitrary: ls n p)
  case (Cons a answers)
  obtain u l where a: "a = (u, l)" by force
  from Cons.IH [OF answer_collected(1) [OF Cons.prems, of l w u]] answer_collected(2,3) [OF Cons.prems, where w = w]
  show ?case by (simp add: a answered_def)
qed (simp add: answered_def)

definition after_get :: "string \<Rightarrow> shopping_list \<Rightarrow> uuid list \<Rightarrow> 'b peer \<Rightarrow> 'b peer" where
  "after_get i own us p = after_sends us (ReplicateList i own False)
     (p\<lparr>p_tick := p_tick p + 2, p_signalled := removeAll i (p_signalled p),
        p_in_flight := hm_insert i \<lparr>q_needed = READ_NODES, q_received = 0, q_responder = Some i,
          q_lists = [own]\<rparr> (p_in_flight p)\<rparr>)"

lemma read_loop_reliable:
  assumes "reliable w"
  shows "set us \<subseteq> fst ` set (p_membership p) \<Longrightarrow>
    act_for us (\<lambda>u. act_ignore (send_to w [] u m)) p = (after_sends us m p, Ok ())"
proof (induction us arbitrary: p)
  case Nil
  then show ?case by (simp add: after_sends_def)
next
  case (Cons u us)
  then obtain addr where addr: "hm_get (p_membership p) u = Some addr"
    by (metis list.set_intros(1) map_of_eq_None_iff option.exhaust subsetD)
  have "send_to w [] u m p = (after_send u addr m p, Ok ())"
    by (rule send_to_reliable [where held = "[]", OF assms addr]) simp_all
  with Cons addr show ?case by (simp add: act_run act_ignore_apply after_sends_Cons)
qed

lemma get_start_reliable:
  assumes "reliable w" "us = drop 1 (get_preference_list w (p_hashring p) (sl_id own))" "us \<noteq> []"
    "set us \<subseteq> fst ` set (p_membership p)" "i = uuid_to_string w (w_new_uuid w (p_tick p + 1))"
    "ss_get_shopping_list w True (p_storage p) (sl_id own) = Ok (Some stored)"
  shows "handle_incoming_proxy w [] c (GetList own) p = (after_get i own us p, Ok (Some (Get_Wait c own stored i)))"
  using assms read_loop_reliable [OF assms(1)]
  by (simp add: handle_incoming_proxy_def act_run storage_runs reliable_def get_replicas_def
      send_read_replicate_start_def new_request_id_def new_channel_def in_flight_insert_def after_get_def)

text \<open>C26: A read merges what it is answered. Where network and database work, a client's \<open>GetList\<close> for a stored list, of which the
  coordinator knows the replicas (one at least), makes it ask each of them once; and whichever well-formed lists come back under the request's id, from \<open>READ_NODES\<close>
  answers on, the client is sent, and the coordinator stores, the stored list merged with the client's list and with
  every one of them.\<close>

theorem get_returns_merged_lists:
  assumes "reliable w" "ss_inv w (p_storage p)" "sl_wf own" "list_all (\<lambda>(u, l). sl_wf l) answers"
    and "us = drop 1 (get_preference_list w (p_hashring p) (sl_id own))" "us \<noteq> []"
    and "set us \<subseteq> fst ` set (p_membership p)" "i = uuid_to_string w (w_new_uuid w (p_tick p + 1))"
    and "ss_get_shopping_list w True (p_storage p) (sl_id own) = Ok (Some stored)"
    and "READ_NODES \<le> length answers"
    and "merged = merge_list_into stored (foldl merge_list_into own (map snd answers))"
  shows "\<exists>p0 p' got. handle_incoming_proxy w [] c (GetList own) p = (p0, Ok (Some (Get_Wait c own stored i))) \<and>
    p_sent p0 = p_sent p @ map (\<lambda>u. (Some u, the (hm_get (p_membership p) u), ReplicateList i own False)) us \<and>
    distinct us \<and> p_proxied (answered w i answers p0) = p_proxied p \<and>
    proxy_finish w [] (Get_Wait c own stored i) (answered w i answers p0) = (p', Ok ()) \<and>
    p_proxied p' = p_proxied p @ [(c, AckList [] merged)] \<and>
    ss_get_shopping_list w True (p_storage p') (sl_id merged) = Ok (Some got) \<and> sl_content got = sl_content merged"
proof -
  let ?p0 = "after_get i own us p"
  have "collects i [own] 0 ?p0" by (simp add: collects_def after_get_def READ_NODES_def)
  note collected = answers_collected [OF this, of answers w]
  obtain q where q: "hm_get (p_in_flight (answered w i answers ?p0)) i = Some q" "q_lists q = own # map snd answers"
      "i \<in> set (p_signalled (answered w i answers ?p0))"
    using collected assms(10) by (auto simp: collects_def)
  have kept: "p_storage (answered w i answers ?p0) = p_storage p" "p_proxied (answered w i answers ?p0) = p_proxied p"
    using collected by (simp_all add: after_get_def)
  have "sl_wf stored" using stored_wf [OF assms(2,9)] .
  moreover have "list_all sl_wf (own # map snd answers)" using assms(3,4) by (auto simp: list_all_iff)
  ultimately obtain p' got where fin: "proxy_finish w [] (Get_Wait c own stored i) (answered w i answers ?p0) = (p', Ok ())"
      "p_proxied p' = p_proxied p @ [(c, AckList [] merged)]"
      "ss_get_shopping_list w True (p_storage p') (sl_id merged) = Ok (Some got)" "sl_content got = sl_content merged"
    using read_answered [OF assms(1), of "answered w i answers ?p0" stored own "map snd answers" i q merged c]
      assms(2,11) q kept by auto
  moreover have "distinct us" using ring.replicas_distinct [of w "p_hashring p" "sl_id own"] assms(5) by simp
  moreover have "p_sent ?p0 = p_sent p @ map (\<lambda>u. (Some u, the (hm_get (p_membership p) u), ReplicateList i own False)) us"
    by (simp add: after_get_def)
  ultimately show ?thesis using get_start_reliable [OF assms(1,5-9), of c] kept(2) by blast
qed

theorem get_returns_merged_lists_witness:
  "\<exists>p0 p'. handle_incoming_proxy sample_world [] [9] (GetList tea_list) (sample_member\<lparr>p_storage := \<lparr>ss_server_id = 1,
       ss_rows = [\<lparr>row_id = list_key sample_world 7, crdt_data = milk_list, hinted_handoff = None\<rparr>]\<rparr>\<rparr>) =
       (p0, Ok (Some (Get_Wait [9] tea_list milk_list ''xxxx''))) \<and>
     proxy_finish sample_world [] (Get_Wait [9] tea_list milk_list ''xxxx'')
       (answered sample_world ''xxxx'' [(2, milk_list), (3, tea_list)] p0) = (p', Ok ()) \<and>
     p_proxied p' = [([9], AckList [] (merge_list_into milk_list (merge_list_into (merge_list_into tea_list milk_list) tea_list)))]"
proof -
  let ?p = "sample_member\<lparr>p_storage := \<lparr>ss_server_id = 1,
       ss_rows = [\<lparr>row_id = list_key sample_world 7, crdt_data = milk_list, hinted_handoff = None\<rparr>]\<rparr>\<rparr>"
  have "ss_inv sample_world (p_storage ?p)" by (simp add: ss_inv_def ss_ok_def row_ok_def)
  moreover have "ss_get_shopping_list sample_world True (p_storage ?p) 7 = Ok (Some milk_list)"
    by (simp add: ss_get_shopping_list_def)
  ultimately show ?thesis
    using get_returns_merged_lists [of sample_world ?p tea_list "[(2, milk_list), (3, tea_list)]" "[2, 3]" "''xxxx''" milk_list
        "merge_list_into milk_list (merge_list_into (merge_list_into tea_list milk_list) tea_list)" "[9]"]
    by (simp add: READ_NODES_def) blast
qed

end
