(* ===== verification/Peer_Faults.thy ===== *)
theory Peer_Faults
  imports Quorum
begin

text \<open>
  How a peer deals with failing peers and changing membership: the failure marks, the search for a
  stand-in, gossip, joining, leaving and the background rounds.
\<close>

section \<open>Predicates every step keeps\<close>

context step_stable
begin

lemmas step_keeps = keeps_result [OF keeps_incoming] keeps_result [OF keeps_request]
  keeps_result [OF keeps_finish] keeps_result [OF keeps_send_gossip]
  keeps_result [OF keeps_hinted_handoff] keeps_result [OF keeps_detection] keeps_result [OF keeps_join]

lemma reachable_keeps: "reachable w p0 s \<Longrightarrow> P p0 \<Longrightarrow> P (sys_peer s)"
proof (induction rule: reachable.induct)
  case (reachable_step s s')
  from \<open>peer_step w s s'\<close> reachable_step.IH [OF reachable_step.prems] show ?case
    by (cases rule: peer_step.cases) (simp, blast intro: step_keeps)+
qed simp

end


section \<open>Failure marks\<close>

lemma next_node_server:
  "next_node ring m = Ok (Some n) \<Longrightarrow> n \<in> get_all_servers ring"
proof -
  assume "next_node ring m = Ok (Some n)"
  then obtain start e where e: "List.find (\<lambda>(_, u). u \<noteq> m) (bt_range_from start (hr_ring ring) @ hr_ring ring) = Some e"
      "snd e = n"
    by (auto simp: next_node_def bind_res_Ok_iff split: if_splits list.splits)
  then have "e \<in> set (bt_range_from start (hr_ring ring) @ hr_ring ring)"
    by (metis find_Some_iff nth_mem)
  with e(2) show ?thesis by (auto simp: get_all_servers_def bt_range_from_def)
qed

definition all_marked :: "failure_table \<Rightarrow> bool" where
  "all_marked table \<longleftrightarrow> list_all (failed \<circ> snd) table"

lemma all_marked_available: "all_marked table \<Longrightarrow> is_available table u"
  by (force simp: all_marked_def list_all_iff is_available_def split: option.split dest: map_of_SomeD)

lemma all_marked_ops:
  "all_marked table \<Longrightarrow> all_marked (mark_failure now table u)"
  "all_marked table \<Longrightarrow> all_marked (clear_failure table u)"
proof -
  have upd: "set (hm_insert u e t) \<subseteq> insert (u, e) (set t)" for e and t :: failure_table
    by (induction t) auto
  show "all_marked table \<Longrightarrow> all_marked (mark_failure now table u)"
    unfolding all_marked_def list_all_iff mark_failure_def
    by (auto split: option.splits dest!: subsetD [OF upd])
  show "all_marked table \<Longrightarrow> all_marked (clear_failure table u)"
    by (auto simp: all_marked_def list_all_iff clear_failure_def AList.delete_eq)
qed

interpretation marks: step_stable "\<lambda>p :: 'b peer. all_marked (p_failure p)"
  by unfold_locales (simp_all add: all_marked_ops)


section \<open>The search for a stand-in\<close>

lemma next_available_induct:
  assumes "next_available_loop ring available s current = Some y"
    and "\<And>current y. (case next_node ring current of
            Inl e \<Rightarrow> y = Inl e
          | Inr None \<Rightarrow> y = Err (Fail ''no available nodes'')
          | Inr (Some next) \<Rightarrow>
              if available next then y = Ok next
              else if next = s then y = Err (Fail ''no available nodes'') else Q next y) \<Longrightarrow> Q current y"
  shows "Q current y"
proof -
  let ?P = "\<lambda>ring' available' s' current y. ring' = ring \<longrightarrow> available' = available \<longrightarrow> s' = s \<longrightarrow> Q current y"
  have "?P ring available s current y"
  proof (rule next_available_loop.raw_induct [where P = ?P, OF _ assms(1)], intro impI, goal_cases)
    case (1 loop ring' available' s' current y)
    then show ?case
      by (intro assms(2)) (cases "next_node ring current" rule: sum.exhaust; auto split: option.splits if_splits)
  qed
  then show ?thesis by simp
qed


section \<open>The storage stays well formed\<close>

fun msg_lists_wf :: "msg \<Rightarrow> bool" where
  "msg_lists_wf (AckList _ l) = sl_wf l"
| "msg_lists_wf (GetList l) = sl_wf l"
| "msg_lists_wf (PutList l) = sl_wf l"
| "msg_lists_wf (ReplicateList _ l _) = sl_wf l"
| "msg_lists_wf (MergeList l) = sl_wf l"
| "msg_lists_wf (Handoff _ l _) = sl_wf l"
| "msg_lists_wf _ = True"

lemma ss_writes_inv:
  assumes "ss_inv w s"
  shows "sl_wf l \<Longrightarrow> ss_write_shopping_list w r q s l = Ok s' \<Longrightarrow> ss_inv w s'"
    "sl_wf l \<Longrightarrow> ss_write_shopping_list_handoff w r q s l u = Ok s' \<Longrightarrow> ss_inv w s'"
    "ss_delete_shopping_list w q s i = Ok s' \<Longrightarrow> ss_inv w s'"
    "ss_get_shopping_list w q s i = Ok (Some l) \<Longrightarrow> sl_wf l"
    "comes_back (ss_get_all_rows w q s)"
proof -
  have ok: "ss_ok w s" using assms by (simp add: ss_inv_def)
  have q: "q" if "ss_write_shopping_list w r q s l = Ok s' \<or> ss_write_shopping_list_handoff w r q s l u = Ok s'"
    using that by (auto simp: ss_write_shopping_list_def ss_write_shopping_list_handoff_def Let_def
        split: option.splits if_splits)
  show "sl_wf l \<Longrightarrow> ss_write_shopping_list w r q s l = Ok s' \<Longrightarrow> ss_inv w s'"
    using ss.put_law [OF assms, of "(l, None)" r] q by (auto simp: ss_put_def)
  show "sl_wf l \<Longrightarrow> ss_write_shopping_list_handoff w r q s l u = Ok s' \<Longrightarrow> ss_inv w s'"
    using ss.put_law [OF assms, of "(l, Some u)" r] q by (auto simp: ss_put_def)
  show "ss_delete_shopping_list w q s i = Ok s' \<Longrightarrow> ss_inv w s'"
    using ss.del_law [OF assms, of i] by (cases q) (auto simp: ss_delete_shopping_list_def)
  show "ss_get_shopping_list w q s i = Ok (Some l) \<Longrightarrow> sl_wf l"
    by (rule stored_wf [OF assms])
  have "hash_of_row w r = Ok (from_be_bytes (blob_bytes (row_id r)), row_list w r)" if "r \<in> set (ss_rows s)" for r
    using row_ok_key [OF ss_ok_row [OF ok that]] row_ok_decodes [OF ss_ok_row [OF ok that]]
    by (simp add: hash_of_row_def list_key_def list_of_row_or_panic_def)
  then show "comes_back (ss_get_all_rows w q s)"
    by (simp add: ss_get_all_rows_def sqlite_error_def list_all_iff collect_res_map
        [where g = "\<lambda>r. (from_be_bytes (blob_bytes (row_id r)), row_list w r)"])
qed

interpretation stored: store_stable "\<lambda>p :: 'b peer. ss_inv w (p_storage p)" w sl_wf
  for w :: "('b, 'x) world_scheme"
proof (unfold_locales, goal_cases)
  case (11 a b) then show ?case by (rule sl_wf_merge)
qed (auto dest: ss_writes_inv intro: ss_writes_inv(5))


section \<open>Gossip\<close>

lemma act_for_stuck:
  assumes "x \<in> set xs" "Q s"
    and "\<And>y s. y \<in> set xs \<Longrightarrow> Q s \<Longrightarrow> snd (f y s) = Err e \<or> (snd (f y s) = Ok () \<and> Q (fst (f y s)))"
    and "\<And>s. Q s \<Longrightarrow> snd (f x s) = Err e"
  shows "snd (act_for xs f s) = Err e"
  using assms(1-3)
proof (induction xs arbitrary: s)
  case (Cons y ys)
  from Cons.prems(3) [of y s] Cons.prems(2)
  consider "snd (f y s) = Err e" | "snd (f y s) = Ok ()" "Q (fst (f y s))" by auto
  then show ?case
  proof cases
    case 2
    then have "x \<in> set ys" using Cons.prems(1) assms(4) [OF Cons.prems(2)] by auto
    with 2 Cons show ?thesis by (simp add: act_run)
  qed (simp add: act_run)
qed simp

lemma act_for_Cons_Ok:
  "act_for (x # xs) f s = (s', Ok ()) \<longleftrightarrow> (\<exists>s1. f x s = (s1, Ok ()) \<and> act_for xs f s1 = (s', Ok ()))"
  by (auto simp: act_bind_apply split: sum.splits) (metis prod.collapse)

interpretation tables: network_stable "\<lambda>p :: 'b peer. p_membership p = m \<and> p_hashring p = r" for m r
  by unfold_locales simp_all

lemma send_old_data_tables:
  "p_membership (fst (send_old_data w held u p)) = p_membership p"
  "p_hashring (fst (send_old_data w held u p)) = p_hashring p"
  using keepsD [OF tables.keeps_send_old_data [where m = "p_membership p" and r = "p_hashring p"], of p w held u]
  by simp_all

lemma gossip_loop:
  assumes "act_for es (\<lambda>(u, addr).
      act_seq (act_modify (\<lambda>p. p\<lparr>p_membership := membership_insert (p_membership p) u addr\<rparr>))
        (if u \<in> preds then send_old_data w held u else act_ret ())) p = (p', Ok ())"
    and "distinct (map fst es)"
  shows "hm_get (p_membership p') v =
      (case map_of es v of Some addr \<Rightarrow> Some addr | None \<Rightarrow> hm_get (p_membership p) v) \<and>
    p_hashring p' = p_hashring p"
  using assms
proof (induction es arbitrary: p)
  case (Cons e es)
  obtain u addr where e: "e = (u, addr)" by force
  let ?q = "p\<lparr>p_membership := membership_insert (p_membership p) u addr\<rparr>"
  let ?f = "\<lambda>(u, addr). act_seq (act_modify (\<lambda>p. p\<lparr>p_membership := membership_insert (p_membership p) u addr\<rparr>))
      (if u \<in> preds then send_old_data w held u else act_ret ())"
  obtain p1 where run: "?f e p = (p1, Ok ())" "act_for es ?f p1 = (p', Ok ())"
    using Cons.prems(1) unfolding act_for_Cons_Ok by blast
  then have p1: "(if u \<in> preds then send_old_data w held u else act_ret ()) ?q = (p1, Ok ())"
    by (simp add: e act_run)
  have tabs: "p_membership p1 = membership_insert (p_membership p) u addr" "p_hashring p1 = p_hashring p"
    using p1 send_old_data_tables [of w held u ?q] by (auto split: if_splits)
  have "map_of es u = None" using Cons.prems(2) by (simp add: e map_of_eq_None_iff)
  with Cons.IH [OF run(2)] Cons.prems(2) tabs show ?case
    by (auto simp: e membership_insert_def split: option.split)
qed simp

lemma gossip_tables:
  assumes "handle_incoming w [] u (Gossip table) p = (p', Ok ())" "hm_wf table"
  shows "hm_get (p_membership p') v =
      (case hm_get (p_membership p) v of Some addr \<Rightarrow> Some addr | None \<Rightarrow> hm_get table v)"
    "p_hashring p' = foldl (add_node w) (p_hashring p) (hm_keys table)"
proof -
  let ?m = "p_membership p"
  let ?r = "foldl (add_node w) (p_hashring p) (hm_keys table)"
  let ?new = "filter (\<lambda>(u, _). \<not> hm_contains ?m u) table"
  have new: "distinct (map fst ?new)"
    using assms(2) by (auto simp: hm_wf_def distinct_map inj_on_def)
  have get_new: "map_of ?new v = (if hm_contains ?m v then None else hm_get table v)"
    by (induction table) auto
  have "act_for ?new (\<lambda>(u, addr).
      act_seq (act_modify (\<lambda>p. p\<lparr>p_membership := membership_insert (p_membership p) u addr\<rparr>))
        (if u \<in> set (get_predecessors ?r (p_uuid p)) then send_old_data w [L_membership] u
         else act_ret ())) (p\<lparr>p_hashring := ?r\<rparr>) = (p', Ok ())"
    using assms(1) by (simp add: handle_incoming_def handle_gossip_def add_nodes_def act_run)
  from gossip_loop [OF this new, of v] get_new
  show "hm_get (p_membership p') v = (case hm_get ?m v of Some addr \<Rightarrow> Some addr | None \<Rightarrow> hm_get table v)"
    "p_hashring p' = ?r"
    by (auto simp: hm_contains_def split: option.splits)
qed

lemma send_to_deadlocks:
  "L_membership \<in> set held \<Longrightarrow> send_to w held u m p = (p, Err Deadlock)"
  by (simp add: send_to_def connect_to_peer_def act_run)

lemma send_old_data_deadlocks:
  assumes "reliable w" "ss_ok w (p_storage q)" "prev_node_hash (p_hashring q) (p_uuid q) = Some h"
    and "\<not> h < ring_hash w (uuid_to_string w (p_uuid q))"
    and "row \<in> set (ss_rows (p_storage q))" "hinted_handoff row = None"
  shows "snd (send_old_data w [L_membership] n q) = Err Deadlock"
proof -
  obtain l ls where ls: "ss_get_old_data w True (p_storage q) (p_uuid q) h = Ok (l # ls)"
  proof (cases "filter (\<lambda>r. hinted_handoff r = None) (ss_rows (p_storage q))")
    case Nil
    with assms(5,6) show ?thesis by (auto simp: filter_empty_conv)
  next
    case (Cons r rs)
    with old_data_rows [OF assms(2), of "p_uuid q" h] assms(4) show ?thesis by (auto intro!: that)
  qed
  then show ?thesis
    using assms(1,3) by (simp add: send_old_data_def act_run storage_runs reliable_def
        send_to_deadlocks act_ignore_apply)
qed


section \<open>The hand-off round\<close>

interpretation kept_storage: network_stable "\<lambda>p :: 'b peer. p_storage p = s" for s
  by unfold_locales simp_all

interpretation stays: network_stable "\<lambda>p :: 'b peer. v \<in> fst ` set (p_membership p)" for v
  by unfold_locales simp_all

text \<open>What was sent since the log was \<open>base\<close>.\<close>

definition sent_since :: "(uuid option \<times> string \<times> msg) list \<Rightarrow> (uuid option \<times> string \<times> msg) set \<Rightarrow> 'b peer \<Rightarrow> bool" where
  "sent_since base l p \<longleftrightarrow> (\<exists>new. p_sent p = base @ new \<and> l \<subseteq> set new)"

interpretation since: tables_stable "sent_since base l :: 'b peer \<Rightarrow> bool" for base l
  by unfold_locales (auto simp: sent_since_def)

lemma sent_since_refl: "sent_since (p_sent p) {} p"
  by (simp add: sent_since_def)

lemma send_to_sent:
  assumes "send_to w held u m p = (p', Ok ())"
  shows "\<exists>addr. sent_since (p_sent p) {(Some u, addr, m)} p'"
proof -
  have no: "act_seq c (act_err e) q \<noteq> (q', Ok ())" for c :: "('a peer, unit) act" and e q q'
    by (simp add: act_bind_apply split: sum.split)
  have no2: "act_seq c (act_seq d (act_err e)) q \<noteq> (q', Ok ())" for c d :: "('a peer, unit) act" and e q q'
    by (simp add: act_bind_apply split: sum.split)
  have zmq: "keeps (\<lambda>q. p_sent q = p_sent p) (zmq_call w)"
    by (simp add: keeps_def zmq_call_run)
  then have connect: "keeps (\<lambda>q. p_sent q = p_sent p) (connect_to_peer w held u)"
    unfolding connect_to_peer_def by (intro keeps_intros)
  obtain s1 s2 q2 socket where chain: "connect_to_peer w held u p = (s1, Ok socket)"
      "zmq_call w s1 = (s2, Ok ())" "zmq_call w s2 = (q2, Ok ())" and q2: "act_seq (log_sent (Some u) socket m)
      (act_seq (clear_peer_failure held u) (close_conn w held u socket)) q2 = (p', Ok ())"
    using assms unfolding send_to_def by (elim act_try_case_Ok) (auto simp: no no2)
  have "p_sent s1 = p_sent p" using keeps_result [OF connect refl chain(1)] .
  from keeps_result [OF zmq this chain(2)] have "p_sent s2 = p_sent p" .
  from keeps_result [OF zmq this chain(3)] have sent: "p_sent q2 = p_sent p" .
  from q2
  have "act_seq (clear_peer_failure held u) (close_conn w held u socket)
      (q2\<lparr>p_sent := p_sent q2 @ [(Some u, socket, m)]\<rparr>) = (p', Ok ())"
    by (simp add: log_sent_def act_run)
  from keeps_result [OF keeps_bind [OF since.keeps_clear since.keeps_close] _ this,
      of "p_sent p" "{(Some u, socket, m)}"]
  show ?thesis by (auto simp: sent_since_def sent)
qed

text \<open>What a round may do to the table: rows disappear only under the keys of lists it has sent.\<close>

definition key_sent ::
    "('b, 'x) world_scheme \<Rightarrow> (uuid \<times> shopping_list) list \<Rightarrow> (uuid option \<times> string \<times> msg) list \<Rightarrow> blob \<Rightarrow> bool" where
  "key_sent w hs new k \<longleftrightarrow> (\<exists>(dest, lst) \<in> set hs. list_key w (sl_id lst) = k \<and>
     (\<exists>addr i. (Some dest, addr, ReplicateList i lst True) \<in> set new))"

definition handed_over ::
    "('b, 'x) world_scheme \<Rightarrow> (uuid \<times> shopping_list) list \<Rightarrow> 'b peer \<Rightarrow> 'b peer \<Rightarrow> bool" where
  "handed_over w hs p p' \<longleftrightarrow> (ss_inv w (p_storage p) \<longrightarrow> ss_inv w (p_storage p') \<and>
     (\<exists>new. p_sent p' = p_sent p @ new \<and>
       (\<forall>k. ss_lookup w (p_storage p') k = ss_lookup w (p_storage p) k \<or> key_sent w hs new k)))"

lemma key_sent_append: "key_sent w hs (xs @ ys) k \<longleftrightarrow> key_sent w hs xs k \<or> key_sent w hs ys k"
  by (fastforce simp: key_sent_def)

lemma handed_over_refl: "handed_over w hs p p"
  by (simp add: handed_over_def)

lemma handed_over_trans: "handed_over w hs a b \<Longrightarrow> handed_over w hs b c \<Longrightarrow> handed_over w hs a c"
  unfolding handed_over_def by (auto simp: key_sent_append) metis

lemma handoff_entry:
  assumes "(dest, lst) \<in> set hs"
  shows "handed_over w hs p (fst (act_bind (world_tick (w_new_uuid w)) (\<lambda>u.
     act_bind (act_try (send_to w [] dest (ReplicateList (uuid_to_string w u) lst True))) (\<lambda>r.
     case r of Inr _ \<Rightarrow> act_ignore (storage_delete w [] (sl_id lst)) | Inl _ \<Rightarrow> act_ret ())) p))"
proof -
  let ?m = "ReplicateList (uuid_to_string w (w_new_uuid w (p_tick p))) lst True"
  let ?p1 = "p\<lparr>p_tick := p_tick p + 1\<rparr>"
  obtain p2 r where p2: "send_to w [] dest ?m ?p1 = (p2, r)" by force
  have kept: "p_storage p2 = p_storage p" "sent_since (p_sent p) {} p2"
    using keeps_result [OF kept_storage.keeps_send_to _ p2]
      keeps_result [OF since.keeps_send_to _ p2, of "p_sent p" "{}"]
    by (auto simp: sent_since_def)
  show ?thesis
  proof (cases r)
    case (Inl e)
    with p2 kept show ?thesis
      by (cases e) (auto simp: handed_over_def act_run sent_since_def)
  next
    case (Inr x)
    then obtain addr new where sent: "p_sent p2 = p_sent p @ new" "(Some dest, addr, ?m) \<in> set new"
      using send_to_sent [of w "[]" dest ?m ?p1 p2] p2 by (auto simp: sent_since_def)
    let ?p3 = "fst (storage_delete w [] (sl_id lst) p2)"
    have sent3: "p_sent ?p3 = p_sent p @ new"
      by (simp add: storage_runs sent(1) split: sum.split)
    have key: "key_sent w hs new (list_key w (sl_id lst))"
      using assms sent(2) unfolding key_sent_def by blast
    have del: "ss_inv w (p_storage ?p3) \<and> (\<forall>k. k \<noteq> list_key w (sl_id lst) \<longrightarrow>
          ss_lookup w (p_storage ?p3) k = ss_lookup w (p_storage p) k)"
      if "ss_inv w (p_storage p)"
    proof (cases "w_sql_ok w (p_tick p2)")
      case True
      with ss.del_law [OF that, of "sl_id lst"] kept(1) show ?thesis by (auto simp: storage_runs)
    next
      case False
      with that kept(1) show ?thesis by (simp add: storage_runs ss_delete_shopping_list_def)
    qed
    have "handed_over w hs p ?p3"
      unfolding handed_over_def sent3
    proof (intro impI conjI exI [of _ new] allI)
      fix k
      assume inv: "ss_inv w (p_storage p)"
      then show "ss_inv w (p_storage ?p3)" using del by blast
      show "ss_lookup w (p_storage ?p3) k = ss_lookup w (p_storage p) k \<or> key_sent w hs new k"
        using del [OF inv] key by (cases "k = list_key w (sl_id lst)") simp_all
    qed simp
    with p2 Inr show ?thesis by (simp add: act_run)
  qed
qed

lemma handoff_round_run:
  assumes "ss_inv w (p_storage p)" "hinted_handoff_round w [] p = (p', r)"
    and "ss_get_hinted_handoffs w (w_sql_ok w (p_tick p)) (p_storage p) = Ok handoffs"
  shows "handed_over w handoffs p p'"
proof -
  let ?body = "\<lambda>(dest, lst). act_bind (world_tick (w_new_uuid w)) (\<lambda>u.
     act_bind (act_try (send_to w [] dest (ReplicateList (uuid_to_string w u) lst True))) (\<lambda>r.
     case r of Inr _ \<Rightarrow> act_ignore (storage_delete w [] (sl_id lst)) | Inl _ \<Rightarrow> act_ret ()))"
  have "handed_over w handoffs q (fst (act_for handoffs ?body q))" for q
    by (rule act_for_rel [where R = "handed_over w handoffs"])
      (auto intro: handoff_entry handed_over_trans handed_over_refl)
  moreover have "p' = fst (act_for handoffs ?body (p\<lparr>p_tick := p_tick p + 1\<rparr>))"
    using assms(2,3) by (simp add: hinted_handoff_round_def act_bind_apply storage_runs)
  ultimately have "handed_over w handoffs (p\<lparr>p_tick := p_tick p + 1\<rparr>) p'" by simp
  then show ?thesis unfolding handed_over_def by simp
qed


section \<open>Joining and leaving\<close>

definition parse_round :: "('c \<Rightarrow> msg option) \<Rightarrow> 'c res \<times> 'c res \<times> 'c res \<Rightarrow> msg option" where
  "parse_round from_slice frames =
     (case frames of (Inr _, Inr _, Inr bytes) \<Rightarrow> from_slice bytes | _ \<Rightarrow> None)"

definition parsed_messages :: "('c \<Rightarrow> msg option) \<Rightarrow> ('c res \<times> 'c res \<times> 'c res) list \<Rightarrow> msg list" where
  "parsed_messages from_slice rounds = List.map_filter (parse_round from_slice) rounds"

lemma join_receive_last:
  "join_receive from_slice rounds buf =
     (case rev (parsed_messages from_slice rounds) of [] \<Rightarrow> buf | m # _ \<Rightarrow> Some m)"
proof (induction from_slice rounds buf rule: join_receive.induct)
  case (2 from_slice identity delimiter data rounds buf)
  have "(case rev (parsed_messages from_slice ((identity, delimiter, data) # rounds)) of
      [] \<Rightarrow> buf | m # _ \<Rightarrow> Some m) =
    (case rev (parsed_messages from_slice rounds) of
       [] \<Rightarrow> (case parse_round from_slice (identity, delimiter, data) of None \<Rightarrow> buf | Some m \<Rightarrow> Some m)
     | m # _ \<Rightarrow> Some m)"
    by (cases "rev (parsed_messages from_slice rounds)")
      (auto simp: parsed_messages_def map_filter_simps split: option.split)
  with 2 show ?case
    by (auto simp: parse_round_def split: sum.split option.split)
qed (simp add: parsed_messages_def map_filter_simps)

text \<open>One row of the loop of \<open>leave\<close>, with the locks the loop holds.\<close>

definition leave_row :: "('b, 'x) world_scheme \<Rightarrow> u128 \<times> shopping_list \<Rightarrow> ('b peer, unit) act" where
  "leave_row w = (\<lambda>(hash, lst).
     act_bind (act_gets (\<lambda>p. get_preference_list_hash (p_hashring p) hash)) (\<lambda>preference_list.
     case preference_list of
       [] \<Rightarrow> act_ret ()
     | u # _ \<Rightarrow> leave_send w [L_storage, L_hashring] u (ReplicateList [] lst True) 0))"

lemma leave_loop:
  assumes "reliable w"
  shows "(\<And>l u. l \<in> set ls \<Longrightarrow> get_coordinator w (p_hashring q) (sl_id l) = Some u \<Longrightarrow> hm_contains (p_membership q) u) \<Longrightarrow>
    \<exists>q'. act_for (map (\<lambda>l. (ring_hash w (uuid_to_string w (sl_id l)), l)) ls) (leave_row w) q = (q', Ok ()) \<and>
      p_hashring q' = p_hashring q \<and> p_storage q' = p_storage q \<and>
      p_sent q' = p_sent q @ List.map_filter (\<lambda>l. map_option (\<lambda>u.
        (Some u, the (hm_get (p_membership q) u), ReplicateList [] l True))
          (get_coordinator w (p_hashring q) (sl_id l))) ls"
proof (induction ls arbitrary: q)
  case (Cons l ls)
  have IH: "\<exists>q''. act_for (map (\<lambda>l. (ring_hash w (uuid_to_string w (sl_id l)), l)) ls) (leave_row w) q' = (q'', Ok ()) \<and>
      p_hashring q'' = p_hashring q \<and> p_storage q'' = p_storage q \<and>
      p_sent q'' = p_sent q' @ List.map_filter (\<lambda>l. map_option (\<lambda>u.
        (Some u, the (hm_get (p_membership q) u), ReplicateList [] l True))
          (get_coordinator w (p_hashring q) (sl_id l))) ls"
    if "p_hashring q' = p_hashring q" "p_storage q' = p_storage q" "p_membership q' = p_membership q" for q'
    using Cons.IH [of q'] Cons.prems that by auto
  show ?case
  proof (cases "get_coordinator w (p_hashring q) (sl_id l)")
    case None
    then have "leave_row w (ring_hash w (uuid_to_string w (sl_id l)), l) q = (q, Ok ())"
      by (auto simp: leave_row_def act_run preference_list_via_hash get_coordinator_def split: list.splits)
    with IH [of q] None show ?thesis by (simp add: act_run map_filter_simps)
  next
    case (Some u)
    then obtain us where us: "get_preference_list_hash (p_hashring q) (ring_hash w (uuid_to_string w (sl_id l))) = u # us"
      by (auto simp: preference_list_via_hash get_coordinator_def split: list.splits)
    obtain addr where addr: "hm_get (p_membership q) u = Some addr"
      using Cons.prems [of l u] Some by (auto simp: hm_contains_def)
    let ?q = "after_send u addr (ReplicateList [] l True) q"
    have "leave_send w [L_storage, L_hashring] u (ReplicateList [] l True) 0 q = (?q, Ok ())"
      using send_to_reliable [OF assms addr] by (subst leave_send.simps) (simp add: act_run)
    then have "leave_row w (ring_hash w (uuid_to_string w (sl_id l)), l) q = (?q, Ok ())"
      using us by (simp add: leave_row_def act_run)
    with IH [of ?q] Some addr show ?thesis
      by (simp add: act_run map_filter_simps after_send_def)
  qed
qed (simp add: map_filter_simps)


section \<open>Properties\<close>

text \<open>C32: Marking a peer as failed never makes it unavailable. In every reachable state every peer of
  the membership table counts as available, marked or not (the test reads the mark the wrong way
  round, and no mark says \<open>failed = false\<close>).\<close>

theorem failed_peers_count_as_available:
  assumes "reachable w (peer_new w u addr st) s"
  shows "peer_reachable (sys_peer s) v \<longleftrightarrow> hm_contains (p_membership (sys_peer s)) v"
proof -
  have "all_marked (p_failure (sys_peer s))"
    by (rule marks.reachable_keeps [OF assms]) (simp add: peer_new_def failure_table_new_def all_marked_def)
  then show ?thesis by (simp add: peer_reachable_def all_marked_available)
qed

text \<open>The search for a stand-in is sound: the node it returns is a server of the ring and available.
  Nothing keeps it from being a replica that was already asked, or the coordinator itself.\<close>

lemma next_available_sound:
  assumes "next_available_loop ring available s current = Some (Ok n)"
  shows "available n \<and> n \<in> get_all_servers ring"
proof -
  have "\<forall>k. Ok n = Ok k \<longrightarrow> available k \<and> k \<in> get_all_servers ring"
    by (rule next_available_induct [OF assms, where Q = "\<lambda>_ y. \<forall>k. y = Ok k \<longrightarrow>
          available k \<and> k \<in> get_all_servers ring"])
      (auto split: sum.splits option.splits if_splits dest: next_node_server)
  then show ?thesis by simp
qed

lemma next_available_sound_witness:
  "\<exists>n. next_available_loop (p_hashring sample_member) (\<lambda>u. u = 2) 1 1 = Some (Ok n) \<and> n = 2"
proof -
  have "next_available_loop (p_hashring sample_member) (\<lambda>u. u = 2) 1 1 = Some (Ok 2)"
    by (subst next_available_loop.simps)
      (simp add: sample_member_def next_node_def vnodes_of_def checked_add_one_u128 bt_range_from_def)
  with next_available_sound [OF this] show ?thesis by blast
qed

text \<open>C33: The search need not end: from a node whose successors cycle through unavailable nodes
  without passing the starting node it never returns.\<close>

theorem next_available_may_not_end:
  assumes "current \<in> A" "s \<notin> A" "\<And>n. n \<in> A \<Longrightarrow> \<not> available n"
    and "\<And>n. n \<in> A \<Longrightarrow> \<exists>m\<in>A. next_node ring n = Ok (Some m)"
  shows "next_available_loop ring available s current = None"
proof (rule ccontr)
  assume "next_available_loop ring available s current \<noteq> None"
  then obtain y where y: "next_available_loop ring available s current = Some y" by blast
  have "current \<notin> A"
  proof (rule next_available_induct [OF y, where Q = "\<lambda>n _. n \<notin> A"], rule notI, goal_cases)
    case (1 n y)
    from assms(4) [OF 1(2)] obtain m where "m \<in> A" "next_node ring n = Ok (Some m)" by blast
    with 1(1) assms(2,3) show False by (auto split: if_splits)
  qed
  with assms(1) show False by simp
qed

text \<open>C22: No message handler except the one for gossip can block its own thread, loop or panic, whatever
  fails around it: on a well-formed storage it comes back and leaves the storage well formed.\<close>

theorem handlers_come_back:
  assumes "ss_inv w (p_storage p)" "msg_lists_wf m" "\<And>t. m \<noteq> Gossip t"
  shows "comes_back (snd (handle_incoming w [] u m p)) \<and>
    ss_inv w (p_storage (fst (handle_incoming w [] u m p)))"
proof -
  have "safe (\<lambda>p. ss_inv w (p_storage p)) (handle_incoming w [] u m)"
    unfolding handle_incoming_def
    by (cases m) (use assms(2,3) in \<open>auto intro: safe_ignore stored.safe_leave stored.safe_hello
        stored.safe_replicate stored.safe_merge stored.safe_handoff stored.safe_ack\<close>)
  with assms(1) show ?thesis by (simp add: safe_def)
qed

theorem handlers_come_back_witness:
  "comes_back (snd (handle_incoming sample_world [] 9 (ReplicateList ''r'' milk_list True) sample_member))"
  using handlers_come_back [of sample_world sample_member "ReplicateList ''r'' milk_list True" 9] by simp

theorem next_available_may_not_end_witness:
  "next_available_loop \<lparr>hr_ring = [(5, 9), (10, 1), (20, 2), (30, 1)], hr_virtual_nodes = 3, hr_replicas = 3\<rparr>
     (\<lambda>u. u = 9) 9 1 = None"
proof (rule next_available_may_not_end [where A = "{1, 2}"])
  fix n :: uuid
  assume "n \<in> {1, 2}"
  then show "\<exists>m\<in>{1, 2}. next_node \<lparr>hr_ring = [(5, 9), (10, 1), (20, 2), (30, 1)],
      hr_virtual_nodes = 3, hr_replicas = 3\<rparr> n = Ok (Some m)"
    by (auto simp: next_node_def vnodes_of_def checked_add_one_u128 bt_range_from_def)
qed auto

text \<open>The sample world with a network that is down.\<close>

definition broken_world :: "shopping_list world" where
  "broken_world = sample_world\<lparr>w_zmq := \<lambda>_. Some ''down''\<rparr>"

theorem failed_peers_count_as_available_witness:
  "\<exists>s. reachable broken_world (peer_new broken_world 1 ''a'' \<lparr>ss_server_id = 1, ss_rows = []\<rparr>) s \<and>
     hm_get (p_failure (sys_peer s)) 5 = Some \<lparr>last_failure = 1, failed = True\<rparr> \<and>
     peer_reachable (sys_peer s) 5"
proof -
  let ?p = "peer_new broken_world 1 ''a'' \<lparr>ss_server_id = 1, ss_rows = []\<rparr> :: shopping_list peer"
  obtain p' r where hello: "handle_incoming broken_world [] 5 (Hello 5 ''e'') ?p = (p', r)" by force
  have p': "p_failure p' = [(5, \<lparr>last_failure = 1, failed = True\<rparr>)]" "hm_contains (p_membership p') 5"
    using hello by (auto simp: handle_incoming_def handle_hello_def act_run act_ignore_apply send_gossip_to_def
        send_gossip_def membership_insert_def hm_contains_def peer_new_def send_to_def connect_to_peer_def
        zmq_call_run mark_peer_failed_def broken_world_def failure_table_new_def mark_failure_def)
  have reach: "reachable broken_world ?p \<lparr>sys_peer = p', sys_wait = None, sys_log = [] @ [(5, Hello 5 ''e'')]\<rparr>"
    by (rule reachable_step [OF reachable_start step_message [OF hello]])
  show ?thesis
    using failed_peers_count_as_available [OF reach, of 5] p' reach by fastforce
qed

text \<open>Gossip that is handled to the end merges the tables: known members keep their address, new
  ones take the sender's, and every server of the table is put on the ring.\<close>

lemma gossip_merges_membership:
  assumes "handle_incoming w [] u (Gossip table) p = (p', Ok ())" "hm_wf table"
  shows "hm_get (p_membership p') v =
      (case hm_get (p_membership p) v of Some addr \<Rightarrow> Some addr | None \<Rightarrow> hm_get table v) \<and>
    p_hashring p' = foldl (add_node w) (p_hashring p) (hm_keys table)"
  using gossip_tables [OF assms] by simp

lemma gossip_merges_membership_witness:
  "hm_get (p_membership sample_member) 3 = Some ''c'' \<and>
   p_hashring sample_member = foldl (add_node sample_world) (p_hashring sample_peer) [2, 3]"
  using gossip_merges_membership [OF sample_gossip, of 3] by (simp add: sample_peer_eq)

lemma gossip_keeps_sent_and_storage:
  "keeps (\<lambda>q. p_sent q = s \<and> p_storage q = t) (handle_incoming w [] u (Gossip table))"
proof -
  let ?P = "\<lambda>q :: 'a peer. p_sent q = s \<and> p_storage q = t"
  have send: "keeps ?P (send_to w [L_membership] n m)" for n m
    by (simp add: keeps_def send_to_deadlocks)
  have old_lists: "keeps ?P (storage_old_data w [L_membership] n h)" for n h
    by (simp add: keeps_def storage_runs)
  show ?thesis
    unfolding handle_incoming_def handle_gossip_def add_nodes_def send_old_data_def msg.case
    by (intro keeps_intros send old_lists) auto
qed

lemma hello_makes_member: "v \<in> fst ` set (p_membership (fst (handle_incoming w [] v (Hello v addr) p)))"
proof -
  let ?P = "\<lambda>q :: 'a peer. v \<in> fst ` set (p_membership q)"
  let ?gossip = "act_seq (act_ignore (send_gossip_to w [] v)) (act_ignore (send_gossip w []))"
  have "keeps ?P ?gossip"
    by (intro keeps_intros stays.keeps_send_gossip_to stays.keeps_send_gossip)
  moreover have "?P (p\<lparr>p_membership := membership_insert (p_membership p) v addr\<rparr>)"
    by (simp add: membership_insert_def hm_keys_insert)
  ultimately have "?P (fst (?gossip (p\<lparr>p_membership := membership_insert (p_membership p) v addr\<rparr>)))"
    by (simp only: keeps_def)
  then show ?thesis by (simp add: handle_incoming_def handle_hello_def act_bind_apply)
qed

text \<open>C36: Gossip transfers no list to anyone: whatever servers it names, new or known, and whatever fails, a peer that
  handles gossip sends no message and leaves its storage as it was. Gossip that names members
  only, such as a joining server, which is a member once its \<open>Hello\<close> is handled, just adds them to the ring.\<close>

theorem gossip_transfers_nothing:
  assumes "handle_incoming w [] u (Gossip table) p = (p', r)"
  shows "p_sent p' = p_sent p \<and> p_storage p' = p_storage p \<and>
    (fst ` set table \<subseteq> fst ` set (p_membership p) \<longrightarrow>
      p' = p\<lparr>p_hashring := foldl (add_node w) (p_hashring p) (hm_keys table)\<rparr> \<and> r = Ok ()) \<and>
    v \<in> fst ` set (p_membership (fst (handle_incoming w [] v (Hello v addr) p)))"
proof (intro conjI impI)
  show "p_sent p' = p_sent p" "p_storage p' = p_storage p"
    using keeps_result [OF gossip_keeps_sent_and_storage _ assms, of "p_sent p" "p_storage p"] by simp_all
  show "v \<in> fst ` set (p_membership (fst (handle_incoming w [] v (Hello v addr) p)))"
    by (rule hello_makes_member)
next
  assume "fst ` set table \<subseteq> fst ` set (p_membership p)"
  then have "filter (\<lambda>(u, _). \<not> hm_contains (p_membership p) u) table = []"
    by (force simp: filter_empty_conv hm_contains_iff)
  then show "p' = p\<lparr>p_hashring := foldl (add_node w) (p_hashring p) (hm_keys table)\<rparr>" "r = Ok ()"
    using assms by (simp_all add: handle_incoming_def handle_gossip_def add_nodes_def act_run)
qed

theorem gossip_transfers_nothing_witness:
  "\<exists>p'. handle_incoming sample_world [] 2 (Gossip [(3, ''x''), (1, ''y'')]) sample_member = (p', Ok ()) \<and>
     p_sent p' = []"
proof -
  obtain p' r where run: "handle_incoming sample_world [] 2 (Gossip [(3, ''x''), (1, ''y'')]) sample_member = (p', r)" by force
  from gossip_transfers_nothing [OF run, of 3 "''x''"] show ?thesis
    using run by (simp add: sample_member_def)
qed

text \<open>C37: Gossip that names a new member which the ring makes a predecessor deadlocks as soon as there is
  a list to transfer: the handler holds the membership table while it sends, and sending locks it.\<close>

theorem gossip_transfer_deadlocks:
  assumes "reliable w" "ss_ok w (p_storage p)"
    and "(v, addr) \<in> set table" "\<not> hm_contains (p_membership p) v"
    and "ring = foldl (add_node w) (p_hashring p) (hm_keys table)"
    and "v \<in> set (get_predecessors ring (p_uuid p))"
    and "prev_node_hash ring (p_uuid p) = Some h" "\<not> h < ring_hash w (uuid_to_string w (p_uuid p))"
    and "row \<in> set (ss_rows (p_storage p))" "hinted_handoff row = None"
  shows "snd (handle_incoming w [] u (Gossip table) p) = Err Deadlock"
proof -
  let ?q = "p\<lparr>p_hashring := ring\<rparr>"
  let ?new = "filter (\<lambda>(u, _). \<not> hm_contains (p_membership p) u) table"
  have "snd (send_old_data w [L_membership] n q) = Err Deadlock"
    if "p_storage q = p_storage p" "p_hashring q = ring" "p_uuid q = p_uuid p" for q n
    by (rule send_old_data_deadlocks [of w q h row]) (use assms that in auto)
  then have "snd (act_for ?new (\<lambda>(u, addr).
      act_seq (act_modify (\<lambda>p. p\<lparr>p_membership := membership_insert (p_membership p) u addr\<rparr>))
        (if u \<in> set (get_predecessors ring (p_uuid p)) then send_old_data w [L_membership] u else act_ret ())) ?q)
      = Err Deadlock"
    by (intro act_for_stuck [where Q = "\<lambda>q. p_storage q = p_storage p \<and> p_hashring q = ring \<and> p_uuid q = p_uuid p"
        and x = "(v, addr)"]) (use assms(3,4,6) in \<open>auto simp: act_run\<close>)
  then show ?thesis
    using assms(5) by (simp add: handle_incoming_def handle_gossip_def add_nodes_def act_run)
qed

theorem gossip_transfer_deadlocks_witness:
  "snd (handle_incoming sample_world [] 2 (Gossip [(2, ''b''), (3, ''c'')])
     (sample_peer\<lparr>p_storage := \<lparr>ss_server_id = 1, ss_rows =
       [\<lparr>row_id = list_key sample_world 7, crdt_data = milk_list, hinted_handoff = None\<rparr>]\<rparr>\<rparr>)) = Err Deadlock"
proof (rule gossip_transfer_deadlocks [where v = 2 and addr = "''b''" and h = 5 and
      row = "\<lparr>row_id = list_key sample_world 7, crdt_data = milk_list, hinted_handoff = None\<rparr>", OF _ _ _ _ refl])
  show "ss_ok sample_world (p_storage (sample_peer\<lparr>p_storage := \<lparr>ss_server_id = 1, ss_rows =
      [\<lparr>row_id = list_key sample_world 7, crdt_data = milk_list, hinted_handoff = None\<rparr>]\<rparr>\<rparr>))"
    by (simp add: ss_ok_def row_ok_def)
qed (simp_all add: sample_peer_eq add_node_sample_world hm_contains_def get_predecessors_def
    prev_node_hash_def vnodes_of_def next_back_def bt_range_below_def)

text \<open>A round of failure detection deadlocks exactly when there is a failed peer to check: it holds
  the failure table while it pings, and every outcome of a send locks that table.\<close>

lemma failure_detection_deadlocks:
  "snd (failure_detection w [] p) = (if p_failure p = [] then Ok () else Err Deadlock)"
proof -
  have "snd (send_to w [L_failure] u m q) = Err Deadlock" for u m and q :: "'a peer"
    by (simp add: send_to_def connect_to_peer_def act_run mark_peer_failed_def clear_peer_failure_def
        zmq_call_run log_sent_def split: option.split)
  then show ?thesis
    by (cases "p_failure p") (simp_all add: failure_detection_def act_run send_ping_to_def act_ignore_apply)
qed

text \<open>C23: A hand-off round over a well-formed table whose held lists could be read loses no list: the messages it sends are added to those sent before, and what the table holds
  under a key after the round is what it held before, unless one of the messages of this very round carries a list with that
  key to the server the list was held for.\<close>

theorem handoff_round_loses_nothing:
  assumes "ss_inv w (p_storage p)" "hinted_handoff_round w [] p = (p', r)"
    and "ss_get_hinted_handoffs w (w_sql_ok w (p_tick p)) (p_storage p) = Ok handoffs"
  shows "\<exists>new. p_sent p' = p_sent p @ new \<and>
    (\<forall>k. ss_lookup w (p_storage p') k = ss_lookup w (p_storage p) k \<or>
      (\<exists>(dest, lst) \<in> set handoffs. list_key w (sl_id lst) = k \<and>
         (\<exists>addr i. (Some dest, addr, ReplicateList i lst True) \<in> set new)))"
  using handoff_round_run [OF assms] assms(1) by (simp add: handed_over_def key_sent_def)

theorem handoff_round_loses_nothing_witness:
  "\<exists>s p' r. ss_write_shopping_list_handoff sample_world True True \<lparr>ss_server_id = 1, ss_rows = []\<rparr> milk_list 2 = Ok s \<and>
     hinted_handoff_round sample_world [] (sample_member\<lparr>p_storage := s\<rparr>) = (p', r) \<and>
     (ss_lookup sample_world (p_storage p') (list_key sample_world 7) = ss_lookup sample_world s (list_key sample_world 7) \<or>
      (\<exists>addr i. (Some 2, addr, ReplicateList i milk_list True) \<in> set (p_sent p')))"
proof -
  let ?s = "\<lparr>ss_server_id = 1, ss_rows = [\<lparr>row_id = list_key sample_world 7, crdt_data = milk_list,
      hinted_handoff = Some ''xx''\<rparr>]\<rparr>"
  have written: "ss_write_shopping_list_handoff sample_world True True \<lparr>ss_server_id = 1, ss_rows = []\<rparr> milk_list 2 = Ok ?s"
    by (simp add: ss_write_shopping_list_handoff_def ss_merged_def ss_get_shopping_list_def
        insert_or_replace_def)
  have inv: "ss_inv sample_world ?s" by (simp add: ss_inv_def ss_ok_def row_ok_def)
  obtain p' r where run: "hinted_handoff_round sample_world [] (sample_member\<lparr>p_storage := ?s\<rparr>) = (p', r)" by force
  have "ss_get_hinted_handoffs sample_world True ?s = Ok [(2, milk_list)]"
    by (simp add: ss_get_hinted_handoffs_def handoff_of_row_def)
  with handoff_round_loses_nothing [OF _ run, of "[(2, milk_list)]"] inv
  obtain new where "p_sent p' = new"
    "ss_lookup sample_world (p_storage p') (list_key sample_world 7) = ss_lookup sample_world ?s (list_key sample_world 7) \<or>
      (\<exists>addr i. (Some 2, addr, ReplicateList i milk_list True) \<in> set new)"
    by auto
  with written run show ?thesis by blast
qed

text \<open>\<open>join\<close> waits out its whole timeout and acts on the last message it could parse: the membership
  table becomes the one of that message when it is gossip, and otherwise the join fails, also when a
  gossip message came first. The ring is not touched either way.\<close>

lemma join_takes_the_last_message:
  assumes "reliable w" "join w [] from_slice rounds seed p = (p', r)"
  shows "p_hashring p' = p_hashring p \<and>
    (case rev (parsed_messages from_slice rounds) of
       Gossip table # _ \<Rightarrow> r = Ok () \<and> p_membership p' = table
     | _ \<Rightarrow> (\<exists>e. r = Err (Fail e)) \<and> p_membership p' = p_membership p)"
proof -
  have "join_receive from_slice rounds None =
      (case rev (parsed_messages from_slice rounds) of [] \<Rightarrow> None | m # _ \<Rightarrow> Some m)"
    by (simp add: join_receive_last)
  with assms show ?thesis
    by (auto simp: join_def join_hello_def join_finish_def act_run zmq_call_run reliable_def log_sent_def
        split: list.splits msg.splits)
qed

lemma join_takes_the_last_message_witness:
  "snd (join sample_world [] (\<lambda>b. if b then Some (Gossip [(7, ''g'')]) else Some Ping)
     [(Ok True, Ok True, Ok True), (Ok True, Ok True, Ok False)] ''s'' sample_peer) \<noteq> Ok ()"
proof -
  obtain p' r where run: "join sample_world [] (\<lambda>b. if b then Some (Gossip [(7, ''g'')]) else Some Ping)
      [(Ok True, Ok True, Ok True), (Ok True, Ok True, Ok False)] ''s'' sample_peer = (p', r)" by force
  from join_takes_the_last_message [OF _ run] run show ?thesis
    by (auto simp: parsed_messages_def parse_round_def map_filter_simps)
qed

text \<open>C24: \<open>leave\<close> takes the server off its ring and, on a network that works, sends every list of its
  table to the first server of the list's new preference list, once and in table order; it deletes
  nothing.\<close>

theorem leave_hands_over_every_list:
  assumes "reliable w" "ss_ok w (p_storage p)"
    and "ring = remove_node w (p_hashring p) (p_uuid p)"
    and "rows = map (row_list w) (ss_rows (p_storage p))"
    and "\<And>l u. l \<in> set rows \<Longrightarrow> get_coordinator w ring (sl_id l) = Some u \<Longrightarrow> hm_contains (p_membership p) u"
  shows "\<exists>p'. leave w [] p = (p', Ok ()) \<and> p_hashring p' = ring \<and> p_storage p' = p_storage p \<and>
    p_sent p' = p_sent p @ List.map_filter (\<lambda>l. map_option (\<lambda>u.
      (Some u, the (hm_get (p_membership p) u), ReplicateList [] l True)) (get_coordinator w ring (sl_id l))) rows"
proof -
  let ?q = "p\<lparr>p_hashring := ring, p_tick := p_tick p + 1\<rparr>"
  have "ss_get_all_rows w True (p_storage p) = Ok (map (\<lambda>l. (ring_hash w (uuid_to_string w (sl_id l)), l)) rows)"
    using all_rows_hashes [OF assms(2)] by (simp add: assms(4) comp_def)
  then have "leave w [] p = act_for (map (\<lambda>l. (ring_hash w (uuid_to_string w (sl_id l)), l)) rows) (leave_row w) ?q"
    using assms(1,3) by (simp add: leave_def act_run storage_all_rows_run reliable_def leave_row_def)
  moreover obtain q' where q': "act_for (map (\<lambda>l. (ring_hash w (uuid_to_string w (sl_id l)), l)) rows) (leave_row w) ?q =
      (q', Ok ())" "p_hashring q' = ring" "p_storage q' = p_storage p"
      "p_sent q' = p_sent p @ List.map_filter (\<lambda>l. map_option (\<lambda>u.
      (Some u, the (hm_get (p_membership p) u), ReplicateList [] l True)) (get_coordinator w ring (sl_id l))) rows"
    using leave_loop [OF assms(1), of rows ?q] assms(5) by auto
  ultimately show ?thesis using q' by simp
qed

theorem leave_hands_over_every_list_witness:
  "\<exists>p'. leave sample_world [] (sample_member\<lparr>p_storage := \<lparr>ss_server_id = 1, ss_rows =
       [\<lparr>row_id = list_key sample_world 7, crdt_data = milk_list, hinted_handoff = None\<rparr>]\<rparr>\<rparr>) = (p', Ok ()) \<and>
     p_sent p' = [(Some 2, ''b'', ReplicateList [] milk_list True)]"
proof -
  let ?p = "sample_member\<lparr>p_storage := \<lparr>ss_server_id = 1, ss_rows =
       [\<lparr>row_id = list_key sample_world 7, crdt_data = milk_list, hinted_handoff = None\<rparr>]\<rparr>\<rparr>"
  have ring: "remove_node sample_world (p_hashring ?p) (p_uuid ?p) =
      \<lparr>hr_ring = [(4, 2), (5, 3)], hr_virtual_nodes = 3, hr_replicas = 3\<rparr>"
    by (simp add: remove_node_def sample_member_def vnode_hash_sample_world upt_rec)
  have coord: "get_coordinator sample_world \<lparr>hr_ring = [(4, 2), (5, 3)], hr_virtual_nodes = 3, hr_replicas = 3\<rparr> 7 = Some 2"
    by (simp add: get_coordinator_def get_preference_list_def bt_range_from_def)
  have "ss_ok sample_world (p_storage ?p)" by (simp add: ss_ok_def row_ok_def)
  from leave_hands_over_every_list [OF _ this ring [symmetric] refl] coord
  show ?thesis by (simp add: row_list_def hm_contains_def List.map_filter_def) blast
qed

end
