(* ===== verification/Peer_Lists.thy ===== *)
theory Peer_Lists
  imports Peer_Faults
begin

text \<open>
  What the messages that carry lists do to a peer's storage: replication, merging and hand-off, and
  what a peer that only receives messages of other peers promises its clients.
\<close>

text \<open>A replica that is asked to write.\<close>

lemma replica_run:
  assumes "\<And>t. w_zmq w t = None" "ss_inv w (p_storage p)" "sl_wf lst"
    and "hm_get (p_membership p) u = Some addr"
  shows "\<exists>p'. handle_incoming w [] u (ReplicateList i lst True) p = (p', Ok ()) \<and>
    (if w_sql_ok w (p_tick p + 1)
     then p_sent p' = p_sent p @ [(Some u, addr, Ack i)] \<and>
       (\<exists>got. ss_get_shopping_list w True (p_storage p') (sl_id lst) = Ok (Some got) \<and>
          sl_content got = sl_content lst)
     else p_sent p' = p_sent p \<and> p_storage p' = p_storage p)"
proof (cases "w_sql_ok w (p_tick p + 1)")
  case True
  obtain st got where st:
      "ss_write_shopping_list w (w_sql_ok w (p_tick p)) True (p_storage p) lst = Ok st"
      "ss_get_shopping_list w True st (sl_id lst) = Ok (Some got)" "sl_content got = sl_content lst"
    using server_stores [OF assms(2,3)] by blast
  have send: "send_to w [] u m q = (after_send u addr m q, Ok ())" if "p_membership q = p_membership p" for m q
    by (rule send_to_works) (use assms(1,4) that in auto)
  show ?thesis
    using True st by (simp add: handle_incoming_def handle_replicate_def act_run storage_runs send
        act_ignore_apply after_send_def)
next
  case False
  obtain data where "sl_to_json w lst = Some data"
    using assms(2,3) by (auto simp: ss_inv_def json_law_def)
  with False show ?thesis
    by (simp add: handle_incoming_def handle_replicate_def act_run storage_runs
        ss_write_shopping_list_def sqlite_error_def Let_def)
qed

text \<open>C25: A replica acknowledges a write only after it stored the list: on a working network the sender
  is sent one \<open>Ack\<close> with the request's id and the list is read back; when the write fails nothing is
  sent.\<close>

theorem replica_stores_then_acknowledges:
  assumes "\<And>t. w_zmq w t = None" "ss_inv w (p_storage p)" "sl_wf lst"
    and "hm_get (p_membership p) u = Some addr"
  shows "\<exists>p'. handle_incoming w [] u (ReplicateList i lst True) p = (p', Ok ()) \<and>
    (if w_sql_ok w (p_tick p + 1)
     then p_sent p' = p_sent p @ [(Some u, addr, Ack i)] \<and>
       (\<exists>got. ss_get_shopping_list w True (p_storage p') (sl_id lst) = Ok (Some got) \<and>
          sl_content got = sl_content lst)
     else p_sent p' = p_sent p \<and> p_storage p' = p_storage p)"
  using replica_run [OF assms] .

theorem replica_stores_then_acknowledges_witness:
  "\<exists>p'. handle_incoming sample_world [] 2 (ReplicateList ''r'' milk_list True) sample_member = (p', Ok ()) \<and>
     p_sent p' = [(Some 2, ''b'', Ack ''r'')]"
  using replica_stores_then_acknowledges [of sample_world sample_member milk_list 2 "''b''" "''r''"] by auto

text \<open>\<open>MergeList\<close> is the one message that merges into the table: afterwards the stored list is the
  merge of what was stored with the list of the message, or the list itself when nothing was stored.\<close>

lemma merge_message_merges:
  assumes "\<And>t. w_sql_ok w t" "ss_inv w (p_storage p)" "sl_wf lst"
    and "ss_get_shopping_list w True (p_storage p) (sl_id lst) = Ok stored"
  shows "\<exists>p' got. handle_incoming w [] u (MergeList lst) p = (p', Ok ()) \<and>
    (case stored of
       Some old \<Rightarrow> ss_get_shopping_list w True (p_storage p') (sl_id old) = Ok (Some got) \<and>
         sl_content got = sl_content (merge_list_into old lst)
     | None \<Rightarrow> ss_get_shopping_list w True (p_storage p') (sl_id lst) = Ok (Some got) \<and>
         sl_content got = sl_content lst)"
proof (cases stored)
  case None
  obtain st got where "ss_write_shopping_list w True True (p_storage p) lst = Ok st"
      "ss_get_shopping_list w True st (sl_id lst) = Ok (Some got)" "sl_content got = sl_content lst"
    using server_stores [OF assms(2,3)] by blast
  with None assms(1,4) show ?thesis
    by (simp add: handle_incoming_def handle_merge_def act_run storage_runs)
next
  case (Some old)
  have wf: "sl_wf (merge_list_into old lst)"
    using ss_writes_inv(4) [OF assms(2)] assms(3,4) by (auto simp: Some intro: sl_wf_merge)
  obtain st got where "ss_write_shopping_list w True True (p_storage p) (merge_list_into old lst) = Ok st"
      "ss_get_shopping_list w True st (sl_id (merge_list_into old lst)) = Ok (Some got)"
      "sl_content got = sl_content (merge_list_into old lst)"
    using server_stores [OF assms(2) wf] by blast
  with Some assms(1,4) show ?thesis
    by (simp add: handle_incoming_def handle_merge_def act_run storage_runs merge_list_into_def)
qed

lemma merge_message_merges_witness:
  "\<exists>p' got. handle_incoming sample_world [] 2 (MergeList tea_list)
      (sample_member\<lparr>p_storage := \<lparr>ss_server_id = 1, ss_rows =
        [\<lparr>row_id = list_key sample_world 7, crdt_data = milk_list, hinted_handoff = None\<rparr>]\<rparr>\<rparr>) = (p', Ok ()) \<and>
    ss_get_shopping_list sample_world True (p_storage p') 7 = Ok (Some got) \<and>
    sl_content got = sl_content (merge_list_into milk_list tea_list)"
  using merge_message_merges [of sample_world "sample_member\<lparr>p_storage := \<lparr>ss_server_id = 1, ss_rows =
        [\<lparr>row_id = list_key sample_world 7, crdt_data = milk_list, hinted_handoff = None\<rparr>]\<rparr>\<rparr>" tea_list
        "Some milk_list" 2]
  by (simp add: ss_inv_def ss_ok_def row_ok_def ss_get_shopping_list_def)

end
