(* ===== verification/Client_Storage.thy ===== *)
theory Client_Storage
  imports Server_Storage Action
begin

text \<open>
  \<open>ClientStorage\<close> of \<open>src/storage.rs\<close>: the client's SQLite database, in which a list is kept in
  relational form: its items in \<open>awormap_items\<close>, each with two rows of \<open>gcounter\<close>, whose entries per
  actor are in \<open>gcounter_actor_values\<close>; \<open>local_lists\<close> names the lists the user has made.

  As in \<open>Server_Storage\<close>, tables are lists of rows and whether the SQL statements of a call are
  carried out is an argument of the call; a call that fails leaves the tables as its last committed
  transaction left them. How \<open>rusqlite\<close> converts between \<open>u64\<close> and the 64-bit signed integers of SQLite is a
  parameter: both conversions may refuse. Row ids are the numbers \<open>AUTOINCREMENT\<close> hands out.
\<close>

record sql_lib = digest_lib +
  u64_to_sql :: "u64 \<Rightarrow> i64 option"
  u64_from_sql :: "i64 \<Rightarrow> u64 option"

record stored_item_row =
  si_item_id :: nat
  si_name :: string
  si_acquired_val :: u32
  si_acquired_clock :: u32
  si_acquired_actor :: string
  si_p_id :: nat
  si_n_id :: nat

text \<open>A row of \<open>awormap_items\<close>.\<close>

record item_row = stored_item_row +
  ir_list_id :: string

record client_storage =
  cs_client_id :: uuid
  cs_local_lists :: "string list"
  cs_gcounters :: "nat list"
  cs_next_gcounter :: nat
  cs_values :: "(nat \<times> string, i64) hash_map"
  cs_items :: "item_row list"
  cs_next_item :: nat
  cs_cached_lists :: "shopping_list list"


section \<open>Opening the database\<close>

text \<open>The client's id: the stored one, or a new one that is stored.\<close>

definition request_client_id ::
    "'x digest_lib_scheme \<Rightarrow> bool \<Rightarrow> uuid \<Rightarrow> string option \<Rightarrow> (uuid \<times> string option) res" where
  "request_client_id lib sql_ok fresh client_metadata =
     (if \<not> sql_ok then Err sqlite_error
      else case client_metadata of
        Some s \<Rightarrow> (case uuid_parse lib s of None \<Rightarrow> Err (Fail ''uuid error'') | Some u \<Rightarrow> Ok (u, Some s))
      | None \<Rightarrow> Ok (fresh, Some (uuid_to_string lib fresh)))"

text \<open>\<open>initialize_schema\<close> creates the tables that are missing: an absent database is an empty one.\<close>

definition initialize_schema :: "client_storage option \<Rightarrow> client_storage" where
  "initialize_schema on_disk =
     (case on_disk of
        Some s \<Rightarrow> s
      | None \<Rightarrow> \<lparr>cs_client_id = 0, cs_local_lists = [], cs_gcounters = [], cs_next_gcounter = 1,
          cs_values = [], cs_items = [], cs_next_item = 1, cs_cached_lists = []\<rparr>)"

definition cs_new ::
    "'x digest_lib_scheme \<Rightarrow> bool \<Rightarrow> uuid \<Rightarrow> string option \<Rightarrow> client_storage option \<Rightarrow>
     (client_storage \<times> string option) res" where
  "cs_new lib sql_ok fresh client_metadata on_disk =
     bind_res (request_client_id lib sql_ok fresh client_metadata) (\<lambda>(client_id, metadata).
       Ok ((initialize_schema on_disk)\<lparr>cs_client_id := client_id, cs_cached_lists := []\<rparr>, metadata))"


section \<open>Reading\<close>

fun read_gcounter_loop ::
    "'x sql_lib_scheme \<Rightarrow> ((nat \<times> string) \<times> i64) list \<Rightarrow> (uuid, u64) hash_map \<Rightarrow>
     (uuid, u64) hash_map res" where
  "read_gcounter_loop lib [] counter = Ok counter"
| "read_gcounter_loop lib (((_, actor), value) # rows) counter =
     (case u64_from_sql lib value of
        None \<Rightarrow> Err sqlite_error
      | Some v \<Rightarrow>
          (case uuid_parse lib actor of
             None \<Rightarrow> Err (Fail ''uuid error'')
           | Some actor_uuid \<Rightarrow> read_gcounter_loop lib rows (hm_insert actor_uuid v counter)))"

definition read_gcounter :: "'x sql_lib_scheme \<Rightarrow> client_storage \<Rightarrow> nat \<Rightarrow> gcounter res" where
  "read_gcounter lib s gid =
     bind_res (read_gcounter_loop lib (filter (\<lambda>((g, _), _). g = gid) (cs_values s)) [])
       (\<lambda>counter. Ok \<lparr>gc_counter = counter, gc_actor_id = cs_client_id s\<rparr>)"

definition build_item :: "'x sql_lib_scheme \<Rightarrow> client_storage \<Rightarrow> 'y stored_item_row_scheme \<Rightarrow> item res" where
  "build_item lib s row =
     bind_res (read_gcounter lib s (si_p_id row)) (\<lambda>p.
     bind_res (read_gcounter lib s (si_n_id row)) (\<lambda>n.
     (case uuid_parse lib (si_acquired_actor row) of
        None \<Rightarrow> Err (Fail ''uuid error'')
      | Some actor \<Rightarrow>
          Ok \<lparr>amount = \<lparr>pn_p = p, pn_n = n\<rparr>,
              acquired = lwwreg_new (si_acquired_val row) (si_acquired_clock row) actor\<rparr>)))"

definition find_row :: "client_storage \<Rightarrow> string \<Rightarrow> string \<Rightarrow> item_row option" where
  "find_row s list_id name = List.find (\<lambda>r. ir_list_id r = list_id \<and> si_name r = name) (cs_items s)"

definition read_item ::
    "'x sql_lib_scheme \<Rightarrow> bool \<Rightarrow> client_storage \<Rightarrow> string \<Rightarrow> uuid \<Rightarrow> item_row option res" where
  "read_item lib sql_ok s item_name shopping_list_id =
     (if sql_ok then Ok (find_row s (uuid_to_string lib shopping_list_id) item_name)
      else Err sqlite_error)"

fun read_list_loop ::
    "'x sql_lib_scheme \<Rightarrow> client_storage \<Rightarrow> item_row list \<Rightarrow> awormap \<Rightarrow> awormap res" where
  "read_list_loop lib s [] m = Ok m"
| "read_list_loop lib s (row # rows) m =
     bind_res (build_item lib s row) (\<lambda>i. read_list_loop lib s rows (awormap_insert m (si_name row) i))"

definition read_shopping_list ::
    "'x sql_lib_scheme \<Rightarrow> bool \<Rightarrow> client_storage \<Rightarrow> uuid \<Rightarrow> shopping_list res" where
  "read_shopping_list lib sql_ok s list_id =
     (if \<not> sql_ok then Err sqlite_error
      else bind_res (read_list_loop lib s
             (filter (\<lambda>r. ir_list_id r = uuid_to_string lib list_id) (cs_items s)) awormap_new)
           (\<lambda>m. Ok \<lparr>sl_id = list_id, sl_list = m\<rparr>))"

definition get_user_lists ::
    "'x sql_lib_scheme \<Rightarrow> bool \<Rightarrow> client_storage \<Rightarrow> shopping_list list option res" where
  "get_user_lists lib sql_ok s =
     (if \<not> sql_ok then Err sqlite_error
      else bind_res (collect_res (\<lambda>str. case uuid_parse lib str of
               None \<Rightarrow> Err (Fail ''uuid error'')
             | Some u \<Rightarrow> read_shopping_list lib sql_ok s u) (cs_local_lists s))
           (\<lambda>lists. Ok (if lists = [] then None else Some lists)))"


section \<open>Writing\<close>

definition ensure_list :: "'x digest_lib_scheme \<Rightarrow> bool \<Rightarrow> client_storage \<Rightarrow> uuid \<Rightarrow> client_storage res" where
  "ensure_list lib sql_ok s list_id =
     (if \<not> sql_ok then Err sqlite_error
      else if uuid_to_string lib list_id \<in> set (cs_local_lists s) then Ok s
      else Ok (s\<lparr>cs_local_lists := cs_local_lists s @ [uuid_to_string lib list_id]\<rparr>))"

text \<open>\<open>INSERT INTO gcounter DEFAULT VALUES\<close> and \<open>last_insert_rowid\<close>.\<close>

definition new_gcounter :: "client_storage \<Rightarrow> client_storage \<times> nat" where
  "new_gcounter s = (s\<lparr>cs_gcounters := cs_gcounters s @ [cs_next_gcounter s],
     cs_next_gcounter := cs_next_gcounter s + 1\<rparr>, cs_next_gcounter s)"

text \<open>The three ways the values of a counter are written: a plain \<open>INSERT\<close>, which a second row with the
  same key makes fail; an upsert with the value cast to \<open>i64\<close>; and \<open>INSERT OR REPLACE\<close>.\<close>

fun insert_values ::
    "'x sql_lib_scheme \<Rightarrow> nat \<Rightarrow> (uuid \<times> u64) list \<Rightarrow> client_storage \<Rightarrow> client_storage res" where
  "insert_values lib gid [] s = Ok s"
| "insert_values lib gid ((actor, count) # kvs) s =
     (case u64_to_sql lib count of
        None \<Rightarrow> Err sqlite_error
      | Some v \<Rightarrow>
          if hm_contains (cs_values s) (gid, uuid_to_string lib actor) then Err sqlite_error
          else insert_values lib gid kvs
                 (s\<lparr>cs_values := cs_values s @ [((gid, uuid_to_string lib actor), v)]\<rparr>))"

fun upsert_values ::
    "'x sql_lib_scheme \<Rightarrow> nat \<Rightarrow> (uuid \<times> u64) list \<Rightarrow> client_storage \<Rightarrow> client_storage" where
  "upsert_values lib gid [] s = s"
| "upsert_values lib gid ((actor_uuid, val_u64) # kvs) s =
     upsert_values lib gid kvs
       (s\<lparr>cs_values := hm_insert (gid, uuid_to_string lib actor_uuid) val_u64 (cs_values s)\<rparr>)"

fun replace_values ::
    "'x sql_lib_scheme \<Rightarrow> nat \<Rightarrow> (uuid \<times> u64) list \<Rightarrow> client_storage \<Rightarrow> client_storage res" where
  "replace_values lib gid [] s = Ok s"
| "replace_values lib gid ((actor, count) # kvs) s =
     (case u64_to_sql lib count of
        None \<Rightarrow> Err sqlite_error
      | Some v \<Rightarrow>
          replace_values lib gid kvs
            (s\<lparr>cs_values := hm_remove (gid, uuid_to_string lib actor) (cs_values s) @
                 [((gid, uuid_to_string lib actor), v)]\<rparr>))"

definition overwrite_item ::
    "'x sql_lib_scheme \<Rightarrow> bool \<Rightarrow> client_storage \<Rightarrow> item \<Rightarrow> nat \<Rightarrow> nat \<Rightarrow> nat \<Rightarrow> client_storage res" where
  "overwrite_item lib sql_ok s i item_id p_gcounter_id n_gcounter_id =
     (if \<not> sql_ok then Err sqlite_error
      else let s1 = s\<lparr>cs_items := map (\<lambda>r. if si_item_id r = item_id
                  then r\<lparr>si_acquired_val := lww_val (acquired i),
                         si_acquired_clock := lww_clock (acquired i),
                         si_acquired_actor := uuid_to_string lib (lww_actor (acquired i))\<rparr>
                  else r) (cs_items s)\<rparr>;
               s2 = upsert_values lib p_gcounter_id (gc_counter (pn_p (amount i))) s1
           in Ok (upsert_values lib n_gcounter_id (gc_counter (pn_n (amount i))) s2))"

definition item_row_of ::
    "'x digest_lib_scheme \<Rightarrow> nat \<Rightarrow> string \<Rightarrow> string \<Rightarrow> item \<Rightarrow> nat \<Rightarrow> nat \<Rightarrow> item_row" where
  "item_row_of lib item_id list_id name i p_id n_id =
     \<lparr>si_item_id = item_id, si_name = name, si_acquired_val = lww_val (acquired i),
      si_acquired_clock = lww_clock (acquired i),
      si_acquired_actor = uuid_to_string lib (lww_actor (acquired i)),
      si_p_id = p_id, si_n_id = n_id, ir_list_id = list_id\<rparr>"

definition write_item ::
    "'x sql_lib_scheme \<Rightarrow> bool \<Rightarrow> client_storage \<Rightarrow> string \<Rightarrow> item \<Rightarrow> string \<Rightarrow> client_storage res" where
  "write_item lib sql_ok s list_id i item_name =
     (if \<not> sql_ok then Err sqlite_error
      else let (s1, p_id) = new_gcounter s; (s2, n_id) = new_gcounter s1
           in bind_res (insert_values lib p_id (gc_counter (pn_p (amount i))) s2) (\<lambda>s3.
              bind_res (insert_values lib n_id (gc_counter (pn_n (amount i))) s3) (\<lambda>s4.
              if find_row s4 list_id item_name \<noteq> None then Err sqlite_error
              else Ok (s4\<lparr>cs_items := cs_items s4 @
                     [item_row_of lib (cs_next_item s4) list_id item_name i p_id n_id],
                   cs_next_item := cs_next_item s4 + 1\<rparr>))))"

text \<open>One round of the loop of \<open>write_shopping_list\<close>.\<close>

definition write_list_item ::
    "'x sql_lib_scheme \<Rightarrow> string \<Rightarrow> client_storage \<Rightarrow> string \<times> item \<Rightarrow> client_storage res" where
  "write_list_item lib list_id s e =
     (let (name, i) = e;
          (s1, p_id, n_id) = (case find_row s list_id name of
             Some r \<Rightarrow> (s, si_p_id r, si_n_id r)
           | None \<Rightarrow> (let (t, p) = new_gcounter s; (t', n) = new_gcounter t in (t', p, n)))
      in bind_res (replace_values lib p_id (gc_counter (pn_p (amount i))) s1) (\<lambda>s2.
         bind_res (replace_values lib n_id (gc_counter (pn_n (amount i))) s2) (\<lambda>s3.
         case find_row s3 list_id name of
           Some r \<Rightarrow> Ok (s3\<lparr>cs_items := map (\<lambda>r.
               if ir_list_id r = list_id \<and> si_name r = name
               then item_row_of lib (si_item_id r) list_id name i p_id n_id else r) (cs_items s3)\<rparr>)
         | None \<Rightarrow> Ok (s3\<lparr>cs_items := cs_items s3 @
               [item_row_of lib (cs_next_item s3) list_id name i p_id n_id],
             cs_next_item := cs_next_item s3 + 1\<rparr>))))"

definition write_shopping_list ::
    "'x sql_lib_scheme \<Rightarrow> bool \<Rightarrow> client_storage \<Rightarrow> shopping_list \<Rightarrow> client_storage res" where
  "write_shopping_list lib sql_ok s lst =
     (if \<not> sql_ok then Err sqlite_error
      else run_res (write_list_item lib (uuid_to_string lib (sl_id lst))) s (aw_items (sl_list lst)))"


section \<open>Requests of the user\<close>

text \<open>The item after the user has set its quantity and its status: the counters move by the
  difference, the register is written when the status changes. The change is made on a copy, which
  is merged back into the stored item.\<close>

definition update_item :: "uuid \<Rightarrow> u64 \<Rightarrow> bool \<Rightarrow> item \<Rightarrow> item res" where
  "update_item client_id quantity acq stored_item =
     bind_res (pncounter_value_total (amount stored_item)) (\<lambda>current_quantity.
     bind_res (checked_sub_i64 quantity current_quantity) (\<lambda>delta.
     bind_res (if sint delta > 0 then pncounter_inc_by (amount stored_item) delta
               else if sint delta < 0
               then bind_res (checked_neg_i64 delta) (\<lambda>d. pncounter_dec_by (amount stored_item) d)
               else Ok (amount stored_item)) (\<lambda>new_amount.
     bind_res (if bool_as_u32 acq \<noteq> lww_val (acquired stored_item)
               then bind_res (checked_add (lww_clock (acquired stored_item)) 1) (\<lambda>clock.
                      Ok (lwwreg_new (bool_as_u32 acq) clock client_id))
               else Ok (acquired stored_item)) (\<lambda>new_acquired.
     Ok (item_merge stored_item
           (stored_item\<lparr>amount := new_amount, acquired := new_acquired\<rparr>))))))"

definition handle_item_storage_request ::
    "'x sql_lib_scheme \<Rightarrow> bool \<Rightarrow> bool \<Rightarrow> bool \<Rightarrow> string \<Rightarrow> u64 \<Rightarrow> bool \<Rightarrow> uuid \<Rightarrow>
     (client_storage, unit) act" where
  "handle_item_storage_request lib ensure_ok read_ok write_ok item_name quantity acq list_id =
     act_bind (act_gets (\<lambda>s. ensure_list lib ensure_ok s list_id)) (\<lambda>ensured.
     act_bind (act_of_res ensured) (\<lambda>s1.
     act_seq (act_modify (\<lambda>_. s1))
    (act_bind (act_of_res (read_item lib read_ok s1 item_name list_id)) (\<lambda>item_opt.
     act_bind (act_of_res (case item_opt of
         Some row \<Rightarrow>
           bind_res (build_item lib s1 row) (\<lambda>stored_item.
           bind_res (update_item (cs_client_id s1) quantity acq stored_item) (\<lambda>updated.
           overwrite_item lib write_ok s1 updated (si_item_id row) (si_p_id row) (si_n_id row)))
       | None \<Rightarrow>
           write_item lib write_ok s1 (uuid_to_string lib list_id)
             (item_new quantity acq (cs_client_id s1)) item_name)) (\<lambda>s2.
     act_modify (\<lambda>_. s2))))))"

section \<open>What is assumed of the libraries, and the invariant of the tables\<close>

text \<open>\<open>rusqlite\<close> refuses a \<open>u64\<close> above \<open>i64::MAX\<close> and, reading, a negative integer.\<close>

definition sql_u64_law :: "'x sql_lib_scheme \<Rightarrow> bool" where
  "sql_u64_law lib \<longleftrightarrow>
     (\<forall>v. u64_to_sql lib v = (if unat v < 2 ^ 63 then Some v else None)) \<and>
     (\<forall>v. u64_from_sql lib v = (if sint v \<ge> 0 then Some v else None))"

lemma sint_nonneg: "sint (v :: i64) \<ge> 0 \<longleftrightarrow> unat v < 2 ^ 63"
proof
  assume "unat v < 2 ^ 63"
  then show "sint v \<ge> 0" by (simp add: sint_unat_small)
next
  assume nonneg: "sint v \<ge> 0"
  then have "sint v = uint v"
    using uint_sint [of v] sint_lt [of v] by (simp add: take_bit_int_eq_self)
  then have "int (unat v) < int (2 ^ 63)" using sint_lt [of v] by simp
  then show "unat v < 2 ^ 63" by (simp only: of_nat_less_iff)
qed

lemma to_string_eq [simp]:
  "uuid_law lib \<Longrightarrow> uuid_to_string lib u = uuid_to_string lib v \<longleftrightarrow> u = v"
  by (metis option.inject uuid_law_def)

definition small_counter :: "gcounter \<Rightarrow> bool" where
  "small_counter g \<longleftrightarrow> hm_wf (gc_counter g) \<and> list_all (\<lambda>v. unat v < 2 ^ 63) (hm_values (gc_counter g))"

definition values_ok :: "'x sql_lib_scheme \<Rightarrow> client_storage \<Rightarrow> bool" where
  "values_ok lib s \<longleftrightarrow> hm_wf (cs_values s) \<and>
     (\<forall>g a v. hm_get (cs_values s) (g, a) = Some v \<longrightarrow>
        unat v < 2 ^ 63 \<and> g < cs_next_gcounter s \<and> (\<exists>u. a = uuid_to_string lib u))"

text \<open>A counter as the table holds it.\<close>

definition counter_at :: "'x sql_lib_scheme \<Rightarrow> client_storage \<Rightarrow> nat \<Rightarrow> uuid \<Rightarrow> u64 option" where
  "counter_at lib s g u = hm_get (cs_values s) (g, uuid_to_string lib u)"

lemma read_loop_spec:
  assumes "sql_u64_law lib" "uuid_law lib"
  shows "\<lbrakk>distinct (map fst rows); \<forall>((g', a), v) \<in> set rows. g' = g \<and> unat v < 2 ^ 63 \<and> (\<exists>u. a = uuid_to_string lib u);
     hm_wf c\<rbrakk> \<Longrightarrow>
    \<exists>c'. read_gcounter_loop lib rows c = Ok c' \<and> hm_wf c' \<and>
      (\<forall>u. hm_get c' u = (case map_of rows (g, uuid_to_string lib u) of Some v \<Rightarrow> Some v | None \<Rightarrow> hm_get c u))"
proof (induction rows arbitrary: c)
  case (Cons row rows)
  obtain g' a v where row: "row = ((g', a), v)" by (metis prod.exhaust)
  obtain u where u: "g' = g" "unat v < 2 ^ 63" "a = uuid_to_string lib u"
    using Cons.prems(2) by (auto simp: row)
  have "map_of rows (g, a) = None"
    using Cons.prems(1) u(1) by (simp add: row map_of_eq_None_iff)
  moreover have "uuid_parse lib a = Some u" "u64_from_sql lib v = Some v"
    using assms u by (simp_all add: uuid_law_def sql_u64_law_def sint_nonneg)
  moreover obtain c' where "read_gcounter_loop lib rows (hm_insert u v c) = Ok c' \<and> hm_wf c' \<and>
      (\<forall>w. hm_get c' w = (case map_of rows (g, uuid_to_string lib w) of
         Some v \<Rightarrow> Some v | None \<Rightarrow> hm_get (hm_insert u v c) w))"
    using Cons.IH [of "hm_insert u v c"] Cons.prems by (auto simp: row)
  ultimately show ?case
    using assms(2) u by (auto simp: row split: option.split)
qed simp

lemma case_option_id: "(case x of None \<Rightarrow> hm_get [] k | Some v \<Rightarrow> Some v) = x"
  by (simp split: option.split)

lemma read_gcounter_spec:
  assumes "sql_u64_law lib" "uuid_law lib" "values_ok lib s"
  shows "\<exists>c. read_gcounter lib s g = Ok c \<and> gcounter_ok c \<and> gc_actor_id c = cs_client_id s \<and>
    gcounter_view c = counter_at lib s g \<and> small_counter c"
proof -
  let ?rows = "filter (\<lambda>((g', _), _). g' = g) (cs_values s)"
  have wf: "hm_wf (cs_values s)" using assms(3) by (simp add: values_ok_def)
  have get: "map_of (filter (\<lambda>((g', _), _). g' = g) m) (g, a) = hm_get m (g, a)"
    for a and m :: "(nat \<times> string, i64) hash_map"
    by (induction m) auto
  have rows: "distinct (map fst ?rows)"
    "\<forall>((g', a), v) \<in> set ?rows. g' = g \<and> unat v < 2 ^ 63 \<and> (\<exists>u. a = uuid_to_string lib u)"
    using assms(3) wf by (auto simp: values_ok_def hm_wf_def distinct_map inj_on_def)
  obtain c where c: "read_gcounter_loop lib ?rows [] = Ok c" "hm_wf c"
      "\<forall>u. hm_get c u = hm_get (cs_values s) (g, uuid_to_string lib u)"
    using read_loop_spec [OF assms(1,2) rows hm_wf_Nil] by (auto simp: get case_option_id)
  have "unat v < 2 ^ 63" if "(u, v) \<in> set c" for u v
    using that c(2,3) assms(3) by (auto simp: hm_get_in values_ok_def)
  with c show ?thesis
    by (auto simp: read_gcounter_def gcounter_ok_def gcounter_view_def counter_at_def small_counter_def
        list_all_iff)
qed

section \<open>Writing counters\<close>

text \<open>All three ways of writing set the entries of one counter and nothing else.\<close>

definition sets_values ::
    "'x sql_lib_scheme \<Rightarrow> nat \<Rightarrow> (uuid, u64) hash_map \<Rightarrow> client_storage \<Rightarrow> client_storage \<Rightarrow> bool" where
  "sets_values lib g kvs s s' \<longleftrightarrow> (\<exists>vs. s' = s\<lparr>cs_values := vs\<rparr> \<and>
     (values_ok lib s \<and> g < cs_next_gcounter s \<longrightarrow> values_ok lib s') \<and>
     (\<forall>g' u. counter_at lib s' g' u =
        (if g' = g then (case hm_get kvs u of Some v \<Rightarrow> Some v | None \<Rightarrow> counter_at lib s g u)
         else counter_at lib s g' u)))"

lemma sets_values_Nil [simp]: "sets_values lib g [] s s"
  unfolding sets_values_def by (intro exI [of _ "cs_values s"]) simp

lemma sets_values_Cons:
  assumes "uuid_law lib" "u \<notin> fst ` set kvs" "unat v < 2 ^ 63"
    and "hm_wf (cs_values s) \<longrightarrow> hm_wf vs" "hm_get vs = (hm_get (cs_values s))((g, uuid_to_string lib u) \<mapsto> v)"
    and "sets_values lib g kvs (s\<lparr>cs_values := vs\<rparr>) s'"
  shows "sets_values lib g ((u, v) # kvs) s s'"
proof -
  let ?s = "s\<lparr>cs_values := vs\<rparr>"
  have ok: "values_ok lib s \<and> g < cs_next_gcounter s \<longrightarrow> values_ok lib ?s"
    using assms(3-5) by (auto simp: values_ok_def)
  have at: "counter_at lib ?s g' u' = (if g' = g \<and> u' = u then Some v else counter_at lib s g' u')" for g' u'
    using assms(1,5) by (simp add: counter_at_def)
  have "hm_get kvs u = None" using assms(2) by (simp add: map_of_eq_None_iff)
  then show ?thesis
    using assms(6) ok unfolding sets_values_def at by (auto split: option.splits)
qed

lemma upsert_values_sets:
  "\<lbrakk>uuid_law lib; hm_wf kvs; list_all (\<lambda>v. unat v < 2 ^ 63) (hm_values kvs)\<rbrakk> \<Longrightarrow>
     sets_values lib g kvs s (upsert_values lib g kvs s)"
proof (induction kvs arbitrary: s)
  case (Cons e kvs)
  then show ?case
    by (cases e) (auto intro!: sets_values_Cons [where vs = "hm_insert (g, uuid_to_string lib (fst e)) (snd e) (cs_values s)"])
qed simp

lemma append_get:
  "hm_get m k = None \<Longrightarrow> hm_get (m @ [(k, v)]) = (hm_get m)(k \<mapsto> v)"
  by (auto simp: fun_eq_iff map_add_def split: option.split)

lemma append_wf: "hm_wf m \<Longrightarrow> hm_get m k = None \<Longrightarrow> hm_wf (m @ [(k, v)])"
  by (auto simp: hm_wf_def map_of_eq_None_iff)

lemma replace_values_sets:
  assumes "sql_u64_law lib" "uuid_law lib"
  shows "\<lbrakk>hm_wf kvs; list_all (\<lambda>v. unat v < 2 ^ 63) (hm_values kvs)\<rbrakk> \<Longrightarrow>
     \<exists>s'. replace_values lib g kvs s = Ok s' \<and> sets_values lib g kvs s s'"
proof (induction kvs arbitrary: s)
  case (Cons e kvs)
  obtain u v where e: "e = (u, v)" by force
  let ?k = "(g, uuid_to_string lib u)"
  let ?vs = "hm_remove ?k (cs_values s) @ [(?k, v)]"
  obtain s' where s': "replace_values lib g kvs (s\<lparr>cs_values := ?vs\<rparr>) = Ok s'"
      "sets_values lib g kvs (s\<lparr>cs_values := ?vs\<rparr>) s'"
    using Cons.IH [of "s\<lparr>cs_values := ?vs\<rparr>"] Cons.prems by (auto simp: e)
  have none: "hm_get (hm_remove ?k (cs_values s)) ?k = None" by simp
  have "hm_get ?vs = (hm_get (cs_values s))(?k \<mapsto> v)"
    unfolding append_get [OF none] by (simp add: fun_eq_iff)
  moreover have "hm_wf (cs_values s) \<longrightarrow> hm_wf ?vs"
    using append_wf [OF _ none] by simp
  ultimately have "sets_values lib g ((u, v) # kvs) s s'"
    using s'(2) Cons.prems assms(2) by (intro sets_values_Cons [where vs = ?vs]) (auto simp: e)
  with s'(1) Cons.prems assms(1) show ?case by (simp add: e sql_u64_law_def)
qed simp

lemma insert_values_sets:
  assumes "sql_u64_law lib" "uuid_law lib"
  shows "\<lbrakk>hm_wf kvs; list_all (\<lambda>v. unat v < 2 ^ 63) (hm_values kvs); \<forall>u\<in>fst ` set kvs. counter_at lib s g u = None\<rbrakk> \<Longrightarrow>
     \<exists>s'. insert_values lib g kvs s = Ok s' \<and> sets_values lib g kvs s s'"
proof (induction kvs arbitrary: s)
  case (Cons e kvs)
  obtain u v where e: "e = (u, v)" by force
  let ?k = "(g, uuid_to_string lib u)"
  let ?vs = "cs_values s @ [(?k, v)]"
  have none: "hm_get (cs_values s) ?k = None" using Cons.prems(3) by (simp add: e counter_at_def)
  have later: "\<forall>u'\<in>fst ` set kvs. counter_at lib (s\<lparr>cs_values := ?vs\<rparr>) g u' = None"
  proof
    fix u' assume u': "u' \<in> fst ` set kvs"
    then have "u' \<noteq> u" "counter_at lib s g u' = None" using Cons.prems(1,3) by (auto simp: e)
    then show "counter_at lib (s\<lparr>cs_values := ?vs\<rparr>) g u' = None"
      using assms(2) append_get [OF none, of v] by (simp add: counter_at_def)
  qed
  obtain s' where s': "insert_values lib g kvs (s\<lparr>cs_values := ?vs\<rparr>) = Ok s'"
      "sets_values lib g kvs (s\<lparr>cs_values := ?vs\<rparr>) s'"
    using Cons.IH [OF _ _ later] Cons.prems by (auto simp: e)
  have "sets_values lib g ((u, v) # kvs) s s'"
    using s'(2) Cons.prems assms(2) append_get [OF none] append_wf [OF _ none]
    by (intro sets_values_Cons [where vs = ?vs]) (auto simp: e)
  with s'(1) Cons.prems assms(1) none show ?case by (simp add: e sql_u64_law_def hm_contains_def)
qed simp

lemma sets_values_at:
  "sets_values lib g kvs s s' \<Longrightarrow> counter_at lib s' g' =
     (if g' = g then counter_at lib s g ++ hm_get kvs else counter_at lib s g')"
  by (auto simp: sets_values_def fun_eq_iff map_add_def)

lemma sets_values_fields:
  assumes "sets_values lib g kvs s s'"
  shows "cs_items s' = cs_items s" "cs_next_gcounter s' = cs_next_gcounter s"
    "cs_next_item s' = cs_next_item s" "cs_local_lists s' = cs_local_lists s"
    "cs_client_id s' = cs_client_id s" "find_row s' = find_row s"
    "values_ok lib s \<Longrightarrow> g < cs_next_gcounter s \<Longrightarrow> values_ok lib s'"
  using assms by (auto simp: sets_values_def find_row_def fun_eq_iff)


section \<open>The items of the tables\<close>

definition row_key :: "item_row \<Rightarrow> string \<times> string" where
  "row_key r = (ir_list_id r, si_name r)"

definition items_ok :: "'x sql_lib_scheme \<Rightarrow> client_storage \<Rightarrow> bool" where
  "items_ok lib s \<longleftrightarrow> distinct (map row_key (cs_items s)) \<and> distinct (map si_item_id (cs_items s)) \<and>
     (\<forall>r \<in> set (cs_items s). si_p_id r \<noteq> si_n_id r \<and> si_p_id r < cs_next_gcounter s \<and>
        si_n_id r < cs_next_gcounter s \<and> si_item_id r < cs_next_item s \<and>
        (\<exists>u. si_acquired_actor r = uuid_to_string lib u)) \<and>
     (\<forall>r \<in> set (cs_items s). \<forall>r' \<in> set (cs_items s). r \<noteq> r' \<longrightarrow>
        {si_p_id r, si_n_id r} \<inter> {si_p_id r', si_n_id r'} = {})"

definition cs_ok :: "'x sql_lib_scheme \<Rightarrow> client_storage \<Rightarrow> bool" where
  "cs_ok lib s \<longleftrightarrow> values_ok lib s \<and> items_ok lib s"

definition small_item :: "item \<Rightarrow> bool" where
  "small_item i \<longleftrightarrow> small_counter (pn_p (amount i)) \<and> small_counter (pn_n (amount i))"

text \<open>An item as the tables hold it.\<close>

definition row_view :: "'x sql_lib_scheme \<Rightarrow> client_storage \<Rightarrow> item_row \<Rightarrow> item_view" where
  "row_view lib s r = ((counter_at lib s (si_p_id r), counter_at lib s (si_n_id r)),
     lwwreg_new (si_acquired_val r) (si_acquired_clock r) (the (uuid_parse lib (si_acquired_actor r))))"

definition item_at :: "'x sql_lib_scheme \<Rightarrow> client_storage \<Rightarrow> string \<Rightarrow> string \<Rightarrow> item_view option" where
  "item_at lib s list_id name = map_option (row_view lib s) (find_row s list_id name)"

text \<open>What writing an item over a stored one gives: the entries of the counters that the new item has
  are replaced, the others stay.\<close>

definition written_view :: "item_view option \<Rightarrow> item \<Rightarrow> item_view" where
  "written_view old i =
     (case old of
        None \<Rightarrow> item_view i
      | Some ((p, n), _) \<Rightarrow> ((p ++ gcounter_view (pn_p (amount i)), n ++ gcounter_view (pn_n (amount i))), acquired i))"

lemma find_row_Some: "find_row s l n = Some r \<Longrightarrow> r \<in> set (cs_items s) \<and> row_key r = (l, n)"
  by (auto simp: find_row_def row_key_def find_Some_iff)

lemma find_row_None: "find_row s l n = None \<longleftrightarrow> (l, n) \<notin> row_key ` set (cs_items s)"
  by (auto simp: find_row_def row_key_def find_None_iff)

lemma find_row_map:
  "(\<And>r. row_key (f r) = row_key r) \<Longrightarrow>
   find_row (s\<lparr>cs_items := map f (cs_items s)\<rparr>) l n = map_option f (find_row s l n)"
proof -
  assume key: "\<And>r. row_key (f r) = row_key r"
  then have "List.find (\<lambda>r. ir_list_id r = l \<and> si_name r = n) (map f rs) =
      map_option f (List.find (\<lambda>r. ir_list_id r = l \<and> si_name r = n) rs)" for rs
    by (induction rs) (auto simp: row_key_def)
  then show ?thesis by (simp add: find_row_def)
qed

lemma find_row_append:
  "find_row (s\<lparr>cs_items := cs_items s @ [r]\<rparr>) l n =
     (case find_row s l n of Some x \<Rightarrow> Some x | None \<Rightarrow> if row_key r = (l, n) then Some r else None)"
proof -
  have "List.find P (rs @ [r]) = (case List.find P rs of Some x \<Rightarrow> Some x | None \<Rightarrow> if P r then Some r else None)"
    for P and rs :: "item_row list"
    by (induction rs) auto
  then show ?thesis by (auto simp: find_row_def row_key_def split: option.split)
qed

lemma build_item_spec:
  assumes "sql_u64_law lib" "uuid_law lib" "cs_ok lib s" "r \<in> set (cs_items s)"
  shows "\<exists>i. build_item lib s r = Ok i \<and> item_view i = row_view lib s r \<and> small_item i \<and>
    gc_actor_id (pn_p (amount i)) = cs_client_id s \<and> gc_actor_id (pn_n (amount i)) = cs_client_id s"
proof -
  have ok: "values_ok lib s" "\<exists>u. si_acquired_actor r = uuid_to_string lib u"
    using assms(3,4) by (auto simp: cs_ok_def items_ok_def)
  obtain p n where p: "read_gcounter lib s (si_p_id r) = Ok p" "gc_actor_id p = cs_client_id s"
      "gcounter_view p = counter_at lib s (si_p_id r)" "small_counter p"
    and n: "read_gcounter lib s (si_n_id r) = Ok n" "gc_actor_id n = cs_client_id s"
      "gcounter_view n = counter_at lib s (si_n_id r)" "small_counter n"
    using read_gcounter_spec [OF assms(1,2) ok(1)] by metis
  obtain u where "uuid_parse lib (si_acquired_actor r) = Some u"
    using ok(2) assms(2) by (auto simp: uuid_law_def)
  with p n show ?thesis
    by (simp add: build_item_def item_view_def pncounter_view_def row_view_def small_item_def)
qed

text \<open>Writing over a row that exists.\<close>

lemma update_existing:
  assumes laws: "uuid_law lib" and ok: "cs_ok lib s" and row: "find_row s l n = Some r"
    and p: "sets_values lib (si_p_id r) (gc_counter (pn_p (amount i))) s s1"
    and n: "sets_values lib (si_n_id r) (gc_counter (pn_n (amount i))) s1 s2"
    and new: "new = r\<lparr>si_acquired_val := lww_val (acquired i), si_acquired_clock := lww_clock (acquired i),
      si_acquired_actor := uuid_to_string lib (lww_actor (acquired i))\<rparr>"
    and s': "s' = s2\<lparr>cs_items := map (\<lambda>x. if x = r then new else x) (cs_items s)\<rparr>"
  shows "cs_ok lib s'" "item_at lib s' l' n' =
      (if (l', n') = (l, n) then Some (written_view (item_at lib s l n) i) else item_at lib s l' n')"
    "cs_local_lists s' = cs_local_lists s" "cs_client_id s' = cs_client_id s"
proof -
  note f1 = sets_values_fields [OF p] and f2 = sets_values_fields [OF n]
  have r: "r \<in> set (cs_items s)" "row_key r = (l, n)" using find_row_Some [OF row] by auto
  have ids: "si_p_id r \<noteq> si_n_id r" "si_p_id r < cs_next_gcounter s" "si_n_id r < cs_next_gcounter s"
    using ok r(1) by (auto simp: cs_ok_def items_ok_def)
  have vals: "values_ok lib s2"
    using ok ids f1(2,7) f2(7) by (simp add: cs_ok_def)
  have same: "row_key new = row_key r" "si_item_id new = si_item_id r" "si_p_id new = si_p_id r"
      "si_n_id new = si_n_id r"
    by (simp_all add: new row_key_def)
  let ?f = "\<lambda>x. if x = r then new else x"
  have keys: "row_key \<circ> ?f = row_key" "si_item_id \<circ> ?f = si_item_id"
    using same by (auto simp: fun_eq_iff)
  have actor: "\<exists>u. si_acquired_actor new = uuid_to_string lib u" by (auto simp: new)
  have "items_ok lib s'"
    using ok same(2-4) actor unfolding cs_ok_def items_ok_def s' by (auto simp: keys f1 f2)
  moreover have "values_ok lib s'" using vals by (simp add: s' values_ok_def)
  ultimately show "cs_ok lib s'" by (simp add: cs_ok_def)
  have at: "counter_at lib s' g = counter_at lib s2 g" for g by (simp add: fun_eq_iff counter_at_def s')
  have find: "find_row s' a b = map_option ?f (find_row s a b)" for a b
    using find_row_map [of ?f s a b] same(1) by (simp add: s' find_row_def)
  show "item_at lib s' l' n' =
      (if (l', n') = (l, n) then Some (written_view (item_at lib s l n) i) else item_at lib s l' n')"
  proof (cases "(l', n') = (l, n)")
    case True
    then show ?thesis
      using row ids laws by (simp add: item_at_def find written_view_def row_view_def at same
          sets_values_at [OF p] sets_values_at [OF n] gcounter_view_def new lwwreg_new_def uuid_law_def)
  next
    case False
    have other: "row_view lib s' x = row_view lib s x" "x \<noteq> r" if "find_row s l' n' = Some x" for x
    proof -
      have x: "x \<in> set (cs_items s)" "row_key x = (l', n')" using find_row_Some [OF that] by auto
      then show "x \<noteq> r" using r False by auto
      then have "{si_p_id x, si_n_id x} \<inter> {si_p_id r, si_n_id r} = {}"
        using ok x(1) r(1) by (auto simp: cs_ok_def items_ok_def)
      then show "row_view lib s' x = row_view lib s x"
        by (auto simp: row_view_def at sets_values_at [OF p] sets_values_at [OF n])
    qed
    then show ?thesis
      using False by (cases "find_row s l' n'") (auto simp: item_at_def find)
  qed
  show "cs_local_lists s' = cs_local_lists s" "cs_client_id s' = cs_client_id s"
    by (simp_all add: s' f1 f2)
qed

text \<open>Writing a row that is new, with two new counters.\<close>

lemma insert_new:
  assumes laws: "uuid_law lib" and ok: "cs_ok lib s" and row: "find_row s l n = None"
    and s0: "s0 = s\<lparr>cs_gcounters := gs, cs_next_gcounter := cs_next_gcounter s + 2\<rparr>"
    and p: "sets_values lib (cs_next_gcounter s) (gc_counter (pn_p (amount i))) s0 s1"
    and n: "sets_values lib (cs_next_gcounter s + 1) (gc_counter (pn_n (amount i))) s1 s2"
    and new: "new = item_row_of lib (cs_next_item s) l n i (cs_next_gcounter s) (cs_next_gcounter s + 1)"
    and s': "s' = s2\<lparr>cs_items := cs_items s @ [new], cs_next_item := cs_next_item s + 1\<rparr>"
  shows "cs_ok lib s'" "item_at lib s' l' n' =
      (if (l', n') = (l, n) then Some (written_view (item_at lib s l n) i) else item_at lib s l' n')"
    "cs_local_lists s' = cs_local_lists s" "cs_client_id s' = cs_client_id s"
proof -
  note f1 = sets_values_fields [OF p] and f2 = sets_values_fields [OF n]
  have vals0: "values_ok lib s0"
    using ok unfolding cs_ok_def values_ok_def s0 by (fastforce simp: less_Suc_eq)
  then have vals: "values_ok lib s2"
    using f1(2,7) f2(7) by (simp add: s0)
  have no: "counter_at lib s g = Map.empty" if "g \<ge> cs_next_gcounter s" for g
  proof (rule ext, rule ccontr)
    fix u assume "counter_at lib s g u \<noteq> None"
    then obtain v where "hm_get (cs_values s) (g, uuid_to_string lib u) = Some v"
      by (auto simp: counter_at_def)
    then have "g < cs_next_gcounter s" using ok unfolding cs_ok_def values_ok_def by blast
    with that show False by simp
  qed
  have at0: "counter_at lib s0 g = counter_at lib s g" for g
    by (simp add: fun_eq_iff counter_at_def s0)
  have new_fields: "row_key new = (l, n)" "si_p_id new = cs_next_gcounter s"
      "si_n_id new = cs_next_gcounter s + 1" "si_item_id new = cs_next_item s"
      "si_acquired_actor new = uuid_to_string lib (lww_actor (acquired i))"
    by (simp_all add: new item_row_of_def row_key_def)
  have old: "si_p_id x < cs_next_gcounter s" "si_n_id x < cs_next_gcounter s" "si_item_id x < cs_next_item s"
    if "x \<in> set (cs_items s)" for x
    using ok that by (auto simp: cs_ok_def items_ok_def)
  have "items_ok lib s'"
    using ok new_fields old row unfolding cs_ok_def items_ok_def s' find_row_None
    by (fastforce simp: f1 f2 s0)
  moreover have "values_ok lib s'" using vals by (simp add: s' values_ok_def)
  ultimately show "cs_ok lib s'" by (simp add: cs_ok_def)
  have at: "counter_at lib s' g = counter_at lib s2 g" for g by (simp add: fun_eq_iff counter_at_def s')
  have find: "find_row s' a b =
      (case find_row s a b of Some x \<Rightarrow> Some x | None \<Rightarrow> if (l, n) = (a, b) then Some new else None)" for a b
    using find_row_append [of s new a b] new_fields(1)
    by (auto simp: s' find_row_def split: option.split)
  show "item_at lib s' l' n' =
      (if (l', n') = (l, n) then Some (written_view (item_at lib s l n) i) else item_at lib s l' n')"
  proof (cases "(l', n') = (l, n)")
    case True
    then show ?thesis
      using row laws new_fields by (simp add: item_at_def find written_view_def row_view_def at no at0
          sets_values_at [OF p] sets_values_at [OF n] gcounter_view_def new item_row_of_def lwwreg_new_def
          uuid_law_def item_view_def pncounter_view_def)
  next
    case False
    have "row_view lib s' x = row_view lib s x" if "find_row s l' n' = Some x" for x
      using old [of x] find_row_Some [OF that]
      by (auto simp: row_view_def at at0 sets_values_at [OF p] sets_values_at [OF n])
    then show ?thesis
      using False by (cases "find_row s l' n'") (auto simp: item_at_def find)
  qed
  show "cs_local_lists s' = cs_local_lists s" "cs_client_id s' = cs_client_id s"
    by (simp_all add: s' f1 f2 s0)
qed

lemma new_gcounters:
  "new_gcounter s = (t, p) \<Longrightarrow> new_gcounter t = (t', q) \<Longrightarrow>
   p = cs_next_gcounter s \<and> q = cs_next_gcounter s + 1 \<and>
   t' = s\<lparr>cs_gcounters := cs_gcounters s @ [p, q], cs_next_gcounter := cs_next_gcounter s + 2\<rparr>"
  by (auto simp: new_gcounter_def)

lemma small_item_counters:
  "small_item i \<Longrightarrow> hm_wf (gc_counter (pn_p (amount i)))"
  "small_item i \<Longrightarrow> list_all (\<lambda>v. unat v < 2 ^ 63) (hm_values (gc_counter (pn_p (amount i))))"
  "small_item i \<Longrightarrow> hm_wf (gc_counter (pn_n (amount i)))"
  "small_item i \<Longrightarrow> list_all (\<lambda>v. unat v < 2 ^ 63) (hm_values (gc_counter (pn_n (amount i))))"
  by (simp_all add: small_item_def small_counter_def)

text \<open>What every way of writing an item does to the tables.\<close>

definition writes_item ::
    "'x sql_lib_scheme \<Rightarrow> client_storage \<Rightarrow> string \<Rightarrow> string \<Rightarrow> item \<Rightarrow> client_storage \<Rightarrow> bool" where
  "writes_item lib s l n i s' \<longleftrightarrow> cs_ok lib s' \<and>
     (\<forall>l' n'. item_at lib s' l' n' =
        (if (l', n') = (l, n) then Some (written_view (item_at lib s l n) i) else item_at lib s l' n')) \<and>
     cs_local_lists s' = cs_local_lists s \<and> cs_client_id s' = cs_client_id s"

lemma overwrite_item_writes:
  assumes "uuid_law lib" "cs_ok lib s" "find_row s l n = Some r" "small_item i"
  shows "\<exists>s'. overwrite_item lib True s i (si_item_id r) (si_p_id r) (si_n_id r) = Ok s' \<and>
    writes_item lib s l n i s'"
proof -
  let ?new = "r\<lparr>si_acquired_val := lww_val (acquired i), si_acquired_clock := lww_clock (acquired i),
      si_acquired_actor := uuid_to_string lib (lww_actor (acquired i))\<rparr>"
  let ?items = "map (\<lambda>x. if x = r then ?new else x) (cs_items s)"
  have r: "r \<in> set (cs_items s)" using find_row_Some [OF assms(3)] by simp
  have "x = r" if "x \<in> set (cs_items s)" "si_item_id x = si_item_id r" for x
    using that r assms(2) by (auto simp: cs_ok_def items_ok_def distinct_map dest: inj_onD)
  then have items: "map (\<lambda>x. if si_item_id x = si_item_id r
        then x\<lparr>si_acquired_val := lww_val (acquired i), si_acquired_clock := lww_clock (acquired i),
          si_acquired_actor := uuid_to_string lib (lww_actor (acquired i))\<rparr> else x) (cs_items s) = ?items"
    by (intro map_cong) auto
  let ?s1 = "upsert_values lib (si_p_id r) (gc_counter (pn_p (amount i))) s"
  let ?s2 = "upsert_values lib (si_n_id r) (gc_counter (pn_n (amount i))) ?s1"
  have commute: "upsert_values lib g kvs (t\<lparr>cs_items := it\<rparr>) = (upsert_values lib g kvs t)\<lparr>cs_items := it\<rparr>"
    for g kvs t it
  proof (induction lib g kvs t rule: upsert_values.induct)
    case (2 lib gid actor_uuid val_u64 kvs s)
    have "s\<lparr>cs_items := it, cs_values := v\<rparr> = s\<lparr>cs_values := v, cs_items := it\<rparr>" for v by simp
    with 2 show ?case by (simp only: upsert_values.simps) simp
  qed simp
  have "overwrite_item lib True s i (si_item_id r) (si_p_id r) (si_n_id r) = Ok (?s2\<lparr>cs_items := ?items\<rparr>)"
    by (simp add: overwrite_item_def items commute Let_def)
  with update_existing [OF assms(1-3) upsert_values_sets upsert_values_sets refl refl]
    small_item_counters [OF assms(4)] assms(1)
  show ?thesis unfolding writes_item_def by blast
qed

lemma no_values_yet:
  assumes "cs_ok lib s" "g \<ge> cs_next_gcounter s"
  shows "counter_at lib s g = Map.empty"
proof (rule ext, rule ccontr)
  fix u assume "counter_at lib s g u \<noteq> None"
  then obtain v where "hm_get (cs_values s) (g, uuid_to_string lib u) = Some v"
    by (auto simp: counter_at_def)
  then have "g < cs_next_gcounter s" using assms(1) unfolding cs_ok_def values_ok_def by blast
  with assms(2) show False by simp
qed

lemma write_item_writes:
  assumes "sql_u64_law lib" "uuid_law lib" "cs_ok lib s" "find_row s l n = None" "small_item i"
  shows "\<exists>s'. write_item lib True s l i n = Ok s' \<and> writes_item lib s l n i s'"
proof -
  note small = small_item_counters [OF assms(5)]
  obtain t p t' q where new: "new_gcounter s = (t, p)" "new_gcounter t = (t', q)" by fastforce
  note ids = new_gcounters [OF new]
  have fresh: "p \<noteq> q" "p \<ge> cs_next_gcounter s" "q \<ge> cs_next_gcounter s" using ids by auto
  have at0: "counter_at lib t' g = counter_at lib s g" for g by (simp add: fun_eq_iff counter_at_def ids)
  obtain s1 where s1: "insert_values lib p (gc_counter (pn_p (amount i))) t' = Ok s1"
      "sets_values lib p (gc_counter (pn_p (amount i))) t' s1"
    using insert_values_sets [OF assms(1,2) small(1,2), of t' p] no_values_yet [OF assms(3) fresh(2)]
    by (auto simp: at0)
  have "counter_at lib s1 q = Map.empty"
    using sets_values_at [OF s1(2), of q] no_values_yet [OF assms(3) fresh(3)] fresh(1) by (simp add: at0)
  then obtain s2 where s2: "insert_values lib q (gc_counter (pn_n (amount i))) s1 = Ok s2"
      "sets_values lib q (gc_counter (pn_n (amount i))) s1 s2"
    using insert_values_sets [OF assms(1,2) small(3,4), of s1 q] by auto
  have fields: "find_row s2 l n = None" "cs_items s2 = cs_items s" "cs_next_item s2 = cs_next_item s"
    using sets_values_fields [OF s1(2)] sets_values_fields [OF s2(2)] ids assms(4)
    by (simp_all add: find_row_def)
  then have "write_item lib True s l i n = Ok (s2\<lparr>cs_items := cs_items s @
      [item_row_of lib (cs_next_item s) l n i p q], cs_next_item := cs_next_item s + 1\<rparr>)"
    using new s1(1) s2(1) by (simp add: write_item_def)
  moreover
  let ?s' = "s2\<lparr>cs_items := cs_items s @ [item_row_of lib (cs_next_item s) l n i p q], cs_next_item := cs_next_item s + 1\<rparr>"
  have t': "t' = s\<lparr>cs_gcounters := cs_gcounters s @ [p, q], cs_next_gcounter := cs_next_gcounter s + 2\<rparr>"
    using ids by blast
  have "sets_values lib (cs_next_gcounter s) (gc_counter (pn_p (amount i))) t' s1"
    "sets_values lib (cs_next_gcounter s + 1) (gc_counter (pn_n (amount i))) s1 s2"
    "?s' = s2\<lparr>cs_items := cs_items s @ [item_row_of lib (cs_next_item s) l n i (cs_next_gcounter s)
       (cs_next_gcounter s + 1)], cs_next_item := cs_next_item s + 1\<rparr>"
    using s1(2) s2(2) ids by simp_all
  note facts = insert_new [OF assms(2,3) assms(4) t' this(1,2) refl this(3)]
  have "writes_item lib s l n i ?s'"
    unfolding writes_item_def by (intro conjI allI facts)
  ultimately show ?thesis by blast
qed

lemma item_row_of_row:
  assumes "row_key r = (l, n)"
  shows "item_row_of lib (si_item_id r) l n i (si_p_id r) (si_n_id r) =
    r\<lparr>si_acquired_val := lww_val (acquired i), si_acquired_clock := lww_clock (acquired i),
       si_acquired_actor := uuid_to_string lib (lww_actor (acquired i))\<rparr>"
proof -
  have "ir_list_id r = l" "si_name r = n" using assms by (simp_all add: row_key_def)
  then show ?thesis by (cases r) (simp add: item_row_of_def)
qed

lemma write_list_item_writes:
  assumes "sql_u64_law lib" "uuid_law lib" "cs_ok lib s" "small_item i"
  shows "\<exists>s'. write_list_item lib l s (n, i) = Ok s' \<and> writes_item lib s l n i s'"
proof -
  note small = small_item_counters [OF assms(4)]
  note put = replace_values_sets [OF assms(1,2)]
  show ?thesis
  proof (cases "find_row s l n")
    case (Some r)
    obtain s1 where s1: "replace_values lib (si_p_id r) (gc_counter (pn_p (amount i))) s = Ok s1"
        "sets_values lib (si_p_id r) (gc_counter (pn_p (amount i))) s s1"
      using put [OF small(1,2)] by blast
    obtain s2 where s2: "replace_values lib (si_n_id r) (gc_counter (pn_n (amount i))) s1 = Ok s2"
        "sets_values lib (si_n_id r) (gc_counter (pn_n (amount i))) s1 s2"
      using put [OF small(3,4)] by blast
    have fields: "find_row s2 l n = Some r" "cs_items s2 = cs_items s"
      using sets_values_fields [OF s1(2)] sets_values_fields [OF s2(2)] Some by simp_all
    let ?new = "r\<lparr>si_acquired_val := lww_val (acquired i), si_acquired_clock := lww_clock (acquired i),
        si_acquired_actor := uuid_to_string lib (lww_actor (acquired i))\<rparr>"
    have r: "r \<in> set (cs_items s)" "row_key r = (l, n)" using find_row_Some [OF Some] by auto
    have uniq: "x = r" if "x \<in> set (cs_items s)" "ir_list_id x = l \<and> si_name x = n" for x
    proof -
      have "row_key x = row_key r" using that(2) r(2) by (simp add: row_key_def)
      moreover have "inj_on row_key (set (cs_items s))"
        using assms(3) by (simp add: cs_ok_def items_ok_def distinct_map)
      ultimately show "x = r" using that(1) r(1) by (simp add: inj_on_def)
    qed
    have "map (\<lambda>x. if ir_list_id x = l \<and> si_name x = n
          then item_row_of lib (si_item_id x) l n i (si_p_id r) (si_n_id r) else x) (cs_items s) =
        map (\<lambda>x. if x = r then ?new else x) (cs_items s)"
    proof (rule map_cong [OF refl])
      fix x assume x: "x \<in> set (cs_items s)"
      show "(if ir_list_id x = l \<and> si_name x = n
          then item_row_of lib (si_item_id x) l n i (si_p_id r) (si_n_id r) else x) = (if x = r then ?new else x)"
      proof (cases "x = r")
        case True
        moreover have "ir_list_id r = l \<and> si_name r = n" using r(2) by (simp add: row_key_def)
        ultimately show ?thesis using item_row_of_row [OF r(2), of lib i] by simp
      qed (use uniq [OF x] in auto)
    qed
    then have "write_list_item lib l s (n, i) =
        Ok (s2\<lparr>cs_items := map (\<lambda>x. if x = r then ?new else x) (cs_items s)\<rparr>)"
      using Some s1(1) s2(1) fields by (simp add: write_list_item_def)
    moreover have "writes_item lib s l n i (s2\<lparr>cs_items := map (\<lambda>x. if x = r then ?new else x) (cs_items s)\<rparr>)"
      unfolding writes_item_def
      by (intro conjI allI update_existing [OF assms(2,3) Some s1(2) s2(2) refl refl])
    ultimately show ?thesis by blast
  next
    case None
    obtain t p t' q where new: "new_gcounter s = (t, p)" "new_gcounter t = (t', q)" by fastforce
    note ids = new_gcounters [OF new]
    obtain s1 where s1: "replace_values lib p (gc_counter (pn_p (amount i))) t' = Ok s1"
        "sets_values lib p (gc_counter (pn_p (amount i))) t' s1"
      using put [OF small(1,2)] by blast
    obtain s2 where s2: "replace_values lib q (gc_counter (pn_n (amount i))) s1 = Ok s2"
        "sets_values lib q (gc_counter (pn_n (amount i))) s1 s2"
      using put [OF small(3,4)] by blast
    have fields: "find_row s2 l n = None" "cs_items s2 = cs_items s" "cs_next_item s2 = cs_next_item s"
      using sets_values_fields [OF s1(2)] sets_values_fields [OF s2(2)] ids None
      by (simp_all add: find_row_def)
    then have "write_list_item lib l s (n, i) = Ok (s2\<lparr>cs_items := cs_items s @
        [item_row_of lib (cs_next_item s) l n i p q], cs_next_item := cs_next_item s + 1\<rparr>)"
      using new s1(1) s2(1) None by (simp add: write_list_item_def)
    moreover
    let ?s' = "s2\<lparr>cs_items := cs_items s @ [item_row_of lib (cs_next_item s) l n i p q], cs_next_item := cs_next_item s + 1\<rparr>"
    have t': "t' = s\<lparr>cs_gcounters := cs_gcounters s @ [p, q], cs_next_gcounter := cs_next_gcounter s + 2\<rparr>"
      using ids by blast
    have "sets_values lib (cs_next_gcounter s) (gc_counter (pn_p (amount i))) t' s1"
      "sets_values lib (cs_next_gcounter s + 1) (gc_counter (pn_n (amount i))) s1 s2"
      "?s' = s2\<lparr>cs_items := cs_items s @ [item_row_of lib (cs_next_item s) l n i (cs_next_gcounter s)
         (cs_next_gcounter s + 1)], cs_next_item := cs_next_item s + 1\<rparr>"
      using s1(2) s2(2) ids by simp_all
    note facts = insert_new [OF assms(2,3) None t' this(1,2) refl this(3)]
    have "writes_item lib s l n i ?s'"
      unfolding writes_item_def by (intro conjI allI facts)
    ultimately show ?thesis by blast
  qed
qed

end
