(* ===== verification/Client_Lists.thy ===== *)
theory Client_Lists
  imports Client_Storage
begin

text \<open>
  What the operations of the client's storage do to whole lists and to the item a user edits: lists
  written and read back, and the quantity and status after a request of the user.
\<close>

section \<open>Whole lists\<close>

lemma writes_itemD:
  assumes "writes_item lib s l n i s'"
  shows "cs_ok lib s'" "item_at lib s' l' n' =
      (if (l', n') = (l, n) then Some (written_view (item_at lib s l n) i) else item_at lib s l' n')"
    "cs_local_lists s' = cs_local_lists s" "cs_client_id s' = cs_client_id s"
  using assms by (auto simp: writes_item_def)

lemma write_items_run:
  assumes laws: "sql_u64_law lib" "uuid_law lib"
  shows "\<lbrakk>cs_ok lib s; hm_wf kis; list_all small_item (hm_values kis)\<rbrakk> \<Longrightarrow>
    \<exists>s'. run_res (write_list_item lib l) s kis = Ok s' \<and> cs_ok lib s' \<and>
      cs_local_lists s' = cs_local_lists s \<and> cs_client_id s' = cs_client_id s \<and>
      (\<forall>l' n. item_at lib s' l' n = (if l' = l
         then (case hm_get kis n of Some i \<Rightarrow> Some (written_view (item_at lib s l n) i) | None \<Rightarrow> item_at lib s l n)
         else item_at lib s l' n))"
proof (induction kis arbitrary: s)
  case (Cons e kis)
  obtain n i where e: "e = (n, i)" by force
  obtain s1 where s1: "write_list_item lib l s (n, i) = Ok s1" "writes_item lib s l n i s1"
    using write_list_item_writes [OF laws Cons.prems(1), of i l n] Cons.prems(3) by (auto simp: e)
  note w = writes_itemD [OF s1(2)]
  obtain s' where s': "run_res (write_list_item lib l) s1 kis = Ok s'" "cs_ok lib s'"
      "cs_local_lists s' = cs_local_lists s1" "cs_client_id s' = cs_client_id s1"
      "\<And>l' n. item_at lib s' l' n = (if l' = l
         then (case hm_get kis n of Some i \<Rightarrow> Some (written_view (item_at lib s1 l n) i) | None \<Rightarrow> item_at lib s1 l n)
         else item_at lib s1 l' n)"
    using Cons.IH [OF w(1)] Cons.prems(2,3) by (auto simp: e)
  have "hm_get kis n = None" using Cons.prems(2) by (simp add: e map_of_eq_None_iff)
  then have "item_at lib s' l' m = (if l' = l
       then (case hm_get (e # kis) m of Some i \<Rightarrow> Some (written_view (item_at lib s l m) i) | None \<Rightarrow> item_at lib s l m)
       else item_at lib s l' m)" for l' m
    unfolding s'(5) w(2) by (auto simp: e split: option.split)
  with s1(1) s' w(3,4) show ?case by (simp add: e)
qed simp

lemma awormap_insert_new:
  "hm_get (aw_items m) k = None \<Longrightarrow> aw_items (awormap_insert m k i) = hm_insert k i (aw_items m)"
  by (simp add: awormap_insert_def)

lemma hm_values_insert: "set (hm_values (hm_insert k v al)) \<subseteq> insert v (set (hm_values al))"
  by (induction al) auto

lemma awormap_insert_small:
  assumes "hm_get (aw_items m) k = None" "small_item i" "list_all small_item (hm_values (aw_items m))"
  shows "list_all small_item (hm_values (aw_items (awormap_insert m k i)))"
  using assms(2,3) hm_values_insert [of k i "aw_items m"]
  unfolding awormap_insert_new [OF assms(1)] list_all_iff by blast

lemma awormap_view_insert_new:
  "hm_get (aw_items m) k = None \<Longrightarrow>
   awormap_view (awormap_insert m k i) n = (if n = k then Some (item_view i) else awormap_view m n)"
  by (simp add: awormap_view_def awormap_insert_new)

lemma read_list_loop_spec:
  assumes laws: "sql_u64_law lib" "uuid_law lib" and ok: "cs_ok lib s"
  shows "\<lbrakk>set rows \<subseteq> set (cs_items s); distinct (map si_name rows); hm_wf (aw_items m);
      \<forall>r\<in>set rows. hm_get (aw_items m) (si_name r) = None;
      list_all small_item (hm_values (aw_items m))\<rbrakk> \<Longrightarrow>
    \<exists>m'. read_list_loop lib s rows m = Ok m' \<and> hm_wf (aw_items m') \<and>
      list_all small_item (hm_values (aw_items m')) \<and>
      (\<forall>n. awormap_view m' n = (case List.find (\<lambda>r. si_name r = n) rows of
         Some r \<Rightarrow> Some (row_view lib s r) | None \<Rightarrow> awormap_view m n))"
proof (induction rows arbitrary: m)
  case (Cons r rows)
  have r: "r \<in> set (cs_items s)" using Cons.prems(1) by simp
  obtain i where i: "build_item lib s r = Ok i" "item_view i = row_view lib s r" "small_item i"
    using build_item_spec [OF laws ok r] by blast
  let ?m = "awormap_insert m (si_name r) i"
  have new: "hm_get (aw_items m) (si_name r) = None" using Cons.prems(4) by simp
  have other: "si_name x \<noteq> si_name r" if "x \<in> set rows" for x
    using Cons.prems(2) that by (simp add: image_iff) metis
  have prems: "set rows \<subseteq> set (cs_items s)" "distinct (map si_name rows)" "hm_wf (aw_items ?m)"
      "\<forall>x\<in>set rows. hm_get (aw_items ?m) (si_name x) = None"
    using Cons.prems(1-4) other by (auto simp: awormap_insert_new [OF new])
  obtain m' where m': "read_list_loop lib s rows ?m = Ok m'" "hm_wf (aw_items m')"
      "list_all small_item (hm_values (aw_items m'))"
      "\<forall>n. awormap_view m' n = (case List.find (\<lambda>r. si_name r = n) rows of
         Some r \<Rightarrow> Some (row_view lib s r) | None \<Rightarrow> awormap_view ?m n)"
    using Cons.IH [OF prems awormap_insert_small [OF new i(3) Cons.prems(5)]] by blast
  have none: "List.find (\<lambda>x. si_name x = si_name r) rows = None"
    using other by (simp add: find_None_iff)
  have "awormap_view m' n = (case List.find (\<lambda>r. si_name r = n) (r # rows) of
      Some r \<Rightarrow> Some (row_view lib s r) | None \<Rightarrow> awormap_view m n)" for n
    unfolding m'(4) [rule_format] awormap_view_insert_new [OF new] i(2)
    using none by (cases "si_name r = n") auto
  with m'(1-3) i(1) show ?case by simp
qed simp

lemma small_item_ok: "small_item i \<Longrightarrow> pncounter_ok (amount i)"
  by (simp add: small_item_def small_counter_def pncounter_ok_def gcounter_ok_def)

lemma read_shopping_list_spec:
  assumes "sql_u64_law lib" "uuid_law lib" "cs_ok lib s"
  shows "\<exists>lst. read_shopping_list lib True s i = Ok lst \<and> sl_id lst = i \<and> sl_wf lst \<and>
    list_all small_item (hm_values (aw_items (sl_list lst))) \<and>
    awormap_view (sl_list lst) = item_at lib s (uuid_to_string lib i)"
proof -
  let ?l = "uuid_to_string lib i"
  let ?rows = "filter (\<lambda>r. ir_list_id r = ?l) (cs_items s)"
  have keys: "distinct (map row_key (cs_items s))" using assms(3) by (simp add: cs_ok_def items_ok_def)
  then have names: "distinct (map si_name ?rows)"
    by (auto simp: distinct_map inj_on_def row_key_def)
  have new: "hm_wf (aw_items awormap_new)" "\<forall>r\<in>set ?rows. hm_get (aw_items awormap_new) (si_name r) = None"
      "list_all small_item (hm_values (aw_items awormap_new))"
    by (simp_all add: awormap_new_def)
  have sub: "set ?rows \<subseteq> set (cs_items s)" by auto
  obtain m where m: "read_list_loop lib s ?rows awormap_new = Ok m" "hm_wf (aw_items m)"
      "list_all small_item (hm_values (aw_items m))"
      "\<forall>n. awormap_view m n = (case List.find (\<lambda>r. si_name r = n) ?rows of
         Some r \<Rightarrow> Some (row_view lib s r) | None \<Rightarrow> awormap_view awormap_new n)"
    using read_list_loop_spec [OF assms sub names new] by blast
  have "awormap_view m n = item_at lib s ?l n" for n
    unfolding m(4) [rule_format] find_in_filter item_at_def find_row_def
    by (simp add: awormap_view_def awormap_new_def split: option.split)
  moreover have "sl_wf \<lparr>sl_id = i, sl_list = m\<rparr>"
    using m(2,3) small_item_ok by (auto simp: sl_wf_def list_all_iff)
  ultimately show ?thesis
    using m(1,3) by (simp add: read_shopping_list_def fun_eq_iff)
qed

section \<open>The item a user edits\<close>

lemma gcounter_merge_inc:
  assumes "gcounter_ok g" "gcounter_inc_by g n = Ok g'"
  shows "gcounter_view (gcounter_merge g g') = gcounter_view g'"
    "gcounter_sum (gcounter_merge g g') = gcounter_sum g + unat n"
proof -
  note inc = gcounter_sum_inc_by [OF assms]
  let ?a = "gc_actor_id g"
  have "checked_add (gcounter_value_local g) n = Ok (gcounter_value_local g + n)"
    using assms(2) by (auto simp: gcounter_inc_by_def gcounter_value_local_def bind_res_Ok_iff checked_add_def
      split: if_splits)
  then have "unat (gcounter_value_local g) \<le> unat (gcounter_value_local g + n)"
    using checked_add_Ok by fastforce
  then have le: "gcounter_value_local g \<le> gcounter_value_local g + n" by (simp add: word_le_nat_alt)
  have "gcounter_view (gcounter_merge g g') k = gcounter_view g' k" for k
  proof -
    have "gcounter_view (gcounter_merge g g') k = join_opt (\<lambda>x y. max y x) (gcounter_view g k) (gcounter_view g' k)"
      using inc(1) by (simp add: gcounter_view_def gcounter_ok_def merge_into_get)
    also have "\<dots> = gcounter_view g' k"
    proof (cases "k = ?a")
      case True
      have "join_opt (\<lambda>x y. max y x) (gcounter_view g ?a) (Some (gcounter_value_local g + n)) =
          Some (gcounter_value_local g + n)"
        using le by (cases "gcounter_view g ?a")
          (simp_all add: gcounter_view_def gcounter_value_local_def hm_get_or_def max_def)
      then show ?thesis by (simp add: inc(4) True)
    next
      case False
      then show ?thesis by (cases "gcounter_view g k") (simp_all add: inc(4))
    qed
    finally show ?thesis .
  qed
  then show view: "gcounter_view (gcounter_merge g g') = gcounter_view g'" ..
  show "gcounter_sum (gcounter_merge g g') = gcounter_sum g + unat n"
    using gcounter_sum_view [OF gcounter.ok_merge [OF assms(1) inc(1)] inc(1) view] inc(2) by simp
qed

lemma gcounter_merge_self:
  assumes "gcounter_ok g"
  shows "gcounter_view (gcounter_merge g g) = gcounter_view g" "gcounter_sum (gcounter_merge g g) = gcounter_sum g"
  using gcounter.merge_idem [OF assms]
    gcounter_sum_view [OF gcounter.ok_merge [OF assms assms] assms gcounter.merge_idem [OF assms]]
  by simp_all

lemma small_counter_sum:
  assumes "gcounter_ok g" "gcounter_sum g < 2 ^ 63"
  shows "small_counter g"
proof -
  have "unat v < 2 ^ 63" if "v \<in> set (hm_values (gc_counter g))" for v
  proof -
    from that obtain k where "(k, v) \<in> set (gc_counter g)" by auto
    then have "hm_get_or (gc_counter g) k 0 = v"
      using assms(1) by (simp add: hm_get_or_def hm_get_in gcounter_ok_def)
    then show ?thesis using gcounter_entry_le_sum [OF assms(1), of k] assms(2) by simp
  qed
  with assms(1) show ?thesis by (simp add: small_counter_def gcounter_ok_def list_all_iff)
qed

text \<open>The sizes for which setting the quantity \<open>q\<close> of an item overflows nothing.\<close>

definition update_fits :: "u64 \<Rightarrow> item \<Rightarrow> bool" where
  "update_fits q i \<longleftrightarrow> gcounter_sum (pn_p (amount i)) < 2 ^ 63 \<and> gcounter_sum (pn_n (amount i)) < 2 ^ 63 \<and>
     unat q + gcounter_sum (pn_n (amount i)) < 2 ^ 63 \<and> unat (lww_clock (acquired i)) + 1 < 2 ^ 32"

text \<open>An item that shows quantity \<open>q\<close> and status \<open>acq\<close>.\<close>

definition shows_item :: "item \<Rightarrow> u64 \<Rightarrow> bool \<Rightarrow> bool" where
  "shows_item i q acq \<longleftrightarrow> pncounter_value_total (amount i) = Ok q \<and> unat q < 2 ^ 63 \<and>
     lww_val (acquired i) = bool_as_u32 acq"

lemma pncounter_total_word:
  assumes "gcounter_sum (pn_p c) < 2 ^ 63" "gcounter_sum (pn_n c) < 2 ^ 63"
    "gcounter_sum (pn_p c) = unat q + gcounter_sum (pn_n c)"
  shows "pncounter_value_total c = Ok q"
proof -
  obtain v where v: "pncounter_value_total c = Ok v" "sint v = int (unat q)"
    using pncounter_total_small [OF assms(1,2)] assms(3) by auto
  have "unat q < 2 ^ 63" using assms(1,3) by simp
  then have "sint v = sint q" using v(2) by (simp add: sint_unat_small)
  then show ?thesis using v(1) by (simp add: signed_word_eqI)
qed

lemma delta_in_i64: "p < 2 ^ 63 \<Longrightarrow> q + n < 2 ^ 63 \<Longrightarrow> in_i64 (int q - (int p - int n))"
  by (simp add: in_i64_def)

lemma neg_delta_in_i64: "p < 2 ^ 63 \<Longrightarrow> int q - (int p - int n) < 0 \<Longrightarrow> in_i64 (- (int q - (int p - int n)))"
  by (simp add: in_i64_def)

lemma update_amount:
  assumes ok: "pncounter_ok c" and P: "gcounter_sum (pn_p c) < 2 ^ 63" and N: "gcounter_sum (pn_n c) < 2 ^ 63"
    and Q: "unat q + gcounter_sum (pn_n c) < 2 ^ 63"
  shows "\<exists>v d c'. pncounter_value_total c = Ok v \<and> checked_sub_i64 q v = Ok d \<and>
    (if sint d > 0 then pncounter_inc_by c d
     else if sint d < 0 then bind_res (checked_neg_i64 d) (\<lambda>e. pncounter_dec_by c e) else Ok c) = Ok c' \<and>
    (let m = pncounter_merge c c' in pncounter_value_total m = Ok q \<and> small_counter (pn_p m) \<and> small_counter (pn_n m) \<and>
       dom (gcounter_view (pn_p c)) \<subseteq> dom (gcounter_view (pn_p m)) \<and>
       dom (gcounter_view (pn_n c)) \<subseteq> dom (gcounter_view (pn_n m)))"
proof -
  let ?P = "gcounter_sum (pn_p c)" and ?N = "gcounter_sum (pn_n c)"
  have p: "gcounter_ok (pn_p c)" and n: "gcounter_ok (pn_n c)" using ok by (simp_all add: pncounter_ok_def)
  obtain v where v: "pncounter_value_total c = Ok v" "sint v = int ?P - int ?N"
    using pncounter_total_small [OF P N] by blast
  have sq: "sint q = int (unat q)" using Q by (simp add: sint_unat_small)
  obtain d where d: "checked_sub_i64 q v = Ok d" "sint d = int (unat q) - (int ?P - int ?N)"
  proof -
    have "in_i64 (sint q - sint v)" unfolding sq v(2) using P Q by (rule delta_in_i64)
    then have "checked_sub_i64 q v = Ok (q - v)" by (simp add: checked_sub_i64_def)
    with that checked_sub_i64_Ok [OF this] show ?thesis by (simp add: sq v(2))
  qed
  have merge_ok: "gcounter_ok (pn_p (pncounter_merge c c'))" "gcounter_ok (pn_n (pncounter_merge c c'))"
    if "pncounter_ok c'" for c'
    using pncounter.ok_merge [OF ok that] by (simp_all add: pncounter_ok_def)
  have doms: "dom (gcounter_view (pn_p c)) \<subseteq> dom (gcounter_view (pn_p (pncounter_merge c c')))"
      "dom (gcounter_view (pn_n c)) \<subseteq> dom (gcounter_view (pn_n (pncounter_merge c c')))"
    if "pncounter_ok c'" for c'
    using that by (auto simp: pncounter_merge_def gcounter_view_def merge_into_get pncounter_ok_def gcounter_ok_def
        join_opt_def split: option.splits)
  have finish: ?thesis
    if c': "(if sint d > 0 then pncounter_inc_by c d
       else if sint d < 0 then bind_res (checked_neg_i64 d) (\<lambda>e. pncounter_dec_by c e) else Ok c) = Ok c'"
      and ok': "pncounter_ok c'"
      and sums: "gcounter_sum (pn_p (pncounter_merge c c')) < 2 ^ 63" "gcounter_sum (pn_n (pncounter_merge c c')) < 2 ^ 63"
        "gcounter_sum (pn_p (pncounter_merge c c')) = unat q + gcounter_sum (pn_n (pncounter_merge c c'))" for c'
    using v(1) d(1) c' pncounter_total_word [OF sums] small_counter_sum [OF merge_ok(1) [OF ok'] sums(1)]
      small_counter_sum [OF merge_ok(2) [OF ok'] sums(2)] doms [OF ok']
    by (auto simp: Let_def)
  consider "sint d > 0" | "sint d < 0" | "sint d = 0" by linarith
  then show ?thesis
  proof cases
    case 1
    then have "unat d < 2 ^ 63" by (intro sint_nonneg [THEN iffD1]) simp
    then have ud: "?P + unat d = unat q + ?N" using d(2) sint_unat_small [of d] by linarith
    obtain p' where p': "gcounter_inc_by (pn_p c) d = Ok p'"
      using gcounter_inc_by_total [OF p, of d] ud Q by auto
    show ?thesis
      using 1 p' ud Q N gcounter_merge_inc [OF p p'] gcounter_merge_self [OF n] gcounter_sum_inc_by(1) [OF p p'] n
      by (intro finish [of "c\<lparr>pn_p := p'\<rparr>"]) (auto simp: pncounter_inc_by_def pncounter_merge_def pncounter_ok_def)
  next
    case 2
    have "in_i64 (- sint d)" using P 2 unfolding d(2) by (rule neg_delta_in_i64)
    then have "checked_neg_i64 d = Ok (- d)" by (simp add: checked_neg_i64_def)
    then obtain e where e: "checked_neg_i64 d = Ok e" "sint e = - sint d"
      using checked_neg_i64_Ok by blast
    then have "unat e < 2 ^ 63" using 2 by (intro sint_nonneg [THEN iffD1]) simp
    then have ue: "?N + unat e + unat q = ?P" using e(2) d(2) sint_unat_small [of e] by linarith
    obtain n' where n': "gcounter_inc_by (pn_n c) e = Ok n'"
      using gcounter_inc_by_total [OF n, of e] ue P by auto
    show ?thesis
      using 2 e(1) n' ue Q P N gcounter_merge_inc [OF n n'] gcounter_merge_self [OF p] gcounter_sum_inc_by(1) [OF n n'] p
      by (intro finish [of "c\<lparr>pn_n := n'\<rparr>"]) (auto simp: pncounter_dec_by_def pncounter_merge_def pncounter_ok_def)
  next
    case 3
    then have "?P = unat q + ?N" using d(2) by linarith
    with 3 show ?thesis
      using P N Q gcounter_merge_self [OF p] gcounter_merge_self [OF n] ok
      by (intro finish [of c]) (auto simp: pncounter_merge_def)
  qed
qed

lemma register_merge_newer:
  assumes "checked_add (lww_clock r) 1 = Ok clock"
  shows "lwwreg_merge r (lwwreg_new v clock a) = lwwreg_new v clock a"
proof -
  have "lww_clock r < clock" using checked_add_Ok [OF assms] by (simp add: word_less_nat_alt)
  then show ?thesis by (simp add: lwwreg_merge_def lwwreg_should_update_def lwwreg_new_def)
qed

lemma register_merge_self: "lwwreg_merge r r = r"
  by (simp add: lwwreg_merge_def lwwreg_should_update_def)

lemma map_add_over: "dom f \<subseteq> dom g \<Longrightarrow> f ++ g = g"
  by (fastforce simp: fun_eq_iff map_add_def split: option.splits)

lemma update_item_spec:
  assumes "small_item i" "update_fits q i"
  shows "\<exists>i'. update_item c q acq i = Ok i' \<and> small_item i' \<and> shows_item i' q acq \<and>
    written_view (Some (item_view i)) i' = item_view i'"
proof -
  have ok: "pncounter_ok (amount i)" by (rule small_item_ok [OF assms(1)])
  note fits = assms(2) [unfolded update_fits_def]
  obtain v d c' where a: "pncounter_value_total (amount i) = Ok v" "checked_sub_i64 q v = Ok d"
      "(if sint d > 0 then pncounter_inc_by (amount i) d
        else if sint d < 0 then bind_res (checked_neg_i64 d) (\<lambda>e. pncounter_dec_by (amount i) e)
        else Ok (amount i)) = Ok c'"
      and m: "pncounter_value_total (pncounter_merge (amount i) c') = Ok q"
        "small_counter (pn_p (pncounter_merge (amount i) c'))" "small_counter (pn_n (pncounter_merge (amount i) c'))"
        "dom (gcounter_view (pn_p (amount i))) \<subseteq> dom (gcounter_view (pn_p (pncounter_merge (amount i) c')))"
        "dom (gcounter_view (pn_n (amount i))) \<subseteq> dom (gcounter_view (pn_n (pncounter_merge (amount i) c')))"
    using update_amount [OF ok] fits by (fastforce simp: Let_def)
  obtain clock where clock: "checked_add (lww_clock (acquired i)) 1 = Ok clock"
    using fits by (auto simp: checked_add_def)
  obtain r where r: "(if bool_as_u32 acq \<noteq> lww_val (acquired i)
        then bind_res (checked_add (lww_clock (acquired i)) 1) (\<lambda>clock. Ok (lwwreg_new (bool_as_u32 acq) clock c))
        else Ok (acquired i)) = Ok r" "lww_val (lwwreg_merge (acquired i) r) = bool_as_u32 acq"
  proof (cases "bool_as_u32 acq = lww_val (acquired i)")
    case True
    then show ?thesis using that [of "acquired i"] by (simp add: register_merge_self)
  next
    case False
    then show ?thesis
      using that [of "lwwreg_new (bool_as_u32 acq) clock c"] clock
      by (simp add: register_merge_newer [OF clock]) (simp add: lwwreg_new_def)
  qed
  let ?i = "item_merge i (i\<lparr>amount := c', acquired := r\<rparr>)"
  have "update_item c q acq i = Ok ?i"
    unfolding update_item_def using a r(1) by simp
  moreover have "small_item ?i" using m(2,3) by (simp add: small_item_def item_merge_def)
  moreover have "unat q < 2 ^ 63" using fits by simp
  then have "shows_item ?i q acq" using m(1) r(2) by (simp add: shows_item_def item_merge_def)
  moreover have "written_view (Some (item_view i)) ?i = item_view ?i"
    using m(4,5) by (simp add: written_view_def item_view_def pncounter_view_def item_merge_def map_add_over)
  ultimately show ?thesis by blast
qed

text \<open>What an item shows depends on its view only.\<close>

lemma gcounter_total:
  "gcounter_value_total g =
     (if gcounter_sum g < 2 ^ 64 then Ok (of_nat (gcounter_sum g)) else Err overflow)"
proof (cases "gcounter_sum g < 2 ^ 64")
  case False
  then show ?thesis by (simp add: gcounter_value_total_def sum_u64_spec gcounter_sum_def del: map_map)
qed (simp add: gcounter_total_small)

lemma same_view_shows:
  assumes "item_view i = item_view j" "pncounter_ok (amount i)" "pncounter_ok (amount j)" "shows_item i q acq"
  shows "shows_item j q acq"
proof -
  have "gcounter_sum (pn_p (amount i)) = gcounter_sum (pn_p (amount j))"
      "gcounter_sum (pn_n (amount i)) = gcounter_sum (pn_n (amount j))"
    using assms(1-3) by (auto simp: item_view_def pncounter_view_def pncounter_ok_def intro: gcounter_sum_view)
  then have "pncounter_value_total (amount i) = pncounter_value_total (amount j)"
    by (simp only: pncounter_value_total_def gcounter_total)
  with assms(1,4) show ?thesis by (simp add: shows_item_def item_view_def)
qed

lemma item_new_shows:
  assumes "unat q < 2 ^ 63"
  shows "shows_item (item_new q acq c) q acq" "small_item (item_new q acq c)"
proof -
  have sums: "gcounter_sum (gcounter_with_count c v) = unat v" for v
    by (simp add: gcounter_sum_def gcounter_with_count_def)
  show "shows_item (item_new q acq c) q acq"
    using assms pncounter_total_word [of "pncounter_with_count c q" q]
    by (simp add: shows_item_def item_new_def pncounter_with_count_def sums)
  show "small_item (item_new q acq c)"
    using assms by (simp add: small_item_def small_counter_def item_new_def pncounter_with_count_def
        gcounter_with_count_def)
qed

text \<open>The request fits when the list's item, if there is one, can be set to the quantity.\<close>

definition request_fits :: "'x sql_lib_scheme \<Rightarrow> client_storage \<Rightarrow> string \<Rightarrow> string \<Rightarrow> u64 \<Rightarrow> bool" where
  "request_fits lib s list_id name q \<longleftrightarrow>
     (case find_row s list_id name of
        None \<Rightarrow> unat q < 2 ^ 63
      | Some r \<Rightarrow> (case build_item lib s r of Inl _ \<Rightarrow> False | Inr i \<Rightarrow> update_fits q i))"

lemma ensure_list_fields:
  assumes "ensure_list lib True s i = Ok s1"
  shows "find_row s1 = find_row s" "cs_ok lib' s1 = cs_ok lib' s" "item_at lib' s1 = item_at lib' s"
    "cs_client_id s1 = cs_client_id s" "build_item lib' s1 r = build_item lib' s r"
    "set (cs_local_lists s1) = insert (uuid_to_string lib i) (set (cs_local_lists s))"
proof -
  have "s1 = s \<or> s1 = s\<lparr>cs_local_lists := cs_local_lists s @ [uuid_to_string lib i]\<rparr>"
    using assms by (auto simp: ensure_list_def split: if_splits)
  then show find: "find_row s1 = find_row s" and "cs_ok lib' s1 = cs_ok lib' s"
      and "cs_client_id s1 = cs_client_id s" and "build_item lib' s1 r = build_item lib' s r"
    by (auto simp: find_row_def cs_ok_def values_ok_def items_ok_def build_item_def read_gcounter_def fun_eq_iff)
  have row: "row_view lib' s1 = row_view lib' s"
    using assms by (auto simp: row_view_def counter_at_def fun_eq_iff ensure_list_def split: if_splits)
  show "item_at lib' s1 = item_at lib' s" by (intro ext) (simp only: item_at_def find row)
  show "set (cs_local_lists s1) = insert (uuid_to_string lib i) (set (cs_local_lists s))"
    using assms by (auto simp: ensure_list_def split: if_splits)
qed

lemma request_writes:
  assumes laws: "sql_u64_law lib" "uuid_law lib" and ok: "cs_ok lib s"
    and fits: "request_fits lib s (uuid_to_string lib i) name q"
  shows "\<exists>s1 s' itm. ensure_list lib True s i = Ok s1 \<and>
    handle_item_storage_request lib True True True name q acq i s = (s', Ok ()) \<and>
    writes_item lib s1 (uuid_to_string lib i) name itm s' \<and> small_item itm \<and> shows_item itm q acq \<and>
    written_view (item_at lib s1 (uuid_to_string lib i) name) itm = item_view itm"
proof -
  let ?l = "uuid_to_string lib i"
  obtain s1 where s1: "ensure_list lib True s i = Ok s1"
    by (cases "?l \<in> set (cs_local_lists s)") (auto simp: ensure_list_def)
  note f = ensure_list_fields [OF s1]
  have ok1: "cs_ok lib s1" using ok by (simp add: f(2))
  show ?thesis
  proof (cases "find_row s ?l name")
    case None
    then have q: "unat q < 2 ^ 63" "find_row s1 ?l name = None"
      using fits f(1) by (simp_all add: request_fits_def)
    obtain s' where s': "write_item lib True s1 ?l (item_new q acq (cs_client_id s1)) name = Ok s'"
        "writes_item lib s1 ?l name (item_new q acq (cs_client_id s1)) s'"
      using write_item_writes [OF laws ok1 q(2) item_new_shows(2) [OF q(1)]] by blast
    moreover have "item_at lib s1 ?l name = None" using q(2) by (simp add: item_at_def)
    ultimately show ?thesis
      using s1 q item_new_shows [OF q(1)]
      by (auto simp: handle_item_storage_request_def act_bind_def read_item_def written_view_def)
  next
    case (Some r)
    then have r: "find_row s1 ?l name = Some r" using f(1) by simp
    then have "r \<in> set (cs_items s1)" using find_row_Some by blast
    then obtain stored where stored: "build_item lib s1 r = Ok stored" "item_view stored = row_view lib s1 r"
        "small_item stored"
      using build_item_spec [OF laws ok1] by blast
    then have "update_fits q stored" using fits Some by (simp add: request_fits_def flip: f(5))
    then obtain itm where itm: "update_item (cs_client_id s1) q acq stored = Ok itm" "small_item itm"
        "shows_item itm q acq" "written_view (Some (item_view stored)) itm = item_view itm"
      using update_item_spec [OF stored(3)] by blast
    obtain s' where s': "overwrite_item lib True s1 itm (si_item_id r) (si_p_id r) (si_n_id r) = Ok s'"
        "writes_item lib s1 ?l name itm s'"
      using overwrite_item_writes [OF laws(2) ok1 r itm(2)] by blast
    have "written_view (item_at lib s1 ?l name) itm = item_view itm"
      using itm(4) stored(2) r by (simp add: item_at_def)
    with s1 r stored(1) itm s' show ?thesis
      by (auto simp: handle_item_storage_request_def act_bind_def read_item_def)
  qed
qed

lemma sint_big:
  assumes "unat (q :: u64) \<ge> 2 ^ 63"
  shows "sint q = int (unat q) - 2 ^ 64"
proof -
  have "int (2 ^ 63) \<le> int (unat q)" using assms by (simp only: of_nat_le_iff)
  then have "uint q \<ge> 2 ^ 63" by simp
  then have "in_i64 (uint q - 2 ^ 64)" using uint_lt2p [of q] by (simp add: in_i64_def)
  then have "sint (of_int (uint q - 2 ^ 64) :: i64) = uint q - 2 ^ 64" by (rule sint_of_int_i64)
  moreover have eq: "(of_int (uint q - 2 ^ 64) :: i64) = q" by simp
  ultimately have "sint q = uint q - 2 ^ 64" unfolding eq by blast
  then show ?thesis by (simp only: uint_nat)
qed

lemma smallest_i64:
  "d = n - 2 ^ 64 - c \<Longrightarrow> in_i64 (n - 2 ^ 64 - c) \<Longrightarrow> n \<le> 2 ^ 63 + c \<Longrightarrow> d = - (2 ^ 63)"
  by (simp add: in_i64_def)

text \<open>Counts that SQLite cannot hold make the write fail.\<close>

lemma replace_values_errors: "replace_values lib g kvs s = Err e \<Longrightarrow> e = sqlite_error"
proof (induction kvs arbitrary: s)
  case (Cons kv kvs)
  obtain u w where kv: "kv = (u, w)" by force
  show ?case
  proof (cases "u64_to_sql lib w")
    case (Some v)
    show ?thesis by (rule Cons.IH) (use Cons.prems in \<open>simp add: kv Some\<close>)
  qed (use Cons.prems in \<open>simp add: kv\<close>)
qed simp

lemma replace_values_refuses:
  assumes "sql_u64_law lib" "unat v \<ge> 2 ^ 63"
  shows "v \<in> set (hm_values kvs) \<Longrightarrow> replace_values lib g kvs s = Err sqlite_error"
proof (induction kvs arbitrary: s)
  case (Cons e kvs)
  obtain u w where e: "e = (u, w)" by force
  have "u64_to_sql lib w = (if unat w < 2 ^ 63 then Some w else None)"
    using assms(1) unfolding sql_u64_law_def by blast
  with Cons assms(2) show ?case by (cases "unat w < 2 ^ 63") (auto simp: e)
qed simp

lemma write_list_item_errors: "write_list_item lib l s (n, i) = Err e \<Longrightarrow> e = sqlite_error"
  by (auto simp: write_list_item_def bind_res_Err_iff dest: replace_values_errors split: option.splits prod.splits)

lemma write_list_item_refuses:
  assumes "sql_u64_law lib" "unat v \<ge> 2 ^ 63"
    "v \<in> set (hm_values (gc_counter (pn_p (amount i)))) \<union> set (hm_values (gc_counter (pn_n (amount i))))"
  shows "write_list_item lib l s (n, i) = Err sqlite_error"
proof -
  note refuse = replace_values_refuses [OF assms(1,2)]
  obtain s1 p_id n_id where ids: "(case find_row s l n of
         Some r \<Rightarrow> (s, si_p_id r, si_n_id r)
       | None \<Rightarrow> (let (t, p) = new_gcounter s; (t', n) = new_gcounter t in (t', p, n))) = (s1, p_id, n_id)"
    by (rule prod_cases3)
  show ?thesis
  proof (cases "replace_values lib p_id (gc_counter (pn_p (amount i))) s1")
    case (Inl e)
    then show ?thesis using ids replace_values_errors [OF Inl] by (simp add: write_list_item_def)
  next
    case (Inr s2)
    then have "v \<in> set (hm_values (gc_counter (pn_n (amount i))))"
      using assms(3) refuse [of "gc_counter (pn_p (amount i))" p_id s1] by auto
    then show ?thesis using ids Inr refuse by (simp add: write_list_item_def)
  qed
qed

lemma run_res_refuses:
  assumes "\<And>s e x. f s x = Err e \<Longrightarrow> e = err" "\<And>s. f s y = Err err"
  shows "y \<in> set xs \<Longrightarrow> run_res f s xs = Err err"
proof (induction xs arbitrary: s)
  case (Cons x xs)
  then show ?case using assms by (cases "f s x") auto
qed simp


section \<open>A client to evaluate on\<close>

definition sample_sql :: sql_lib where
  "sample_sql = \<lparr>uuid_to_string = uuid_to_string sample_lib, uuid_parse = uuid_parse sample_lib,
     md5 = md5 sample_lib, u64_to_sql = (\<lambda>v. if v < 2 ^ 63 then Some v else None),
     u64_from_sql = (\<lambda>v. if v < 2 ^ 63 then Some v else None)\<rparr>"

lemma sample_sql_simps [simp]:
  "uuid_to_string sample_sql u = replicate (unat u) CHR ''x''"
  "uuid_parse sample_sql str = Some (of_nat (length str))"
  "u64_to_sql sample_sql v = (if v < 2 ^ 63 then Some v else None)"
  "u64_from_sql sample_sql v = (if v < 2 ^ 63 then Some v else None)"
  by (simp_all add: sample_sql_def sample_lib_def)

lemma sample_sql_laws [simp]: "sql_u64_law sample_sql" "uuid_law sample_sql"
  by (simp_all add: sql_u64_law_def uuid_law_def sint_nonneg word_less_nat_alt)

text \<open>Client 3 with one list, 7, that has five cartons of milk.\<close>

definition sample_client :: client_storage where
  "sample_client = \<lparr>cs_client_id = 3, cs_local_lists = [''xxxxxxx''], cs_gcounters = [1, 2],
     cs_next_gcounter = 3, cs_values = [((1, ''xxx''), 5), ((2, ''xxx''), 0)],
     cs_items = [\<lparr>si_item_id = 1, si_name = ''milk'', si_acquired_val = 0, si_acquired_clock = 0,
       si_acquired_actor = ''xxx'', si_p_id = 1, si_n_id = 2, ir_list_id = ''xxxxxxx''\<rparr>],
     cs_next_item = 2, cs_cached_lists = []\<rparr>"

lemma sample_names: "uuid_to_string sample_sql 3 = ''xxx''" "uuid_to_string sample_sql 7 = ''xxxxxxx''"
proof -
  have "unat (3 :: uuid) = 3" "unat (7 :: uuid) = 7" by simp_all
  then show "uuid_to_string sample_sql 3 = ''xxx''" "uuid_to_string sample_sql 7 = ''xxxxxxx''"
    unfolding sample_sql_simps by (simp_all only:) (simp_all add: eval_nat_numeral)
qed

lemma sample_client_ok: "cs_ok sample_sql sample_client"
  unfolding cs_ok_def values_ok_def items_ok_def sample_client_def
  by (auto simp: hm_wf_def row_key_def simp del: sample_sql_simps intro: sample_names(1) [symmetric])

lemma sample_client_find:
  "find_row sample_client (uuid_to_string sample_sql 7) ''milk'' = Some (hd (cs_items sample_client))"
  "find_row sample_client (uuid_to_string sample_sql 7) ''tea'' = None"
  unfolding sample_names by (simp_all add: find_row_def sample_client_def)

lemma sample_client_item:
  "build_item sample_sql sample_client (hd (cs_items sample_client)) = Ok (item_new 5 False 3)"
  by (simp add: build_item_def read_gcounter_def sample_client_def item_new_def pncounter_with_count_def
      gcounter_with_count_def lwwreg_new_def bool_as_u32_def)

lemma sample_client_fits:
  "request_fits sample_sql sample_client (uuid_to_string sample_sql 7) ''milk'' 2"
  by (simp add: request_fits_def sample_client_find sample_client_item update_fits_def item_new_def
      pncounter_with_count_def gcounter_with_count_def gcounter_sum_def del: sample_sql_simps)


text \<open>An item set and read back.\<close>

lemma edit_sets_item:
  assumes "sql_u64_law lib" "uuid_law lib" "cs_ok lib s"
    and "request_fits lib s (uuid_to_string lib i) name q"
  shows "\<exists>s' lst itm. handle_item_storage_request lib True True True name q acq i s = (s', Ok ()) \<and>
    cs_ok lib s' \<and> read_shopping_list lib True s' i = Ok lst \<and>
    hm_get (aw_items (sl_list lst)) name = Some itm \<and> shows_item itm q acq \<and>
    (\<forall>l n. (l, n) \<noteq> (uuid_to_string lib i, name) \<longrightarrow> item_at lib s' l n = item_at lib s l n) \<and>
    set (cs_local_lists s') = insert (uuid_to_string lib i) (set (cs_local_lists s))"
proof -
  obtain s1 s' itm where s1: "ensure_list lib True s i = Ok s1"
    and run: "handle_item_storage_request lib True True True name q acq i s = (s', Ok ())"
    and w: "writes_item lib s1 (uuid_to_string lib i) name itm s'" "small_item itm" "shows_item itm q acq"
      "written_view (item_at lib s1 (uuid_to_string lib i) name) itm = item_view itm"
    using request_writes [OF assms] by blast
  note f = ensure_list_fields [OF s1] and d = writes_itemD [OF w(1)]
  obtain lst where lst: "read_shopping_list lib True s' i = Ok lst"
      "list_all small_item (hm_values (aw_items (sl_list lst)))"
      "awormap_view (sl_list lst) = item_at lib s' (uuid_to_string lib i)"
    using read_shopping_list_spec [OF assms(1,2) d(1), of i] by blast
  have "awormap_view (sl_list lst) name = Some (item_view itm)"
    by (simp add: lst(3) d(2) w(4))
  then obtain got where got: "hm_get (aw_items (sl_list lst)) name = Some got" "item_view got = item_view itm"
    by (auto simp: awormap_view_def)
  then have "small_item got" using lst(2) by (force simp: list_all_iff dest: map_of_SomeD)
  then have "shows_item got q acq"
    using same_view_shows [OF got(2) [symmetric] small_item_ok small_item_ok w(3)] w(2) by simp
  then show ?thesis using run lst(1) got(1) d(1,3) f(6) by (auto simp: d(2) f(3))
qed

text \<open>A list written and read back.\<close>

lemma written_list_reads_back:
  assumes "sql_u64_law lib" "uuid_law lib" "cs_ok lib s"
    and "hm_wf (aw_items (sl_list lst))" "list_all small_item (hm_values (aw_items (sl_list lst)))"
  shows "\<exists>s' got. write_shopping_list lib True s lst = Ok s' \<and> cs_ok lib s' \<and>
    read_shopping_list lib True s' (sl_id lst) = Ok got \<and> sl_id got = sl_id lst \<and>
    (\<forall>n. awormap_view (sl_list got) n =
      (case hm_get (aw_items (sl_list lst)) n of
         Some i \<Rightarrow> Some (written_view (item_at lib s (uuid_to_string lib (sl_id lst)) n) i)
       | None \<Rightarrow> item_at lib s (uuid_to_string lib (sl_id lst)) n)) \<and>
    (\<forall>l n. l \<noteq> uuid_to_string lib (sl_id lst) \<longrightarrow> item_at lib s' l n = item_at lib s l n) \<and>
    cs_local_lists s' = cs_local_lists s"
proof -
  let ?l = "uuid_to_string lib (sl_id lst)"
  obtain s' where s': "run_res (write_list_item lib ?l) s (aw_items (sl_list lst)) = Ok s'" "cs_ok lib s'"
      "cs_local_lists s' = cs_local_lists s"
      "\<forall>l' n. item_at lib s' l' n = (if l' = ?l
         then (case hm_get (aw_items (sl_list lst)) n of
             Some i \<Rightarrow> Some (written_view (item_at lib s ?l n) i) | None \<Rightarrow> item_at lib s ?l n)
         else item_at lib s l' n)"
    using write_items_run [OF assms(1-5), of ?l] by blast
  obtain got where "read_shopping_list lib True s' (sl_id lst) = Ok got" "sl_id got = sl_id lst"
      "awormap_view (sl_list got) = item_at lib s' ?l"
    using read_shopping_list_spec [OF assms(1,2) s'(2), of "sl_id lst"] by blast
  with s' show ?thesis by (simp add: write_shopping_list_def)
qed


section \<open>Properties\<close>

text \<open>C11: Setting an item works: a request that overflows nothing succeeds, the list then reads back
  with the item at exactly the requested quantity and status, whether the item was there or not, the
  list is one of the user's lists, and no other item of any list has changed.\<close>

theorem user_edit_sets_item:
  assumes "sql_u64_law lib" "uuid_law lib" "cs_ok lib s"
    and "request_fits lib s (uuid_to_string lib i) name q"
  shows "\<exists>s' lst itm. handle_item_storage_request lib True True True name q acq i s = (s', Ok ()) \<and>
    cs_ok lib s' \<and> read_shopping_list lib True s' i = Ok lst \<and>
    hm_get (aw_items (sl_list lst)) name = Some itm \<and> shows_item itm q acq \<and>
    (\<forall>l n. (l, n) \<noteq> (uuid_to_string lib i, name) \<longrightarrow> item_at lib s' l n = item_at lib s l n) \<and>
    set (cs_local_lists s') = insert (uuid_to_string lib i) (set (cs_local_lists s))"
  using edit_sets_item [OF assms] .

theorem user_edit_sets_item_witness:
  "\<exists>s' lst itm. handle_item_storage_request sample_sql True True True ''milk'' 2 True 7 sample_client = (s', Ok ()) \<and>
    read_shopping_list sample_sql True s' 7 = Ok lst \<and>
    hm_get (aw_items (sl_list lst)) ''milk'' = Some itm \<and> shows_item itm 2 True"
  using user_edit_sets_item [OF sample_sql_laws sample_client_ok sample_client_fits, of True] by blast

text \<open>C18: A list written to the client's database and read back has every item of the written list and
  keeps the items it already had: an item that was not stored reads back as written; of an item that
  was stored, the counts of the actors the new item names are replaced (not merged), the counts of
  other actors stay, and the status is the new one. Nothing else changes; in particular the list does not
  become one of the user's lists.\<close>

theorem client_list_roundtrip:
  assumes "sql_u64_law lib" "uuid_law lib" "cs_ok lib s"
    and "hm_wf (aw_items (sl_list lst))" "list_all small_item (hm_values (aw_items (sl_list lst)))"
  shows "\<exists>s' got. write_shopping_list lib True s lst = Ok s' \<and> cs_ok lib s' \<and>
    read_shopping_list lib True s' (sl_id lst) = Ok got \<and> sl_id got = sl_id lst \<and>
    (\<forall>n. awormap_view (sl_list got) n =
      (case hm_get (aw_items (sl_list lst)) n of
         Some i \<Rightarrow> Some (written_view (item_at lib s (uuid_to_string lib (sl_id lst)) n) i)
       | None \<Rightarrow> item_at lib s (uuid_to_string lib (sl_id lst)) n)) \<and>
    (\<forall>l n. l \<noteq> uuid_to_string lib (sl_id lst) \<longrightarrow> item_at lib s' l n = item_at lib s l n) \<and>
    cs_local_lists s' = cs_local_lists s"
  using written_list_reads_back [OF assms] .

theorem client_list_roundtrip_witness:
  "\<exists>s' got. write_shopping_list sample_sql True sample_client milk_list = Ok s' \<and>
    read_shopping_list sample_sql True s' (sl_id milk_list) = Ok got \<and> sl_id got = sl_id milk_list \<and>
    cs_local_lists s' = cs_local_lists sample_client"
proof -
  have "hm_wf (aw_items (sl_list milk_list))" "list_all small_item (hm_values (aw_items (sl_list milk_list)))"
    by (simp_all add: milk_list_def awormap_insert_def awormap_new_def item_new_shows(2))
  from client_list_roundtrip [OF sample_sql_laws sample_client_ok this] show ?thesis by blast
qed

text \<open>A list with a count of \<open>2 ^ 63\<close> or more cannot be stored by a client: SQLite's integers are
  signed, the conversion refuses the count, and the transaction leaves the tables as they were.\<close>

lemma client_refuses_huge_counts:
  assumes "sql_u64_law lib" "hm_get (aw_items (sl_list lst)) name = Some i"
    and "v \<in> set (hm_values (gc_counter (pn_p (amount i))) @ hm_values (gc_counter (pn_n (amount i))))"
    and "unat v \<ge> 2 ^ 63"
  shows "write_shopping_list lib True s lst = Err sqlite_error"
proof -
  have "(name, i) \<in> set (aw_items (sl_list lst))" using assms(2) by (rule map_of_SomeD)
  moreover have "v \<in> set (hm_values (gc_counter (pn_p (amount i)))) \<union> set (hm_values (gc_counter (pn_n (amount i))))"
    using assms(3) by simp
  note write_list_item_refuses [OF assms(1,4) this]
  ultimately have "run_res (write_list_item lib l) s (aw_items (sl_list lst)) = Err sqlite_error" for l
    using write_list_item_errors by (intro run_res_refuses [where y = "(name, i)"]) auto
  then show ?thesis by (simp add: write_shopping_list_def)
qed

lemma client_refuses_huge_counts_witness:
  "write_shopping_list sample_sql True sample_client
     \<lparr>sl_id = 7, sl_list = awormap_insert awormap_new ''milk'' (item_new (2 ^ 63) False 1)\<rparr> = Err sqlite_error"
proof -
  let ?lst = "\<lparr>sl_id = 7, sl_list = awormap_insert awormap_new ''milk'' (item_new (2 ^ 63) False 1)\<rparr>"
  have "hm_get (aw_items (sl_list ?lst)) ''milk'' = Some (item_new (2 ^ 63) False 1)"
    by (simp add: awormap_insert_def awormap_new_def)
  from client_refuses_huge_counts [OF sample_sql_laws(1) this, of "2 ^ 63"] show ?thesis
    by (simp add: item_new_def pncounter_with_count_def gcounter_with_count_def)
qed

text \<open>C39: When the user sets a stored item to a quantity from \<open>2 ^ 63\<close> up to \<open>2 ^ 63\<close> plus its current total,
  which the item menu accepts, the client panics: the cast to \<open>i64\<close> makes the quantity negative, and either
  the subtraction of the total or the negation of the difference overflows. Of the tables nothing is written but the row
  of \<open>local_lists\<close> that makes the list one of the user's own, when it was not yet one.\<close>

theorem huge_quantity_panics:
  assumes "read_item lib True s name i = Ok (Some row)" "build_item lib s row = Ok itm"
    and "pncounter_value_total (amount itm) = Ok cur"
    and "unat q \<ge> 2 ^ 63" "int (unat q) \<le> 2 ^ 63 + sint cur"
  shows "handle_item_storage_request lib True True write_ok name q acq i s =
    (if uuid_to_string lib i \<in> set (cs_local_lists s) then s
     else s\<lparr>cs_local_lists := cs_local_lists s @ [uuid_to_string lib i]\<rparr>, Err overflow)"
proof -
  have q: "sint q = int (unat q) - 2 ^ 64" by (rule sint_big [OF assms(4)])
  have update: "update_item (cs_client_id s) q acq itm = Err overflow"
  proof (cases "in_i64 (sint q - sint cur)")
    case True
    then have d: "checked_sub_i64 q cur = Ok (q - cur)" by (simp add: checked_sub_i64_def)
    have "sint (q - cur) = - (2 ^ 63)"
      using checked_sub_i64_Ok [OF d] True assms(5) unfolding q by (rule smallest_i64)
    then show ?thesis using assms(3) d by (simp add: update_item_def checked_neg_i64_def in_i64_def)
  next
    case False
    then show ?thesis using assms(3) by (simp add: update_item_def checked_sub_i64_def)
  qed
  have "build_item lib (s\<lparr>cs_local_lists := ls\<rparr>) row = Ok itm" for ls
    using assms(2) by (simp add: build_item_def read_gcounter_def)
  moreover have "read_item lib True (s\<lparr>cs_local_lists := ls\<rparr>) name i = Ok (Some row)" for ls
    using assms(1) by (simp add: read_item_def find_row_def)
  ultimately show ?thesis
    using assms(1,2) by (simp add: handle_item_storage_request_def act_bind_apply ensure_list_def update)
qed

theorem huge_quantity_panics_witness:
  "handle_item_storage_request sample_sql True True True ''milk'' (2 ^ 63 + 5) False 7 sample_client =
     (sample_client, Err overflow)"
proof -
  have total: "pncounter_value_total (amount (item_new 5 False 3)) = Ok 5"
    using item_new_shows(1) [of 5 False 3] by (simp add: shows_item_def)
  have "uuid_to_string sample_sql 7 \<in> set (cs_local_lists sample_client)"
    unfolding sample_names by (simp add: sample_client_def)
  with huge_quantity_panics [OF _ sample_client_item total, of "''milk''" 7 "2 ^ 63 + 5"] show ?thesis
    unfolding read_item_def sample_client_find(1) by simp
qed

end
