(* ===== verification/Client_Net.thy ===== *)
theory Client_Net
  imports Client_Lists Message
begin

text \<open>
  The client of \<open>src/client.rs\<close>: its local storage and its \<open>REQ\<close> socket to the proxy.

  What the outside does is read from a world, as for the peers: every call of ZeroMQ and of SQLite
  takes the next tick of the client and finds its outcome there. The bytes of a reply and their
  decoding are parameters. Encoding a message cannot fail for the message types of the program, and
  messages are sent as values. The messages that were sent are kept in a log.
\<close>

section \<open>What the user interface is shown\<close>

record shopping_list_interface =
  sli_list_id :: uuid
  sli_items :: "(string, u64 \<times> bool) hash_map"

record item_interface =
  ii_name :: string
  ii_amount :: u64
  ii_acquired :: bool

fun from_crdt_loop ::
    "(string \<times> item) list \<Rightarrow> (string, u64 \<times> bool) hash_map \<Rightarrow> (string, u64 \<times> bool) hash_map res" where
  "from_crdt_loop [] items = Ok items"
| "from_crdt_loop ((k, v) # kvs) items =
     bind_res (pncounter_value_total (amount v)) (\<lambda>total.
     from_crdt_loop kvs (hm_insert k (total, lww_val (acquired v) \<noteq> 0) items))"

definition from_crdt :: "shopping_list \<Rightarrow> shopping_list_interface res" where
  "from_crdt sl = bind_res (from_crdt_loop (aw_items (sl_list sl)) []) (\<lambda>items.
     Ok \<lparr>sli_list_id = sl_id sl, sli_items = items\<rparr>)"


section \<open>The client and its world\<close>

text \<open>What \<open>recv_msg\<close> gives: a message, no message in time (\<open>EAGAIN\<close>), or another error.\<close>

datatype 'c reply = Reply 'c | Eagain | Recv_Error string

record 'c client_world = sql_lib +
  c_sql_ok :: "nat \<Rightarrow> bool"
  c_zmq :: "nat \<Rightarrow> string option"
  c_recv :: "nat \<Rightarrow> 'c reply"
  c_from_slice :: "'c \<Rightarrow> msg option"

record client =
  cl_id :: uuid
  cl_storage :: client_storage
  cl_sent :: "msg list"
  cl_tick :: nat

text \<open>\<open>Client::new\<close>, once its storage is open and its socket connected.\<close>

definition client_new :: "client_storage \<Rightarrow> client" where
  "client_new storage_handler =
     \<lparr>cl_id = cs_client_id storage_handler, cl_storage = storage_handler, cl_sent = [], cl_tick = 0\<rparr>"

definition client_tick :: "(nat \<Rightarrow> 'a) \<Rightarrow> (client, 'a) act" where
  "client_tick f = (\<lambda>c. (c\<lparr>cl_tick := cl_tick c + 1\<rparr>, Ok (f (cl_tick c))))"

definition client_zmq :: "('c, 'x) client_world_scheme \<Rightarrow> (client, unit) act" where
  "client_zmq w = act_bind (client_tick (c_zmq w))
     (\<lambda>r. case r of None \<Rightarrow> act_ret () | Some e \<Rightarrow> act_err (Fail e))"

text \<open>A call that changes the storage; what it leaves is kept also when it fails.\<close>

definition on_storage :: "(client_storage, 'a) act \<Rightarrow> (client, 'a) act" where
  "on_storage m = (\<lambda>c. case m (cl_storage c) of (s', r) \<Rightarrow> (c\<lparr>cl_storage := s'\<rparr>, r))"

definition client_read_list ::
    "('c, 'x) client_world_scheme \<Rightarrow> uuid \<Rightarrow> (client, shopping_list) act" where
  "client_read_list w list_id =
     act_bind (client_tick (c_sql_ok w)) (\<lambda>sql_ok.
     act_bind (act_gets (\<lambda>c. read_shopping_list w sql_ok (cl_storage c) list_id)) act_of_res)"

definition client_write_list ::
    "('c, 'x) client_world_scheme \<Rightarrow> shopping_list \<Rightarrow> (client, unit) act" where
  "client_write_list w lst =
     act_bind (client_tick (c_sql_ok w)) (\<lambda>sql_ok.
     act_bind (act_gets (\<lambda>c. write_shopping_list w sql_ok (cl_storage c) lst)) (\<lambda>r.
     act_bind (act_of_res r) (\<lambda>s. act_modify (\<lambda>c. c\<lparr>cl_storage := s\<rparr>))))"


section \<open>Operations\<close>

definition reset_socket :: "('c, 'x) client_world_scheme \<Rightarrow> (client, unit) act" where
  "reset_socket w = act_seq (client_zmq w) (client_zmq w)"

definition retrieve_available_lists ::
    "('c, 'x) client_world_scheme \<Rightarrow> (client, shopping_list_interface list option) act" where
  "retrieve_available_lists w =
     act_bind (client_tick (c_sql_ok w)) (\<lambda>sql_ok.
     act_bind (act_gets (\<lambda>c. get_user_lists w sql_ok (cl_storage c))) (\<lambda>r.
     act_bind (act_of_res r) (\<lambda>lists. case lists of
       Some vec \<Rightarrow> act_bind (act_of_res (collect_res from_crdt vec)) (\<lambda>v. act_ret (Some v))
     | None \<Rightarrow> act_ret None)))"

definition client_send :: "('c, 'x) client_world_scheme \<Rightarrow> msg \<Rightarrow> (client, unit) act" where
  "client_send w m = act_seq (client_zmq w) (act_modify (\<lambda>c. c\<lparr>cl_sent := cl_sent c @ [m]\<rparr>))"

definition fetch_list ::
    "('c, 'x) client_world_scheme \<Rightarrow> shopping_list \<Rightarrow> (client, shopping_list option) act" where
  "fetch_list w lst =
     act_bind (act_try (client_send w (GetList lst))) (\<lambda>sent. case sent of
       Inl _ \<Rightarrow> act_seq (reset_socket w) (act_ret None)
     | Inr _ \<Rightarrow>
         act_bind (client_tick (c_recv w)) (\<lambda>reply_res. case reply_res of
           Reply reply \<Rightarrow> (case c_from_slice w reply of
               None \<Rightarrow> act_err (Fail ''serde error'')
             | Some (AckList _ l) \<Rightarrow>
                 act_ret (Some (lst\<lparr>sl_list := awormap_merge (sl_list lst) (sl_list l)\<rparr>))
             | Some (Nack _) \<Rightarrow> act_ret None
             | Some _ \<Rightarrow> act_err (Fail ''Unexpected response from server''))
         | Eagain \<Rightarrow> act_seq (reset_socket w) (act_ret None)
         | Recv_Error e \<Rightarrow> act_err (Fail e)))"

definition send_list :: "('c, 'x) client_world_scheme \<Rightarrow> shopping_list \<Rightarrow> (client, unit) act" where
  "send_list w lst =
     act_bind (act_try (client_send w (PutList lst))) (\<lambda>sent. case sent of
       Inl _ \<Rightarrow> act_seq (reset_socket w) (act_ret ())
     | Inr _ \<Rightarrow>
         act_bind (client_tick (c_recv w)) (\<lambda>reply_res. case reply_res of
           Reply reply \<Rightarrow> (case c_from_slice w reply of
               None \<Rightarrow> act_err (Fail ''serde error'')
             | Some _ \<Rightarrow> act_ret ())
         | Eagain \<Rightarrow> act_seq (reset_socket w) (act_ret ())
         | Recv_Error e \<Rightarrow> act_err (Fail e)))"

definition retrieve_list ::
    "('c, 'x) client_world_scheme \<Rightarrow> uuid \<Rightarrow> (client, shopping_list_interface) act" where
  "retrieve_list w list_id =
     act_bind (client_read_list w list_id) (\<lambda>local_list.
     act_bind (fetch_list w local_list) (\<lambda>remote_list.
     act_bind (case remote_list of
         Some remote \<Rightarrow>
           (let merged = local_list\<lparr>sl_list := awormap_merge (sl_list local_list) (sl_list remote)\<rparr>
            in act_seq (act_ignore (client_write_list w merged)) (act_ret merged))
       | None \<Rightarrow> act_ret local_list) (\<lambda>merged_list.
     act_of_res (from_crdt merged_list))))"

definition send_item_storage_request ::
    "('c, 'x) client_world_scheme \<Rightarrow> string \<Rightarrow> u64 \<Rightarrow> bool \<Rightarrow> uuid \<Rightarrow> (client, unit) act" where
  "send_item_storage_request w item_name quantity acq shoppinglist_id =
     act_bind (client_tick (c_sql_ok w)) (\<lambda>ensure_ok.
     act_bind (client_tick (c_sql_ok w)) (\<lambda>read_ok.
     act_bind (client_tick (c_sql_ok w)) (\<lambda>write_ok.
     act_seq (on_storage (handle_item_storage_request w ensure_ok read_ok write_ok item_name quantity acq shoppinglist_id))
    (act_bind (client_read_list w shoppinglist_id) (\<lambda>updated_list.
     send_list w updated_list)))))"

text \<open>\<open>Client::connect\<close> asks for a new empty list over a socket of its own, which waits without a limit.\<close>

definition client_connect :: "('c, 'x) client_world_scheme \<Rightarrow> uuid \<Rightarrow> (client, unit) act" where
  "client_connect w fresh =
     act_seq (client_zmq w) (act_seq (client_zmq w)
     (act_seq (client_send w (GetList \<lparr>sl_id = fresh, sl_list = awormap_new\<rparr>))
     (act_bind (client_tick (c_recv w)) (\<lambda>reply_res. case reply_res of
        Reply _ \<Rightarrow> act_ret ()
      | Eagain \<Rightarrow> act_err (Fail ''EAGAIN'')
      | Recv_Error e \<Rightarrow> act_err (Fail e)))))"

end
