(* ===== verification/Cli.thy ===== *)
theory Cli
  imports Client_Net
begin

text \<open>
  The user interface of the client (\<open>src/cli.rs\<close>) and the loop of \<open>src/main.rs\<close> that runs it: the
  screens, the validation of what the user types and what every command does.

  A session is given the lines the user types (or the errors that reading them gives); when they
  are used up, reading returns an empty line at once, as at the end of a file. Text is a list of
  characters below 256, \<open>usize\<close> is 64 bits wide. What is only printed is left out.
\<close>

section \<open>Text\<close>

definition is_white_space :: "char \<Rightarrow> bool" where
  "is_white_space c = (let n = (of_char c :: nat) in 9 \<le> n \<and> n \<le> 13 \<or> n = 32 \<or> n = 133 \<or> n = 160)"

definition trim :: "string \<Rightarrow> string" where
  "trim s = rev (dropWhile is_white_space (rev (dropWhile is_white_space s)))"

definition is_ascii_digit :: "char \<Rightarrow> bool" where
  "is_ascii_digit c = (let n = (of_char c :: nat) in 48 \<le> n \<and> n \<le> 57)"

definition is_ascii_alphabetic :: "char \<Rightarrow> bool" where
  "is_ascii_alphabetic c = (let n = (of_char c :: nat) in 65 \<le> n \<and> n \<le> 90 \<or> 97 \<le> n \<and> n \<le> 122)"

fun digits_value :: "nat \<Rightarrow> string \<Rightarrow> nat" where
  "digits_value acc [] = acc"
| "digits_value acc (c # cs) = digits_value (10 * acc + (of_char c - 48)) cs"

text \<open>\<open>str::parse\<close> for the unsigned types of 64 bits: one leading plus is allowed.\<close>

definition parse_usize :: "string \<Rightarrow> nat option" where
  "parse_usize s =
     (let ds = (case s of [] \<Rightarrow> [] | [c] \<Rightarrow> [c] | c # cs \<Rightarrow> if c = CHR ''+'' then cs else c # cs)
      in if ds = [] \<or> \<not> list_all is_ascii_digit ds then None
         else if digits_value 0 ds < 2 ^ 64 then Some (digits_value 0 ds) else None)"


section \<open>Validated input\<close>

definition UPPER_ITEM_COUNT_LIMIT :: nat where "UPPER_ITEM_COUNT_LIMIT = 1000000"

datatype input_rule =
    Accept_Strings "string list"
  | Accept_Number_Range nat nat
  | Custom "string \<Rightarrow> bool"
  | Accept_All

fun is_valid :: "string \<Rightarrow> input_rule list \<Rightarrow> bool" where
  "is_valid input [] = False"
| "is_valid input (Accept_Strings list # rules) = (input \<in> set list \<or> is_valid input rules)"
| "is_valid input (Accept_Number_Range low high # rules) =
     ((case parse_usize input of Some n \<Rightarrow> low \<le> n \<and> n \<le> high | None \<Rightarrow> False) \<or> is_valid input rules)"
| "is_valid input (Custom func # rules) = (func input \<or> is_valid input rules)"
| "is_valid input (Accept_All # rules) = True"

text \<open>The loop of \<open>read_validated_input\<close> over the lines to come: the accepted text and the lines that are
  left, \<open>None\<close> when it asks forever.\<close>

fun validated :: "input_rule list \<Rightarrow> string res list \<Rightarrow> (string \<times> string res list) option" where
  "validated rules [] = (if is_valid [] rules then Some ([], []) else None)"
| "validated rules (Inr line # lines) =
     (if is_valid (trim line) rules then Some (trim line, lines) else validated rules lines)"
| "validated rules (Inl e # lines) = validated rules lines"


section \<open>The interface's state\<close>

datatype screen =
    List_Create uuid
  | List_Edit uuid
  | Main_Menu
  | Exit_Screen
  | Item_Edit uuid item_interface

record ui =
  ui_screen :: screen
  ui_client :: client
  ui_inputs :: "string res list"

record 'c ui_world = "'c client_world" +
  u_new_uuid :: "nat \<Rightarrow> uuid"

definition ui_new :: "client \<Rightarrow> string res list \<Rightarrow> ui" where
  "ui_new c inputs = \<lparr>ui_screen = Main_Menu, ui_client = c, ui_inputs = inputs\<rparr>"

definition goto :: "screen \<Rightarrow> (ui, unit) act" where
  "goto scr = act_modify (\<lambda>u. u\<lparr>ui_screen := scr\<rparr>)"

definition on_client :: "(client, 'a) act \<Rightarrow> (ui, 'a) act" where
  "on_client m = (\<lambda>u. case m (ui_client u) of (c', r) \<Rightarrow> (u\<lparr>ui_client := c'\<rparr>, r))"

definition read_validated_input :: "input_rule list \<Rightarrow> (ui, string) act" where
  "read_validated_input rules = (\<lambda>u. case validated rules (ui_inputs u) of
      Some (input, lines) \<Rightarrow> (u\<lparr>ui_inputs := lines\<rparr>, Ok input)
    | None \<Rightarrow> (u\<lparr>ui_inputs := []\<rparr>, Err Hang))"

text \<open>\<open>let _ = io::stdin().read_line(..)\<close>: waiting for the user to press return.\<close>

definition pause :: "(ui, unit) act" where
  "pause = act_modify (\<lambda>u. u\<lparr>ui_inputs := drop 1 (ui_inputs u)\<rparr>)"

definition build_new_item :: "(ui, item_interface) act" where
  "build_new_item =
     act_bind (read_validated_input [Custom (list_all is_ascii_alphabetic)]) (\<lambda>name.
     act_bind (read_validated_input [Accept_Number_Range 1 UPPER_ITEM_COUNT_LIMIT]) (\<lambda>amount_string.
     case parse_usize amount_string of
       None \<Rightarrow> act_err (Panic ''Int parsing error.'')
     | Some n \<Rightarrow> act_ret \<lparr>ii_name = name, ii_amount = of_nat n, ii_acquired = False\<rparr>))"


section \<open>Commands\<close>

text \<open>A change of an item: an error is shown until the user presses return.\<close>

definition request_item ::
    "('c, 'x) ui_world_scheme \<Rightarrow> string \<Rightarrow> u64 \<Rightarrow> bool \<Rightarrow> uuid \<Rightarrow> screen \<Rightarrow> screen \<Rightarrow> (ui, unit) act" where
  "request_item w name quantity acq list_id scr_ok scr_err =
     act_bind (act_try (on_client (send_item_storage_request w name quantity acq list_id))) (\<lambda>r. case r of
       Inr _ \<Rightarrow> goto scr_ok
     | Inl _ \<Rightarrow> act_seq pause (goto scr_err))"

definition handle_item_edit ::
    "('c, 'x) ui_world_scheme \<Rightarrow> string \<Rightarrow> item_interface \<Rightarrow> uuid \<Rightarrow> (ui, unit) act" where
  "handle_item_edit w input itm list_id =
     (if input = ''q'' then goto Exit_Screen
      else if input = ''b'' then goto (List_Edit list_id)
      else if input = ''d'' then
        request_item w (ii_name itm) (ii_amount itm) (\<not> ii_acquired itm) list_id (List_Edit list_id) (List_Edit list_id)
      else if take 1 input = ''a'' then
        (case parse_usize (drop 1 input) of
           Some n \<Rightarrow>
             if n < 1 then act_seq pause (goto (List_Edit list_id))
             else request_item w (ii_name itm) (of_nat n) (ii_acquired itm) list_id (List_Edit list_id) (List_Edit list_id)
         | None \<Rightarrow> act_ret ())
      else act_ret ())"

definition handle_newlist_edit :: "('c, 'x) ui_world_scheme \<Rightarrow> string \<Rightarrow> uuid \<Rightarrow> (ui, unit) act" where
  "handle_newlist_edit w input list_id =
     (if input = ''q'' then goto Exit_Screen
      else if input = ''b'' then goto Main_Menu
      else if input = ''a'' then
        act_bind build_new_item (\<lambda>itm.
          request_item w (ii_name itm) (ii_amount itm) (ii_acquired itm) list_id (List_Edit list_id) (List_Create list_id))
      else act_ret ())"

text \<open>Choosing an entry of a numbered list; \<open>None\<close> when the input is not the number of one.\<close>

definition selected :: "string \<Rightarrow> 'a list \<Rightarrow> 'a option" where
  "selected input xs =
     (case parse_usize input of
        None \<Rightarrow> None
      | Some selection \<Rightarrow>
          if selection \<noteq> 0 \<and> selection - 1 < length xs then Some (xs ! (selection - 1)) else None)"

definition handle_list_edit ::
    "('c, 'x) ui_world_scheme \<Rightarrow> string \<Rightarrow> item_interface list \<Rightarrow> uuid \<Rightarrow> (ui, unit) act" where
  "handle_list_edit w input items list_id =
     (if input = ''q'' then goto Exit_Screen
      else if input = ''b'' then goto Main_Menu
      else if input = ''r'' then goto (List_Edit list_id)
      else if input = ''a'' then
        act_bind build_new_item (\<lambda>itm.
          request_item w (ii_name itm) (ii_amount itm) (ii_acquired itm) list_id (List_Edit list_id) (List_Edit list_id))
      else if input = ''d'' then act_err (Panic ''not yet implemented'')
      else (case selected input items of
          Some chosen_item \<Rightarrow> goto (Item_Edit list_id chosen_item)
        | None \<Rightarrow> act_ret ()))"

definition handle_main_menu ::
    "('c, 'x) ui_world_scheme \<Rightarrow> string \<Rightarrow> uuid list \<Rightarrow> (ui, unit) act" where
  "handle_main_menu w input available =
     (if input = ''q'' then goto Exit_Screen
      else if input = ''c'' then
        act_bind (on_client (client_tick (u_new_uuid w))) (\<lambda>u. goto (List_Create u))
      else if input = ''a'' then
        act_bind (read_validated_input [Custom (\<lambda>s. uuid_parse w s \<noteq> None)]) (\<lambda>i.
          case uuid_parse w i of
            Some u \<Rightarrow> goto (List_Edit u)
          | None \<Rightarrow> act_err (Panic ''called `Result::unwrap()` on an `Err` value''))
      else (case selected input available of
          Some chosen_list_id \<Rightarrow> goto (List_Edit chosen_list_id)
        | None \<Rightarrow> act_ret ()))"


section \<open>Screens\<close>

definition print_and_process_list_items :: "shopping_list_interface \<Rightarrow> item_interface list" where
  "print_and_process_list_items lst =
     map (\<lambda>(item_name, qty, acq). \<lparr>ii_name = item_name, ii_amount = qty, ii_acquired = acq\<rparr>) (sli_items lst)"

definition print_lists :: "('c, 'x) ui_world_scheme \<Rightarrow> (ui, uuid list) act" where
  "print_lists w =
     act_bind (act_try (on_client (retrieve_available_lists w))) (\<lambda>r. case r of
       Inr (Some vec) \<Rightarrow> act_ret (map sli_list_id vec)
     | _ \<Rightarrow> act_ret [])"

definition menu_rules :: "nat \<Rightarrow> input_rule list" where
  "menu_rules n = [Accept_Strings [''a'', ''q'', ''c''], Accept_Number_Range 1 n]"

definition newlist_rules :: "input_rule list" where
  "newlist_rules = [Accept_Strings [''q'', ''b'', ''a'']]"

definition list_rules :: "nat \<Rightarrow> input_rule list" where
  "list_rules n = [Accept_Strings [''q'', ''b'', ''a'', ''r''], Accept_Number_Range 1 n]"

definition item_rules :: "input_rule list" where
  "item_rules = [Accept_Strings [''q'', ''d'', ''b''],
     Custom (\<lambda>s. take 1 s = ''a'' \<and> length s > 1 \<and> list_all is_ascii_digit (drop 1 s))]"

text \<open>\<open>mem::replace\<close> leaves the main menu as the next screen; a command that sets no screen ends there.\<close>

definition render :: "('c, 'x) ui_world_scheme \<Rightarrow> (ui, unit) act" where
  "render w =
     act_bind (act_gets ui_screen) (\<lambda>scr.
     act_seq (goto Main_Menu)
     (case scr of
        Main_Menu \<Rightarrow>
          act_bind (print_lists w) (\<lambda>list_vec.
          act_bind (read_validated_input (menu_rules (length list_vec))) (\<lambda>input.
          handle_main_menu w input list_vec))
      | List_Create list_id \<Rightarrow>
          act_bind (read_validated_input newlist_rules) (\<lambda>input. handle_newlist_edit w input list_id)
      | List_Edit list_id \<Rightarrow>
          act_bind (act_try (on_client (retrieve_list w list_id))) (\<lambda>r. case r of
            Inr lst \<Rightarrow>
              (let items = print_and_process_list_items lst
               in act_bind (read_validated_input (list_rules (length items))) (\<lambda>input.
                    handle_list_edit w input items list_id))
          | Inl _ \<Rightarrow> act_seq (goto Main_Menu) pause)
      | Item_Edit list_id itm \<Rightarrow>
          act_bind (read_validated_input item_rules) (\<lambda>input. handle_item_edit w input itm list_id)
      | Exit_Screen \<Rightarrow> act_ret ()))"

definition is_done :: "ui \<Rightarrow> bool" where
  "is_done u \<longleftrightarrow> ui_screen u = Exit_Screen"

text \<open>The start of a client in \<open>main\<close>: the user's name, which names a database of its own (its stored
  client id and its tables, as far as they are there), and the client on it.\<close>

definition start_client ::
    "'x digest_lib_scheme \<Rightarrow> bool \<Rightarrow> uuid \<Rightarrow> (string \<Rightarrow> string option \<times> client_storage option) \<Rightarrow>
     string res list \<Rightarrow> (ui \<times> string option) res" where
  "start_client lib sql_ok fresh databases lines =
     (case validated [Custom (list_all is_ascii_alphabetic)] lines of
        None \<Rightarrow> Err Hang
      | Some (username, rest) \<Rightarrow> (case databases username of (client_metadata, on_disk) \<Rightarrow>
          bind_res (cs_new lib sql_ok fresh client_metadata on_disk) (\<lambda>(storage_handler, metadata).
            Ok (ui_new (client_new storage_handler) rest, metadata))))"

text \<open>The loop of \<open>main\<close>, for at most \<open>fuel\<close> screens; \<open>None\<close> when they do not suffice.\<close>

fun run_session :: "nat \<Rightarrow> ('c, 'x) ui_world_scheme \<Rightarrow> ui \<Rightarrow> (ui \<times> unit res) option" where
  "run_session fuel w u =
     (if is_done u then Some (u, Ok ())
      else case fuel of
          0 \<Rightarrow> None
        | Suc n \<Rightarrow> (case render w u of
              (u', Inl e) \<Rightarrow> Some (u', Inl e)
            | (u', Inr _) \<Rightarrow> run_session n w u'))"

end
