(* ===== verification/Client_Sync.thy ===== *)
theory Client_Sync
  imports Client_Net
begin

text \<open>
  What the operations of the client guarantee: edits are stored whatever the network does, fetching
  merges the list of the servers into the stored one, and what happens to quantities that several
  clients lower at the same time.
\<close>

section \<open>Calls that leave the storage alone\<close>

lemma client_tick_apply [simp]: "client_tick f c = (c\<lparr>cl_tick := cl_tick c + 1\<rparr>, Ok (f (cl_tick c)))"
  by (simp add: client_tick_def)

lemma keeps_storage_tick [keeps_intros]: "keeps (\<lambda>c. cl_storage c = s) (client_tick f)"
  by (simp add: keeps_def client_tick_def)

lemma keeps_storage_zmq [keeps_intros]: "keeps (\<lambda>c. cl_storage c = s) (client_zmq w)"
  unfolding client_zmq_def by (intro keeps_intros)

lemma keeps_storage_reset [keeps_intros]: "keeps (\<lambda>c. cl_storage c = s) (reset_socket w)"
  unfolding reset_socket_def by (intro keeps_intros)

lemma keeps_storage_send [keeps_intros]: "keeps (\<lambda>c. cl_storage c = s) (client_send w m)"
  unfolding client_send_def by (intro keeps_intros) simp

lemma keeps_storage_read [keeps_intros]: "keeps (\<lambda>c. cl_storage c = s) (client_read_list w i)"
  unfolding client_read_list_def by (intro keeps_intros)

lemma keeps_storage_send_list [keeps_intros]: "keeps (\<lambda>c. cl_storage c = s) (send_list w lst)"
  unfolding send_list_def by (intro keeps_intros) (auto split: reply.split option.split intro!: keeps_intros)

lemma keeps_storage_fetch_list [keeps_intros]: "keeps (\<lambda>c. cl_storage c = s) (fetch_list w lst)"
  unfolding fetch_list_def
  by (intro keeps_intros) (auto split: reply.split option.split msg.split intro!: keeps_intros)

section \<open>Merging what is already merged\<close>

lemma lwwreg_merge_absorb: "lwwreg_merge r (lwwreg_merge r s) = lwwreg_merge r (s :: 'a::linorder lwwreg)"
  by (auto simp: lwwreg_merge_def lwwreg_should_update_def)

lemma pncounter_merge_absorb:
  assumes "pncounter_ok a" "pncounter_ok b"
  shows "pncounter_view (pncounter_merge a (pncounter_merge a b)) = pncounter_view (pncounter_merge a b)"
  using pncounter.below_merge_left [OF assms] by (simp add: pncounter.below_def)

lemma item_merge_absorb:
  assumes "pncounter_ok (amount i)" "pncounter_ok (amount j)"
  shows "item_view (item_merge i (item_merge i j)) = item_view (item_merge i j)"
  using pncounter_merge_absorb [OF assms]
  by (simp add: item_view_def item_merge_def lwwreg_merge_absorb)

lemma small_item_merge:
  assumes "small_item i" "small_item j"
  shows "small_item (item_merge i j)"
proof -
  have "small_counter (gcounter_merge g h)" if g: "small_counter g" and h: "small_counter h" for g h
  proof -
    have small: "unat v < 2 ^ 63" if "hm_get (gc_counter x) k = Some v" "small_counter x" for x k v
      using that map_of_SomeD [OF that(1)] by (force simp: small_counter_def list_all_iff)
    have wf: "hm_wf (gc_counter (gcounter_merge g h))"
      using gcounter.ok_merge [of g h] g h by (simp add: small_counter_def gcounter_ok_def)
    have "unat v < 2 ^ 63" if v: "hm_get (gc_counter (gcounter_merge g h)) k = Some v" for k v
    proof -
      have "hm_wf (gc_counter h)" using h by (simp add: small_counter_def)
      then have "join_opt (\<lambda>x y. max y x) (hm_get (gc_counter g) k) (hm_get (gc_counter h) k) = Some v"
        using v by (simp add: merge_into_get)
      then show ?thesis
        using small [OF _ g, of k] small [OF _ h, of k]
        by (cases "hm_get (gc_counter g) k"; cases "hm_get (gc_counter h) k") (auto simp: max_def split: if_splits)
    qed
    then show ?thesis
      using wf by (auto simp: small_counter_def list_all_iff hm_get_in [symmetric])
  qed
  with assms show ?thesis by (simp add: small_item_def item_merge_def pncounter_merge_def)
qed

text \<open>What the stored rows of an item become when its merge with another item is written over it.\<close>

lemma written_view_merge:
  assumes "pncounter_ok (amount j)"
  shows "written_view (Some (item_view i)) (item_merge i j) = item_view (item_merge i j)"
proof -
  have "dom (gcounter_view g) \<subseteq> dom (gcounter_view (gcounter_merge g h))" if "gcounter_ok h" for g h
    using that by (auto simp: gcounter_view_def merge_into_get gcounter_ok_def join_opt_def split: option.splits)
  then show ?thesis
    using assms by (simp add: written_view_def item_view_def pncounter_view_def item_merge_def
        pncounter_merge_def pncounter_ok_def map_add_over)
qed

lemma item_merge_self:
  assumes "pncounter_ok (amount i)"
  shows "item_view (item_merge i i) = item_view i"
  using pncounter.merge_idem [OF assms] by (simp add: item_view_def item_merge_def register_merge_self)

lemma written_view_None [simp]: "written_view None i = item_view i"
  by (simp add: written_view_def)

text \<open>What the two merges of a fetch, in \<open>fetch_list\<close> and in \<open>retrieve_list\<close>, come to.\<close>

lemma merged_twice:
  assumes "hm_wf (aw_items b)" "list_all small_item (hm_values (aw_items a))" "list_all small_item (hm_values (aw_items b))"
    and "hm_wf (aw_items a)"
  defines "m \<equiv> awormap_merge a (awormap_merge a b)"
  shows "hm_wf (aw_items m)" "list_all small_item (hm_values (aw_items m))"
    "awormap_view m = awormap_view (awormap_merge a b)"
    "\<And>n. (case hm_get (aw_items m) n of
        Some i \<Rightarrow> Some (written_view (awormap_view a n) i) | None \<Rightarrow> awormap_view a n) = awormap_view m n"
proof -
  have small: "small_item i" if "hm_get (aw_items x) k = Some i" "list_all small_item (hm_values (aw_items x))" for x k i
    using that map_of_SomeD [OF that(1)] by (force simp: list_all_iff)
  have wf_ab: "hm_wf (aw_items (awormap_merge a b))" using assms(4) by simp
  have get_ab: "hm_get (aw_items (awormap_merge a b)) n =
      join_opt item_merge (hm_get (aw_items a) n) (hm_get (aw_items b) n)" for n
    using assms(1) by (simp add: merge_into_get)
  have get: "hm_get (aw_items m) n = join_opt item_merge (hm_get (aw_items a) n)
      (join_opt item_merge (hm_get (aw_items a) n) (hm_get (aw_items b) n))" for n
    using assms(1,4) by (simp add: m_def merge_into_get)
  show wf: "hm_wf (aw_items m)" using assms(4) by (simp add: m_def)
  have "small_item i" if "hm_get (aw_items m) n = Some i" for n i
    using that small [OF _ assms(2), of n] small [OF _ assms(3), of n]
    by (cases "hm_get (aw_items a) n"; cases "hm_get (aw_items b) n") (auto simp: get small_item_merge)
  then show "list_all small_item (hm_values (aw_items m))"
    using wf by (auto simp: list_all_iff hm_get_in [symmetric])
  have ok: "pncounter_ok (amount i)" if "hm_get (aw_items a) n = Some i \<or> hm_get (aw_items b) n = Some i" for n i
    using that small [OF _ assms(2)] small [OF _ assms(3)] small_item_ok by blast
  show "awormap_view m = awormap_view (awormap_merge a b)"
  proof
    fix n show "awormap_view m n = awormap_view (awormap_merge a b) n"
      using ok [of n] item_merge_absorb item.merge_idem
      unfolding awormap_view_def get get_ab
      by (cases "hm_get (aw_items a) n"; cases "hm_get (aw_items b) n") (simp_all add: item_merge_self)
  qed
  fix n
  show "(case hm_get (aw_items m) n of
        Some i \<Rightarrow> Some (written_view (awormap_view a n) i) | None \<Rightarrow> awormap_view a n) = awormap_view m n"
    using ok [of n] small [OF _ assms(2), of n] small [OF _ assms(3), of n]
    unfolding awormap_view_def get
    by (cases "hm_get (aw_items a) n"; cases "hm_get (aw_items b) n")
      (simp_all add: written_view_merge small_item_ok small_item_merge written_view_None)
qed

section \<open>Properties\<close>

lemma keeps_value: "keeps (\<lambda>c. f c = v) m \<Longrightarrow> f c = v \<Longrightarrow> f (fst (m c)) = v"
  by (simp add: keeps_def)

text \<open>C15: Edits are local first. Whatever the proxy and the servers do, an edit leaves in the client's
  storage exactly what the storage request leaves there; if the storage request fails the edit
  fails with its error and no message is sent.\<close>

theorem edits_are_local_first:
  "let request = handle_item_storage_request w (c_sql_ok w (cl_tick c)) (c_sql_ok w (cl_tick c + 1))
      (c_sql_ok w (cl_tick c + 2)) name q acq i (cl_storage c)
   in cl_storage (fst (send_item_storage_request w name q acq i c)) = fst request \<and>
    (\<forall>e. snd request = Err e \<longrightarrow> snd (send_item_storage_request w name q acq i c) = Err e \<and>
       cl_sent (fst (send_item_storage_request w name q acq i c)) = cl_sent c)"
proof -
  define request where "request = handle_item_storage_request w (c_sql_ok w (cl_tick c))
      (c_sql_ok w (cl_tick c + 1)) (c_sql_ok w (cl_tick c + 2)) name q acq i (cl_storage c)"
  let ?c = "c\<lparr>cl_tick := cl_tick c + 3, cl_storage := fst request\<rparr>"
  let ?rest = "act_bind (client_read_list w i) (send_list w)"
  have "send_item_storage_request w name q acq i c =
      (case snd request of Inl e \<Rightarrow> (?c, Err e) | Inr _ \<Rightarrow> ?rest ?c)"
    by (simp add: send_item_storage_request_def act_bind_apply on_storage_def request_def numeral_3_eq_3
        split: prod.split sum.split)
  moreover have "cl_storage (fst (?rest ?c)) = fst request"
    by (rule keeps_value [where f = cl_storage]) (auto intro!: keeps_intros)
  ultimately show ?thesis unfolding Let_def request_def [symmetric] by (auto split: sum.split)
qed

definition sample_client_world :: "msg client_world" where
  "sample_client_world = \<lparr>uuid_to_string = uuid_to_string sample_lib, uuid_parse = uuid_parse sample_lib,
     md5 = md5 sample_lib, u64_to_sql = (\<lambda>v. if v < 2 ^ 63 then Some v else None),
     u64_from_sql = (\<lambda>v. if v < 2 ^ 63 then Some v else None), c_sql_ok = (\<lambda>_. True),
     c_zmq = (\<lambda>_. None), c_recv = (\<lambda>_. Reply (AckList [] milk_list)), c_from_slice = Some\<rparr>"

lemma sample_client_world_simps [simp]:
  "c_sql_ok sample_client_world t" "c_zmq sample_client_world t = None"
  "c_recv sample_client_world t = Reply (AckList [] milk_list)" "c_from_slice sample_client_world = Some"
  "uuid_to_string sample_client_world u = uuid_to_string sample_sql u"
  "uuid_parse sample_client_world str = uuid_parse sample_sql str"
  by (simp_all add: sample_client_world_def sample_sql_def)

lemma sample_client_from_sql: "u64_from_sql sample_client_world v = (if v < 2 ^ 63 then Some v else None)"
  by (simp add: sample_client_world_def)

lemma sample_client_world_laws [simp]: "sql_u64_law sample_client_world" "uuid_law sample_client_world"
  by (simp_all add: sql_u64_law_def uuid_law_def sint_nonneg word_less_nat_alt sample_client_world_def sample_lib_def)

theorem edits_are_local_first_witness:
  "cl_storage (fst (send_item_storage_request sample_client_world ''milk'' 2 True 7 (client_new sample_client))) =
     fst (handle_item_storage_request sample_client_world True True True ''milk'' 2 True 7 sample_client)"
  using edits_are_local_first [of sample_client_world "client_new sample_client" "''milk''" 2 True 7]
  by (simp add: Let_def) (simp add: client_new_def)

text \<open>An item of quantity \<open>q\<close> that client \<open>a\<close> made, as client \<open>b\<close> reads it from its own database.\<close>

definition made_by_other :: "u64 \<Rightarrow> uuid \<Rightarrow> uuid \<Rightarrow> item" where
  "made_by_other q a b = \<lparr>amount =
      \<lparr>pn_p = \<lparr>gc_counter = [(a, q)], gc_actor_id = b\<rparr>, pn_n = \<lparr>gc_counter = [(a, 0)], gc_actor_id = b\<rparr>\<rparr>,
    acquired = acquired (item_new q False a)\<rparr>"

lemma lower_to_zero:
  assumes "0 < unat q" "unat q < 2 ^ 63"
  shows "checked_sub_i64 0 q = Ok (- q)" "sint (- q) < 0" "checked_neg_i64 (- q) = Ok q"
    "unat (- q) = 2 ^ 64 - unat q"
proof -
  have q: "sint q = int (unat q)" using assms(2) by (rule sint_unat_small)
  have "in_i64 (- int (unat q))" using assms(2) delta_in_i64 [of 0 0 "unat q"] delta_in_i64 [of "unat q" 0 0]
    by (simp add: in_i64_def)
  then have in64: "in_i64 (sint 0 - sint q)" by (simp add: q)
  then show sub: "checked_sub_i64 0 q = Ok (- q)" by (simp add: checked_sub_i64_def)
  have neg: "sint (- q) = - sint q" using checked_sub_i64_Ok [OF sub] by simp
  then show less: "sint (- q) < 0" using assms(1) by (simp only: q)
  show "checked_neg_i64 (- q) = Ok q" by (simp add: checked_neg_i64_def neg sint_in_i64)
  have "unat (- q) \<ge> 2 ^ 63" using less sint_nonneg [of "- q"] by linarith
  then have "- int (unat q) = int (unat (- q)) - 2 ^ 64" using neg q sint_big [of "- q"] by simp
  then have "int (unat q + unat (- q)) = int (2 ^ 64)" by simp
  then have "unat q + unat (- q) = 2 ^ 64" by (simp only: of_nat_eq_iff)
  then show "unat (- q) = 2 ^ 64 - unat q" by simp
qed

lemma item_new_total: "unat q < 2 ^ 63 \<Longrightarrow> pncounter_value_total (amount (item_new q acq c)) = Ok q"
  using item_new_shows(1) [of q] by (simp add: shows_item_def)

text \<open>C40: Quantities can go below zero and are then shown as huge: when the client that made an item of
  quantity \<open>q\<close>, with \<open>0 < q < 2 ^ 63\<close>, and another client both set it to 0, each lowers its own counter by \<open>q\<close>
  and the merged total is \<open>- q\<close>. The user interface is then shown \<open>2 ^ 64 - q\<close> as long as \<open>2 * q < 2 ^ 63\<close>; from
  there on the sum of the lowered counts no longer fits \<open>i64\<close>, and showing the list panics.\<close>

theorem concurrent_removals_go_negative:
  assumes "b \<noteq> a" and "0 < unat q" "unat q < 2 ^ 63"
  shows "\<exists>ia ib.
    update_item a 0 False (item_new q False a) = Ok ia \<and>
    update_item b 0 False (made_by_other q a b) = Ok ib \<and>
    (if 2 * unat q < 2 ^ 63
     then (\<exists>iface. from_crdt \<lparr>sl_id = i, sl_list = awormap_insert (awormap_insert awormap_new name ia) name ib\<rparr> = Ok iface \<and>
       hm_get (sli_items iface) name = Some (- q, False) \<and> unat (- q) = 2 ^ 64 - unat q)
     else from_crdt \<lparr>sl_id = i, sl_list = awormap_insert (awormap_insert awormap_new name ia) name ib\<rparr> = Err overflow)"
proof -
  have q: "unat q < 2 ^ 63" "unat q < 2 ^ 64" using assms(3) by simp_all
  note low = lower_to_zero [OF assms(2) q(1)]
  have own: "update_item a 0 False (item_new q False a) = Ok (item_new q False a\<lparr>amount :=
      \<lparr>pn_p = \<lparr>gc_counter = [(a, q)], gc_actor_id = a\<rparr>, pn_n = \<lparr>gc_counter = [(a, q)], gc_actor_id = a\<rparr>\<rparr>\<rparr>)"
    unfolding update_item_def item_new_total [OF q(1)]
    using low q(2) by (simp add: item_new_def pncounter_with_count_def gcounter_with_count_def pncounter_dec_by_def
        gcounter_inc_by_def checked_add_def hm_get_or_def item_merge_def pncounter_merge_def gcounter_merge_def
        bool_as_u32_def register_merge_self)
  have other: "update_item b 0 False (made_by_other q a b) = Ok (made_by_other q a b\<lparr>amount :=
      \<lparr>pn_p = \<lparr>gc_counter = [(a, q)], gc_actor_id = b\<rparr>, pn_n = \<lparr>gc_counter = [(a, 0), (b, q)], gc_actor_id = b\<rparr>\<rparr>\<rparr>)"
    using low q(2) assms(1) unfolding update_item_def
    by (simp add: made_by_other_def item_new_def pncounter_dec_by_def pncounter_value_total_def gcounter_value_total_def
        gcounter_inc_by_def checked_add_def hm_get_or_def item_merge_def pncounter_merge_def gcounter_merge_def
        bool_as_u32_def register_merge_self checked_sub_i64_def sint_in_i64)
  let ?n = "\<lparr>gc_counter = [(a, q), (b, q)], gc_actor_id = a\<rparr>" and ?p = "\<lparr>gc_counter = [(a, q)], gc_actor_id = a\<rparr>"
  have sums: "gcounter_sum ?p = unat q" "gcounter_sum ?n = 2 * unat q" by (simp_all add: gcounter_sum_def)
  have total: "pncounter_value_total \<lparr>pn_p = ?p, pn_n = ?n\<rparr> = (if 2 * unat q < 2 ^ 63 then Ok (- q) else Err overflow)"
  proof (cases "2 * unat q < 2 ^ 63")
    case True
    obtain v where v: "pncounter_value_total \<lparr>pn_p = ?p, pn_n = ?n\<rparr> = Ok v"
        "sint v = int (unat q) - int (2 * unat q)"
      using pncounter_total_small [of "\<lparr>pn_p = ?p, pn_n = ?n\<rparr>"] True q(1) by (auto simp: sums)
    have "sint (- q) = - int (unat q)"
      using checked_sub_i64_Ok [OF low(1)] sint_unat_small [OF q(1)] by simp
    then have "sint v = sint (- q)" using v(2) by simp
    then show ?thesis using v(1) True by (simp add: signed_word_eqI)
  next
    case False
    have "unat (q + q) = 2 * unat q" using assms(3) by (simp add: unat_word_ariths)
    then have "sint (q + q) = int (2 * unat q) - 2 ^ 64" using sint_big [of "q + q"] False by simp
    then have "sint q - sint (q + q) = 2 ^ 64 - int (unat q)"
      unfolding sint_unat_small [OF q(1)] by simp
    moreover have "\<not> in_i64 (2 ^ 64 - int n)" if "n < 2 ^ 63" for n
      using that by (simp add: in_i64_def)
    ultimately have "\<not> in_i64 (sint q - sint (q + q))" using assms(3) by (simp only: not_False_eq_True)
    moreover have "gcounter_value_total ?p = Ok q" "gcounter_value_total ?n = Ok (q + q)"
      using assms(3) by (simp_all add: gcounter_value_total_def checked_add_def)
    ultimately show ?thesis using False by (simp add: pncounter_value_total_def checked_sub_i64_def)
  qed
  show ?thesis
    unfolding own other
    using total low(4) assms(1)
    by (simp add: made_by_other_def item_new_def awormap_insert_def awormap_new_def item_merge_def pncounter_merge_def
        gcounter_merge_def hm_get_or_def register_merge_self from_crdt_def bool_as_u32_def)
qed

theorem concurrent_removals_go_negative_witness:
  "\<exists>ia ib iface.
    update_item 1 0 False (item_new 5 False 1) = Ok ia \<and> update_item 2 0 False (made_by_other 5 1 2) = Ok ib \<and>
    from_crdt \<lparr>sl_id = 7, sl_list = awormap_insert (awormap_insert awormap_new ''milk'' ia) ''milk'' ib\<rparr> = Ok iface \<and>
    hm_get (sli_items iface) ''milk'' = Some (- 5, False) \<and> unat (- 5 :: u64) = 2 ^ 64 - 5"
proof -
  have "unat (5 :: u64) = 5" by simp
  then show ?thesis
    using concurrent_removals_go_negative [of 2 1 5 7 "''milk''"] by simp
qed

text \<open>A fetch that is answered with a list.\<close>

lemma fetch_answered:
  assumes laws: "sql_u64_law w" "uuid_law w" and ok: "cs_ok w (cl_storage c)"
    and sql: "c_sql_ok w (cl_tick c)" "c_sql_ok w (cl_tick c + 3)"
    and net: "c_zmq w (cl_tick c + 1) = None" "c_recv w (cl_tick c + 2) = Reply reply"
      "c_from_slice w reply = Some (AckList rid l)"
    and l: "hm_wf (aw_items (sl_list l))" "list_all small_item (hm_values (aw_items (sl_list l)))"
  shows "\<exists>c' stored merged got. retrieve_list w i c = (c', from_crdt merged) \<and>
    cl_sent c' = cl_sent c @ [GetList stored] \<and>
    read_shopping_list w True (cl_storage c) i = Ok stored \<and> sl_id merged = i \<and> sl_wf merged \<and>
    awormap_view (sl_list merged) = awormap_view (awormap_merge (sl_list stored) (sl_list l)) \<and>
    read_shopping_list w True (cl_storage c') i = Ok got \<and> awormap_view (sl_list got) = awormap_view (sl_list merged) \<and>
    cs_ok w (cl_storage c') \<and>
    (\<forall>l' n. l' \<noteq> uuid_to_string w i \<longrightarrow> item_at w (cl_storage c') l' n = item_at w (cl_storage c) l' n)"
proof -
  obtain stored where stored: "read_shopping_list w True (cl_storage c) i = Ok stored" "sl_id stored = i" "sl_wf stored"
      "list_all small_item (hm_values (aw_items (sl_list stored)))"
      "awormap_view (sl_list stored) = item_at w (cl_storage c) (uuid_to_string w i)"
    using read_shopping_list_spec [OF laws ok, of i] by blast
  let ?merged = "stored\<lparr>sl_list := awormap_merge (sl_list stored) (awormap_merge (sl_list stored) (sl_list l))\<rparr>"
  have "hm_wf (aw_items (sl_list stored))" using stored(3) by (simp add: sl_wf_def)
  note m = merged_twice [OF l(1) stored(4) l(2) this]
  have id: "sl_id ?merged = i" "sl_list ?merged = awormap_merge (sl_list stored) (awormap_merge (sl_list stored) (sl_list l))"
    using stored(2) by simp_all
  have "\<exists>s' got. write_shopping_list w True (cl_storage c) ?merged = Ok s' \<and> cs_ok w s' \<and>
      read_shopping_list w True s' i = Ok got \<and>
      (\<forall>n. awormap_view (sl_list got) n = awormap_view (sl_list ?merged) n) \<and>
      (\<forall>l' n. l' \<noteq> uuid_to_string w i \<longrightarrow> item_at w s' l' n = item_at w (cl_storage c) l' n)"
    using written_list_reads_back [OF laws ok, of ?merged, unfolded id, OF m(1,2), folded stored(5), unfolded m(4)]
    unfolding id by blast
  moreover have "sl_wf ?merged" using m(1,2) by (auto simp: sl_wf_def list_all_iff small_item_ok)
  ultimately obtain s' got where written: "write_shopping_list w True (cl_storage c) ?merged = Ok s'" "cs_ok w s'"
      "read_shopping_list w True s' i = Ok got"
      "\<forall>n. awormap_view (sl_list got) n = awormap_view (sl_list ?merged) n"
      "\<forall>l' n. l' \<noteq> uuid_to_string w i \<longrightarrow> item_at w s' l' n = item_at w (cl_storage c) l' n"
      "sl_wf ?merged" by blast
  have "retrieve_list w i c = (c\<lparr>cl_tick := cl_tick c + 4, cl_sent := cl_sent c @ [GetList stored], cl_storage := s'\<rparr>,
      from_crdt ?merged)"
    using sql net written(1) stored(1)
    by (simp add: retrieve_list_def fetch_list_def client_read_list_def client_send_def client_zmq_def client_write_list_def
        act_bind_apply act_try_apply act_ignore_apply Let_def numeral_eq_Suc)
  with written stored m(3) show ?thesis
    by (intro exI [of _ "c\<lparr>cl_tick := cl_tick c + 4, cl_sent := cl_sent c @ [GetList stored], cl_storage := s'\<rparr>"]
        exI [of _ stored] exI [of _ ?merged] exI [of _ got]) (simp add: fun_eq_iff)
qed

text \<open>C14: Fetching a list merges: when a server answers with its list, the user interface is shown and the
  client stores the merge of the stored list with the server's, which the stored list reads back as; no
  other list changes. The server was asked once, with the stored list.\<close>

theorem fetching_merges:
  assumes laws: "sql_u64_law w" "uuid_law w" and ok: "cs_ok w (cl_storage c)"
    and sql: "c_sql_ok w (cl_tick c)" "c_sql_ok w (cl_tick c + 3)"
    and net: "c_zmq w (cl_tick c + 1) = None" "c_recv w (cl_tick c + 2) = Reply reply"
      "c_from_slice w reply = Some (AckList rid l)"
    and l: "hm_wf (aw_items (sl_list l))" "list_all small_item (hm_values (aw_items (sl_list l)))"
  shows "\<exists>c' stored merged got. retrieve_list w i c = (c', from_crdt merged) \<and>
    cl_sent c' = cl_sent c @ [GetList stored] \<and>
    read_shopping_list w True (cl_storage c) i = Ok stored \<and> sl_id merged = i \<and>
    awormap_view (sl_list merged) = awormap_view (awormap_merge (sl_list stored) (sl_list l)) \<and>
    read_shopping_list w True (cl_storage c') i = Ok got \<and> awormap_view (sl_list got) = awormap_view (sl_list merged) \<and>
    cs_ok w (cl_storage c') \<and>
    (\<forall>l' n. l' \<noteq> uuid_to_string w i \<longrightarrow> item_at w (cl_storage c') l' n = item_at w (cl_storage c) l' n)"
  using fetch_answered [OF assms] by blast

theorem fetching_merges_witness:
  "\<exists>c' stored merged. retrieve_list sample_client_world 7 (client_new sample_client) = (c', from_crdt merged) \<and>
    read_shopping_list sample_client_world True sample_client 7 = Ok stored \<and>
    awormap_view (sl_list merged) = awormap_view (awormap_merge (sl_list stored) (sl_list milk_list))"
proof -
  have milk: "hm_wf (aw_items (sl_list milk_list))" "list_all small_item (hm_values (aw_items (sl_list milk_list)))"
    by (simp_all add: milk_list_def awormap_insert_def awormap_new_def item_new_shows(2))
  have "cs_ok sample_client_world (cl_storage (client_new sample_client))"
    using sample_client_ok by (simp add: cs_ok_def values_ok_def items_ok_def client_new_def)
  from fetching_merges [OF sample_client_world_laws this _ _ _ _ _ milk, of "AckList [] milk_list" "[]" 7]
  show ?thesis by (auto simp: client_new_def)
qed

definition no_answer :: "('c, 'x) client_world_scheme \<Rightarrow> nat \<Rightarrow> bool" where
  "no_answer w t \<longleftrightarrow>
     (if c_zmq w t \<noteq> None then c_zmq w (t + 1) = None \<and> c_zmq w (t + 2) = None
      else (case c_recv w (t + 1) of
          Eagain \<Rightarrow> c_zmq w (t + 2) = None \<and> c_zmq w (t + 3) = None
        | Reply reply \<Rightarrow> (case c_from_slice w reply of Some (Nack _) \<Rightarrow> True | _ \<Rightarrow> False)
        | Recv_Error _ \<Rightarrow> False))"

lemma client_zmq_apply:
  "client_zmq w c = (c\<lparr>cl_tick := cl_tick c + 1\<rparr>, case c_zmq w (cl_tick c) of None \<Rightarrow> Ok () | Some e \<Rightarrow> Err (Fail e))"
  by (simp add: client_zmq_def act_bind_apply split: option.split)

lemma fetch_no_answer:
  assumes "no_answer w (cl_tick c)"
  shows "snd (fetch_list w lst c) = Ok None"
proof (cases "c_zmq w (cl_tick c)")
  case (Some e)
  then show ?thesis
    using assms by (simp add: no_answer_def fetch_list_def client_send_def reset_socket_def client_zmq_apply
        act_bind_apply act_try_apply)
next
  case None
  show ?thesis
  proof (cases "c_recv w (cl_tick c + 1)")
    case (Reply r)
    with None assms obtain rid where "c_from_slice w r = Some (Nack rid)"
      by (auto simp: no_answer_def split: option.splits msg.splits)
    with None Reply show ?thesis
      by (simp add: fetch_list_def client_send_def client_zmq_apply act_bind_apply act_try_apply)
  qed (use None assms in \<open>simp_all add: no_answer_def fetch_list_def client_send_def reset_socket_def client_zmq_apply
      act_bind_apply act_try_apply numeral_3_eq_3\<close>)
qed

text \<open>Without an answer the client shows its own list: when the request cannot be sent, is not
  answered in time or is answered with \<open>Nack\<close>, fetching a list changes nothing in the storage and shows
  the stored list.\<close>

lemma offline_shows_stored_list:
  assumes "read_shopping_list w True (cl_storage c) i = Ok stored" "c_sql_ok w (cl_tick c)"
    and "no_answer w (cl_tick c + 1)"
  shows "snd (retrieve_list w i c) = from_crdt stored \<and> cl_storage (fst (retrieve_list w i c)) = cl_storage c"
proof -
  let ?c = "c\<lparr>cl_tick := cl_tick c + 1\<rparr>"
  have "client_read_list w i c = (?c, Ok stored)"
    using assms(1,2) by (simp add: client_read_list_def act_bind_apply)
  moreover have "snd (fetch_list w stored ?c) = Ok None" using assms(3) by (simp add: fetch_no_answer)
  moreover have "cl_storage (fst (fetch_list w stored ?c)) = cl_storage c"
    by (rule keeps_value [where f = cl_storage]) (auto intro!: keeps_intros)
  ultimately show ?thesis by (simp add: retrieve_list_def act_bind_apply)
qed

lemma offline_shows_stored_list_witness:
  "snd (retrieve_list (sample_client_world\<lparr>c_recv := \<lambda>_. Eagain\<rparr>) 7 (client_new sample_client)) =
     from_crdt \<lparr>sl_id = 7, sl_list = \<lparr>aw_items = [(''milk'', item_new 5 False 3)]\<rparr>\<rparr>"
proof -
  let ?w = "sample_client_world\<lparr>c_recv := \<lambda>_. Eagain\<rparr>"
  have name: "uuid_to_string ?w 7 = ''xxxxxxx''" using sample_names(2) by simp
  have "read_shopping_list ?w True (cl_storage (client_new sample_client)) 7 =
      Ok \<lparr>sl_id = 7, sl_list = \<lparr>aw_items = [(''milk'', item_new 5 False 3)]\<rparr>\<rparr>"
    unfolding read_shopping_list_def name
    by (simp add: client_new_def sample_client_def awormap_insert_def awormap_new_def build_item_def read_gcounter_def
        item_new_def pncounter_with_count_def gcounter_with_count_def lwwreg_new_def bool_as_u32_def sample_client_from_sql)
  from offline_shows_stored_list [OF this] show ?thesis by (simp add: no_answer_def)
qed

end
