(* ===== verification/Cli_Session.thy ===== *)
theory Cli_Session
  imports Cli Client_Sync
begin

text \<open>
  What the user interface guarantees: which inputs it accepts, what an accepted command does, and
  that a session over finitely many lines of input comes to an end.
\<close>

section \<open>Accepted input\<close>

lemma valid_simps [simp]:
  "is_valid s (menu_rules n) \<longleftrightarrow> s \<in> {''a'', ''q'', ''c''} \<or> (\<exists>k. parse_usize s = Some k \<and> 1 \<le> k \<and> k \<le> n)"
  "is_valid s newlist_rules \<longleftrightarrow> s \<in> {''q'', ''b'', ''a''}"
  "is_valid s (list_rules n) \<longleftrightarrow> s \<in> {''q'', ''b'', ''a'', ''r''} \<or> (\<exists>k. parse_usize s = Some k \<and> 1 \<le> k \<and> k \<le> n)"
  "is_valid s item_rules \<longleftrightarrow> s \<in> {''q'', ''d'', ''b''} \<or>
     take 1 s = ''a'' \<and> length s > 1 \<and> list_all is_ascii_digit (drop 1 s)"
  by (auto simp: menu_rules_def newlist_rules_def list_rules_def item_rules_def split: option.split)

lemma parse_usize_Nil [simp]: "parse_usize [] = None"
  by (simp add: parse_usize_def)

lemma validated_valid: "validated rules lines = Some (s, rest) \<Longrightarrow> is_valid s rules"
  by (induction rules lines rule: validated.induct) (auto split: if_splits)

lemma validated_shorter:
  "validated rules lines = Some (s, rest) \<Longrightarrow> length rest < length lines \<or> lines = [] \<and> rest = [] \<and> is_valid [] rules"
proof (induction rules lines rule: validated.induct)
  case (2 rules line lines)
  then show ?case by (cases "is_valid (trim line) rules") auto
next
  case (3 rules e lines)
  then show ?case by auto
qed (auto split: if_splits)

lemma read_validated_Ok:
  "read_validated_input rules u = (u', Inr s) \<longleftrightarrow>
   (\<exists>lines. validated rules (ui_inputs u) = Some (s, lines) \<and> u' = u\<lparr>ui_inputs := lines\<rparr>)"
  by (auto simp: read_validated_input_def split: option.split prod.split)

text \<open>Reading for a screen consumes a line: none of the screens accepts an empty line.\<close>

lemma screen_reads:
  assumes "read_validated_input rules u = (u', Inr s)" "\<not> is_valid [] rules"
  shows "length (ui_inputs u') < length (ui_inputs u)" "is_valid s rules"
  using assms validated_shorter validated_valid by (auto simp: read_validated_Ok) force+


section \<open>Every call leaves at most the lines it found\<close>

abbreviation at_most :: "nat \<Rightarrow> ui \<Rightarrow> bool" where
  "at_most n u \<equiv> length (ui_inputs u) \<le> n"

lemma goto_apply [simp]: "goto scr u = (u\<lparr>ui_screen := scr\<rparr>, Ok ())"
  by (simp add: goto_def)

lemma keeps_goto [keeps_intros]: "keeps (at_most n) (goto scr)"
  by (simp add: keeps_def)

lemma keeps_on_client [keeps_intros]: "keeps (at_most n) (on_client m)"
  by (simp add: keeps_def on_client_def split: prod.split)

lemma keeps_pause [keeps_intros]: "keeps (at_most n) pause"
  by (auto simp: keeps_def pause_def intro: le_trans [OF diff_le_self])

lemma keeps_read_validated [keeps_intros]: "keeps (at_most n) (read_validated_input rules)"
  using validated_shorter
  by (fastforce simp: keeps_def read_validated_input_def split: option.split)

lemma keeps_request_item [keeps_intros]: "keeps (at_most n) (request_item w name q acq i s1 s2)"
  unfolding request_item_def by (intro keeps_intros)

lemma keeps_build_new_item [keeps_intros]: "keeps (at_most n) build_new_item"
  unfolding build_new_item_def by (intro keeps_intros)

lemma keeps_handlers [keeps_intros]:
  "keeps (at_most n) (handle_item_edit w input itm i)"
  "keeps (at_most n) (handle_newlist_edit w input i)"
  "keeps (at_most n) (handle_list_edit w input items i)"
  "keeps (at_most n) (handle_main_menu w input available)"
  unfolding handle_item_edit_def handle_newlist_edit_def handle_list_edit_def handle_main_menu_def
  by (intro keeps_intros)+

text \<open>A command after its input was read.\<close>

lemma read_then:
  assumes "act_bind (read_validated_input rules) f u = (u', Inr ())" "\<not> is_valid [] rules"
    "\<And>s. keeps (at_most (length (ui_inputs u) - 1)) (f s)"
  shows "length (ui_inputs u') < length (ui_inputs u)"
proof -
  obtain u1 s where r: "read_validated_input rules u = (u1, Inr s)" "f s u1 = (u', Inr ())"
    using assms(1) by (auto simp: act_bind_Ok)
  have less: "length (ui_inputs u1) < length (ui_inputs u)" by (rule screen_reads [OF r(1) assms(2)])
  then have "at_most (length (ui_inputs u) - 1) (fst (f s u1))"
    by (intro keepsD [OF assms(3)]) simp
  then show ?thesis using r(2) less by simp
qed

lemma on_client_inputs [simp]:
  "ui_inputs (fst (on_client m u)) = ui_inputs u" "ui_screen (fst (on_client m u)) = ui_screen u"
  by (simp_all add: on_client_def split: prod.split)

lemma act_try_on_client:
  "act_try (on_client m) u = (u', Inr r) \<Longrightarrow> ui_inputs u' = ui_inputs u \<and> ui_screen u' = ui_screen u"
  by (metis act_try_Ok fst_conv on_client_inputs)

lemma print_lists_inputs:
  "print_lists w u = (u', Inr l) \<Longrightarrow> ui_inputs u' = ui_inputs u"
proof -
  assume "print_lists w u = (u', Inr l)"
  then obtain u1 r where r: "act_try (on_client (retrieve_available_lists w)) u = (u1, Inr r)"
    and rest: "(case r of Inr (Some vec) \<Rightarrow> act_ret (map sli_list_id vec) | _ \<Rightarrow> act_ret []) u1 = (u', Inr l)"
    unfolding print_lists_def act_bind_Ok by blast
  have "u' = u1" using rest by (cases r) (auto split: option.splits)
  then show "ui_inputs u' = ui_inputs u" using act_try_on_client [OF r] by simp
qed

text \<open>Every screen that is left without an error has used up a line, except an open list that cannot be
  loaded at the end of the input, which leads to the main menu.\<close>

lemma render_uses_input:
  assumes "render w u = (u', Inr ())" "ui_screen u \<noteq> Exit_Screen"
  shows "length (ui_inputs u') < length (ui_inputs u) \<or>
    ui_inputs u = [] \<and> ui_inputs u' = [] \<and> ui_screen u' = Main_Menu \<and> ui_screen u \<noteq> Main_Menu"
proof -
  let ?u = "u\<lparr>ui_screen := Main_Menu\<rparr>"
  have inputs: "ui_inputs ?u = ui_inputs u" by simp
  show ?thesis
  proof (cases "ui_screen u")
    case (List_Create i)
    then have "act_bind (read_validated_input newlist_rules) (\<lambda>input. handle_newlist_edit w input i) ?u = (u', Inr ())"
      using assms by (simp add: render_def act_bind_apply)
    from read_then [OF this _ keeps_handlers(2)] show ?thesis by simp
  next
    case (Item_Edit i itm)
    then have "act_bind (read_validated_input item_rules) (\<lambda>input. handle_item_edit w input itm i) ?u = (u', Inr ())"
      using assms by (simp add: render_def act_bind_apply)
    from read_then [OF this _ keeps_handlers(1)] show ?thesis by simp
  next
    case Main_Menu
    then obtain u1 l where l: "print_lists w ?u = (u1, Inr l)"
        "act_bind (read_validated_input (menu_rules (length l))) (\<lambda>input. handle_main_menu w input l) u1 = (u', Inr ())"
      using assms by (auto simp: render_def act_bind_Ok)
    from read_then [OF l(2) _ keeps_handlers(4)] print_lists_inputs [OF l(1)] show ?thesis by simp
  next
    case (List_Edit i)
    then obtain u1 r where r: "act_try (on_client (retrieve_list w i)) ?u = (u1, Inr r)"
      and rest: "(case r of
          Inr lst \<Rightarrow> (let items = print_and_process_list_items lst
             in act_bind (read_validated_input (list_rules (length items))) (\<lambda>input. handle_list_edit w input items i))
        | Inl _ \<Rightarrow> act_seq (goto Main_Menu) pause) u1 = (u', Inr ())"
      using assms by (auto simp: render_def act_bind_Ok)
    note u1 = act_try_on_client [OF r]
    show ?thesis
    proof (cases r)
      case (Inl e)
      then show ?thesis
        using rest u1 List_Edit by (cases "ui_inputs u") (auto simp: pause_def act_bind_apply)
    next
      case (Inr lst)
      then have "act_bind (read_validated_input (list_rules (length (print_and_process_list_items lst))))
          (\<lambda>input. handle_list_edit w input (print_and_process_list_items lst) i) u1 = (u', Inr ())"
        using rest by (simp add: Let_def)
      from read_then [OF this _ keeps_handlers(3)] u1 show ?thesis by simp
    qed
  qed (use assms in simp)
qed

lemma session_fuel:
  "length (ui_inputs u) + (if ui_inputs u = [] \<and> ui_screen u = Main_Menu then 1 else 2) \<le> fuel \<Longrightarrow>
   \<exists>r. run_session fuel w u = Some r"
proof (induction fuel arbitrary: u)
  case (Suc n)
  show ?case
  proof (cases "is_done u")
    case False
    obtain u' r where r: "render w u = (u', r)" by force
    show ?thesis
    proof (cases r)
      case (Inr x)
      then have "length (ui_inputs u') + (if ui_inputs u' = [] \<and> ui_screen u' = Main_Menu then 1 else 2) \<le> n"
        using render_uses_input [of w u u'] r Suc.prems False by (auto simp: is_done_def split: if_splits)
      from Suc.IH [OF this] r Inr False show ?thesis by simp
    qed (use r False in simp)
  qed simp
qed (auto split: if_splits)


section \<open>Which errors end a session\<close>

text \<open>The client's calls terminate: they come to a result, an error for their caller or a panic.\<close>

fun terminates :: "'a res \<Rightarrow> bool" where
  "terminates (Inr x) = True"
| "terminates (Inl (Fail e)) = True"
| "terminates (Inl (Panic e)) = True"
| "terminates (Inl Deadlock) = False"
| "terminates (Inl Hang) = False"

named_theorems terminates_intros \<open>rules for calls that terminate\<close>

lemma terminates_bind [terminates_intros]:
  "terminates r \<Longrightarrow> (\<And>x. terminates (f x)) \<Longrightarrow> terminates (bind_res r f)"
  by (cases r rule: terminates.cases) simp_all

lemma terminates_collect [terminates_intros]: "(\<And>x. terminates (f x)) \<Longrightarrow> terminates (collect_res f xs)"
  by (induction xs) (simp_all add: terminates_bind)

lemma terminates_run [terminates_intros]: "(\<And>s x. terminates (f s x)) \<Longrightarrow> terminates (run_res f s xs)"
  by (induction xs arbitrary: s) (simp_all add: terminates_bind)

lemma terminates_if [terminates_intros]:
  "terminates a \<Longrightarrow> terminates b \<Longrightarrow> terminates (if c then a else b)"
  "terminates a \<Longrightarrow> (\<And>y. terminates (g y)) \<Longrightarrow> terminates (case_option a g x)"
  "(\<And>y z. terminates (h y z)) \<Longrightarrow> terminates (case_prod h q)"
  by (simp_all split: option.split prod.split)

lemma terminates_ok [simp, terminates_intros]: "terminates (Err (Fail e))" "terminates (Err sqlite_error)" "terminates (Err overflow)"
  by (simp_all add: sqlite_error_def overflow_def)

lemma terminates_arith [terminates_intros]:
  "terminates (checked_add a b)" "terminates (checked_sub_i64 c d)" "terminates (checked_neg_i64 c)"
  by (simp_all add: checked_add_def checked_sub_i64_def checked_neg_i64_def)

lemma terminates_sum [terminates_intros]: "terminates (sum_u64 acc vs)"
  by (induction acc vs rule: sum_u64.induct) (simp_all add: terminates_intros)

lemma terminates_counters [terminates_intros]:
  "terminates (pncounter_value_total c)" "terminates (pncounter_inc_by c n)" "terminates (pncounter_dec_by c n)"
  unfolding pncounter_value_total_def gcounter_value_total_def pncounter_inc_by_def pncounter_dec_by_def gcounter_inc_by_def
  by (simp_all add: terminates_intros)

lemma terminates_update [terminates_intros]: "terminates (update_item a q acq i)"
  unfolding update_item_def by (simp add: terminates_intros)

lemma terminates_from_crdt [terminates_intros]: "terminates (from_crdt l)"
proof -
  have "terminates (from_crdt_loop kvs m)" for kvs m
    by (induction kvs m rule: from_crdt_loop.induct) (simp_all add: terminates_intros)
  then show ?thesis by (simp add: from_crdt_def terminates_intros)
qed

lemma terminates_build_item [terminates_intros]: "terminates (build_item lib s r)"
proof -
  have "terminates (read_gcounter_loop lib rows c)" for rows c
    by (induction lib rows c rule: read_gcounter_loop.induct) (simp_all split: option.split)
  then show ?thesis by (simp add: build_item_def read_gcounter_def terminates_intros)
qed

lemma terminates_reads [terminates_intros]:
  "terminates (read_shopping_list lib ok s i)" "terminates (get_user_lists lib ok s)" "terminates (read_item lib ok s name i)"
proof -
  have loop: "terminates (read_list_loop lib s rows m)" for rows m
    by (induction lib s rows m rule: read_list_loop.induct) (simp_all add: terminates_intros)
  show read: "terminates (read_shopping_list lib ok s i)" for i
    by (simp add: read_shopping_list_def terminates_bind loop)
  show "terminates (get_user_lists lib ok s)"
    by (simp add: get_user_lists_def read terminates_intros)
  show "terminates (read_item lib ok s name i)" by (simp add: read_item_def)
qed

lemma terminates_writes [terminates_intros]:
  "terminates (ensure_list lib ok s i)" "terminates (overwrite_item lib' ok s itm a b c)"
  "terminates (write_item lib' ok s str itm name)" "terminates (write_shopping_list lib' ok s lst)"
proof -
  have insert: "terminates (insert_values lib' g kvs t)" for g kvs t
    by (induction lib' g kvs t rule: insert_values.induct) (simp_all split: option.split)
  have replace: "terminates (replace_values lib' g kvs t)" for g kvs t
    by (induction lib' g kvs t rule: replace_values.induct) (simp_all split: option.split)
  show "terminates (ensure_list lib ok s i)" by (simp add: ensure_list_def)
  show "terminates (overwrite_item lib' ok s itm a b c)" by (simp add: overwrite_item_def Let_def)
  show "terminates (write_item lib' ok s str itm name)"
    by (simp add: write_item_def Let_def new_gcounter_def terminates_bind insert)
  have "terminates (write_list_item lib' str t e)" for str t e
    unfolding write_list_item_def Let_def
    by (simp add: replace terminates_intros split: prod.split)
  then show "terminates (write_shopping_list lib' ok s lst)"
    by (simp add: write_shopping_list_def terminates_run)
qed

text \<open>The calls of the client.\<close>

definition call_terminates :: "('s, 'a) act \<Rightarrow> bool" where
  "call_terminates m \<longleftrightarrow> (\<forall>s. terminates (snd (m s)))"

lemma call_terminates_bind [terminates_intros]:
  assumes "call_terminates m" "\<And>x. call_terminates (f x)"
  shows "call_terminates (act_bind m f)"
  unfolding call_terminates_def
proof
  fix s
  show "terminates (snd (act_bind m f s))"
  proof (cases "snd (m s)")
    case (Inl e)
    moreover have "terminates (snd (m s))" using assms(1) by (simp add: call_terminates_def)
    ultimately show ?thesis by (cases e) (simp_all add: act_bind_apply)
  next
    case (Inr x)
    then show ?thesis using assms(2) by (simp add: act_bind_apply call_terminates_def)
  qed
qed

lemma call_terminates_try [terminates_intros]:
  assumes "call_terminates m"
  shows "call_terminates (act_try m)"
  unfolding call_terminates_def
proof
  fix s
  have "terminates (snd (m s))" using assms by (simp add: call_terminates_def)
  then show "terminates (snd (act_try m s))"
    by (cases "snd (m s)" rule: terminates.cases) (simp_all add: act_try_apply)
qed

lemma call_terminates_basic [terminates_intros]:
  "call_terminates (act_ret x)" "call_terminates (act_err (Fail e))" "call_terminates (act_err (Panic e))"
  "call_terminates (act_gets f)" "call_terminates (act_modify g)" "call_terminates (client_tick h)"
  "terminates r \<Longrightarrow> call_terminates (act_of_res r)"
  by (simp_all add: call_terminates_def client_tick_def)

lemma call_terminates_on_storage [terminates_intros]: "call_terminates k \<Longrightarrow> call_terminates (on_storage k)"
  by (auto simp: call_terminates_def on_storage_def split: prod.split) (metis snd_conv)

lemma call_terminates_gets: "(\<And>s. call_terminates (k (f s))) \<Longrightarrow> call_terminates (act_bind (act_gets f) k)"
  by (simp add: call_terminates_def act_bind_apply)

lemma call_terminates_cases [terminates_intros]:
  "call_terminates a \<Longrightarrow> (\<And>y. call_terminates (b y)) \<Longrightarrow> call_terminates (case_option a b x)"
  "(\<And>e. call_terminates (f e)) \<Longrightarrow> (\<And>y. call_terminates (g y)) \<Longrightarrow> call_terminates (case_sum f g r)"
  "(\<And>y. call_terminates (h y)) \<Longrightarrow> call_terminates k \<Longrightarrow> (\<And>e. call_terminates (l e)) \<Longrightarrow> call_terminates (case_reply h k l rep)"
  by (simp_all split: option.split sum.split reply.split)

lemma call_terminates_ignore [terminates_intros]: "call_terminates m \<Longrightarrow> call_terminates (act_ignore m)"
  unfolding act_ignore_def by (rule terminates_intros | assumption)+

lemma call_terminates_network [terminates_intros]:
  "call_terminates (client_zmq w)" "call_terminates (reset_socket w)" "call_terminates (client_send w m)"
  unfolding reset_socket_def client_send_def client_zmq_def by (rule terminates_intros)+

lemma call_terminates_storage [terminates_intros]:
  "call_terminates (client_read_list w i)" "call_terminates (client_write_list w lst)"
  "call_terminates (retrieve_available_lists w)"
  "call_terminates (handle_item_storage_request w ok ok' ok'' name q acq i)"
  unfolding client_read_list_def client_write_list_def retrieve_available_lists_def handle_item_storage_request_def
  by (rule call_terminates_gets terminates_intros)+

lemma call_terminates_requests [terminates_intros]:
  "call_terminates (send_list w lst)" "call_terminates (fetch_list w lst)" "call_terminates (retrieve_list w i)"
  "call_terminates (send_item_storage_request w name q acq i)"
proof -
  have msgs: "call_terminates (case m of AckList s l \<Rightarrow> f s l | Nack s \<Rightarrow> g s | _ \<Rightarrow> h)"
    if "\<And>s l. call_terminates (f s l)" "\<And>s. call_terminates (g s)" "call_terminates h"
    for m :: msg and f g and h :: "(client, 'x) act"
    using that by (simp split: msg.split)
  show send: "call_terminates (send_list w lst)" for lst
    unfolding send_list_def by (rule terminates_intros)+
  show fetch: "call_terminates (fetch_list w lst)" for lst
    unfolding fetch_list_def by (rule msgs terminates_intros)+
  show "call_terminates (retrieve_list w i)"
    unfolding retrieve_list_def Let_def by (rule fetch terminates_intros)+
  show "call_terminates (send_item_storage_request w name q acq i)"
    unfolding send_item_storage_request_def by (rule send terminates_intros)+
qed

text \<open>What the calls of the user interface may end with: a panic, or asking forever when no line is left.\<close>

fun ends_well :: "ui \<Rightarrow> 'a res \<Rightarrow> bool" where
  "ends_well u (Inr x) = True"
| "ends_well u (Inl (Panic e)) = True"
| "ends_well u (Inl Hang) \<longleftrightarrow> ui_inputs u = []"
| "ends_well u (Inl e) = False"

definition ending :: "(ui, 'a) act \<Rightarrow> bool" where
  "ending m \<longleftrightarrow> (\<forall>u. ends_well (fst (m u)) (snd (m u)))"

named_theorems ending_intros \<open>rules for calls that end in a panic or at the end of the input only\<close>

lemma ending_bind [ending_intros]:
  assumes "ending m" "\<And>x. ending (f x)"
  shows "ending (act_bind m f)"
  unfolding ending_def
proof
  fix u
  show "ends_well (fst (act_bind m f u)) (snd (act_bind m f u))"
  proof (cases "snd (m u)")
    case (Inl e)
    moreover have "ends_well (fst (m u)) (snd (m u))" using assms(1) by (simp add: ending_def)
    ultimately show ?thesis by (cases e) (simp_all add: act_bind_apply)
  next
    case (Inr x)
    then show ?thesis using assms(2) by (simp add: act_bind_apply ending_def)
  qed
qed

lemma ending_basic [ending_intros]:
  "ending (act_ret x)" "ending (act_err (Panic e))" "ending (act_gets f)" "ending (goto scr)" "ending pause"
  by (simp_all add: ending_def pause_def)

lemma ending_read [ending_intros]: "ending (read_validated_input rules)"
  by (simp add: ending_def read_validated_input_def split: option.split)

lemma ending_tick [ending_intros]: "ending (on_client (client_tick f))"
  by (simp add: ending_def on_client_def client_tick_def)

lemma ending_try [ending_intros]:
  assumes "call_terminates m"
  shows "ending (act_try (on_client m))"
  unfolding ending_def
proof
  fix u :: ui
  have "terminates (snd (m (ui_client u)))" using assms by (simp add: call_terminates_def)
  moreover have "snd (on_client m u) = snd (m (ui_client u))" by (simp add: on_client_def split: prod.split)
  ultimately show "ends_well (fst (act_try (on_client m) u)) (snd (act_try (on_client m) u))"
    by (cases "snd (m (ui_client u))" rule: terminates.cases) (simp_all add: act_try_apply)
qed

lemma ending_cases [ending_intros]:
  "ending a \<Longrightarrow> ending b \<Longrightarrow> ending (if c then a else b)"
  "ending a \<Longrightarrow> (\<And>y. ending (d y)) \<Longrightarrow> ending (case_option a d x)"
  "(\<And>e. ending (f e)) \<Longrightarrow> (\<And>y. ending (g y)) \<Longrightarrow> ending (case_sum f g r)"
  by (simp_all split: option.split sum.split)

lemma ending_request [ending_intros]: "ending (request_item w name q acq i s1 s2)"
  unfolding request_item_def by (rule ending_intros terminates_intros)+

lemma ending_handlers [ending_intros]:
  "ending (handle_item_edit w input itm i)" "ending (handle_newlist_edit w input i)"
  "ending (handle_list_edit w input items i)" "ending (handle_main_menu w input available)" "ending (print_lists w)"
  unfolding handle_item_edit_def handle_newlist_edit_def handle_list_edit_def handle_main_menu_def build_new_item_def print_lists_def
  by (rule ending_intros terminates_intros)+

lemma ending_render: "ending (render w)"
proof -
  have screens: "ending (case scr of List_Create i \<Rightarrow> f i | List_Edit i \<Rightarrow> g i | Main_Menu \<Rightarrow> a | Exit_Screen \<Rightarrow> b | Item_Edit i itm \<Rightarrow> h i itm)"
    if "\<And>i. ending (f i)" "\<And>i. ending (g i)" "ending a" "ending b" "\<And>i itm. ending (h i itm)"
    for scr f g h and a b :: "(ui, unit) act"
    using that by (simp split: screen.split)
  show ?thesis
    unfolding render_def Let_def by (rule screens ending_intros terminates_intros)+
qed

lemma session_outcome:
  "run_session n w u = Some (u', r) \<Longrightarrow>
   is_done u' \<and> r = Ok () \<or> (\<exists>m. r = Err (Panic m)) \<or> r = Err Hang \<and> ui_inputs u' = []"
proof (induction n arbitrary: u)
  case (Suc n)
  show ?case
  proof (cases "is_done u")
    case False
    obtain v x where v: "render w u = (v, x)" by force
    have "ends_well v x" using ending_render [of w] v by (auto simp: ending_def dest: spec [of _ u])
    with v False Suc.prems Suc.IH [of v] show ?thesis
      by (cases "(v, x)" rule: ends_well.cases)
        (auto simp del: run_session.simps simp add: run_session.simps [of "Suc n"])
  qed (use Suc.prems in auto)
qed (auto split: if_splits)


section \<open>Commands\<close>

lemma item_amount_command:
  assumes "ds \<noteq> []" "list_all is_ascii_digit ds"
  shows "handle_item_edit w (CHR ''a'' # ds) itm i =
    (if digits_value 0 ds = 0 then act_seq pause (goto (List_Edit i))
     else if digits_value 0 ds < 2 ^ 64
     then request_item w (ii_name itm) (of_nat (digits_value 0 ds)) (ii_acquired itm) i (List_Edit i) (List_Edit i)
     else act_ret ()) \<and>
   is_valid (CHR ''a'' # ds) item_rules"
proof -
  have "parse_usize ds = (if digits_value 0 ds < 2 ^ 64 then Some (digits_value 0 ds) else None)"
  proof -
    obtain c cs where ds: "ds = c # cs" using assms(1) by (cases ds) auto
    have "c \<noteq> CHR ''+''" using assms(2) by (auto simp: ds is_ascii_digit_def Let_def)
    then have "(case ds of [] \<Rightarrow> [] | [c] \<Rightarrow> [c] | c # cs \<Rightarrow> if c = CHR ''+'' then cs else c # cs) = ds"
      by (simp add: ds split: list.split)
    then show ?thesis using assms by (simp add: parse_usize_def Let_def)
  qed
  then show ?thesis using assms by (auto simp: handle_item_edit_def)
qed

lemma request_item_outcome:
  assumes "send_item_storage_request w name q acq i (ui_client v) = (c', r)" "comes_back r"
  shows "\<exists>u'. request_item w name q acq i scr scr v = (u', Ok ()) \<and> ui_screen u' = scr \<and> ui_client u' = c'"
  using assms by (cases r)
    (auto simp: request_item_def on_client_def act_bind_apply act_try_apply pause_def comes_back_cases)


section \<open>Coming back\<close>

text \<open>A user who comes back under the same name finds the tables as they were left and keeps the id under
  which their counts are made.\<close>

lemma returning_user_keeps_identity:
  assumes "uuid_law lib" "start_client lib True fresh databases lines = Ok (u, metadata)"
    and name: "validated [Custom (list_all is_ascii_alphabetic)] lines = Some (username, rest)"
      "validated [Custom (list_all is_ascii_alphabetic)] lines' = Some (username, rest')"
    and left: "databases' username = (metadata, Some s)"
  shows "\<exists>u'. start_client lib True fresh' databases' lines' = Ok (u', metadata) \<and>
    cl_id (ui_client u') = cl_id (ui_client u) \<and> ui_inputs u' = rest' \<and>
    cl_storage (ui_client u') = s\<lparr>cs_client_id := cl_id (ui_client u), cs_cached_lists := []\<rparr>"
proof -
  obtain md db where db: "databases username = (md, db)" by force
  show ?thesis
    using assms db
    by (cases md) (auto simp: start_client_def cs_new_def request_client_id_def client_new_def ui_new_def uuid_law_def initialize_schema_def
        split: option.splits)
qed


section \<open>Properties\<close>

text \<open>A world in which SQLite works and no server answers.\<close>

definition sample_ui_world :: "msg ui_world" where
  "sample_ui_world = \<lparr>uuid_to_string = uuid_to_string sample_lib, uuid_parse = uuid_parse sample_lib,
     md5 = md5 sample_lib, u64_to_sql = (\<lambda>v. if v < 2 ^ 63 then Some v else None),
     u64_from_sql = (\<lambda>v. if v < 2 ^ 63 then Some v else None), c_sql_ok = (\<lambda>_. True),
     c_zmq = (\<lambda>_. None), c_recv = (\<lambda>_. Eagain), c_from_slice = Some, u_new_uuid = (\<lambda>_. 9)\<rparr>"

text \<open>Reading validated input gives the first line that some rule accepts, without the white space
  around it, and leaves the lines after it; lines that are not accepted and lines that cannot be read
  are skipped. When no line is left it asks forever, unless the rules accept the empty text.\<close>

lemma validated_input_is_first_accepted:
  "validated rules lines =
     (case dropWhile (\<lambda>l. case l of Inr line \<Rightarrow> \<not> is_valid (trim line) rules | Inl _ \<Rightarrow> True) lines of
        Inr line # rest \<Rightarrow> Some (trim line, rest)
      | _ \<Rightarrow> if is_valid [] rules then Some ([], []) else None)"
  by (induction rules lines rule: validated.induct) auto

text \<open>The list screen accepts exactly its commands: an accepted input is one of the four letters or the
  number of an item shown, counted from 1, and then opens that item. So the branch for deleting items, which is not
  implemented and would panic, is never reached, nor is the one for invalid selections.\<close>

lemma list_screen_commands:
  assumes "is_valid input (list_rules (length shown))"
  shows "input \<noteq> ''d'' \<and> (input \<in> {''q'', ''b'', ''a'', ''r''} \<or>
    (\<exists>k<length shown. parse_usize input = Some (k + 1) \<and>
       handle_list_edit w input shown i = goto (Item_Edit i (shown ! k))))"
proof -
  have letters: "parse_usize ''d'' = None" "parse_usize ''q'' = None" "parse_usize ''b'' = None"
      "parse_usize ''a'' = None" "parse_usize ''r'' = None"
    by (simp_all add: parse_usize_def is_ascii_digit_def Let_def)
  show ?thesis
  proof (cases "input \<in> {''q'', ''b'', ''a'', ''r''}")
    case False
    then obtain k where k: "parse_usize input = Some k" "1 \<le> k" "k \<le> length shown"
      using assms by auto
    then have "input \<notin> {''q'', ''b'', ''a'', ''r'', ''d''}" using letters by auto
    moreover have "selected input shown = Some (shown ! (k - 1))" using k by (simp add: selected_def)
    ultimately show ?thesis using k by (auto simp: handle_list_edit_def intro!: exI [of _ "k - 1"])
  qed auto
qed

lemma list_screen_commands_witness:
  "handle_list_edit sample_ui_world ''+2'' [\<lparr>ii_name = ''milk'', ii_amount = 2, ii_acquired = False\<rparr>,
     \<lparr>ii_name = ''tea'', ii_amount = 1, ii_acquired = True\<rparr>] 7 =
   goto (Item_Edit 7 \<lparr>ii_name = ''tea'', ii_amount = 1, ii_acquired = True\<rparr>)"
proof -
  have two: "parse_usize ''+2'' = Some 2" by (simp add: parse_usize_def is_ascii_digit_def Let_def)
  let ?shown = "[\<lparr>ii_name = ''milk'', ii_amount = 2, ii_acquired = False\<rparr>,
     \<lparr>ii_name = ''tea'', ii_amount = 1, ii_acquired = True\<rparr>]"
  have "is_valid ''+2'' (list_rules (length ?shown))" by (simp add: two)
  from list_screen_commands [OF this, of sample_ui_world 7] show ?thesis by (auto simp: two)
qed

text \<open>A new item that the user has entered has a name of ASCII letters only and a quantity from 1 to
  1000000, and is not acquired; entering one never panics. (The name may be empty.)\<close>

lemma new_items_in_bounds:
  "(case snd (build_new_item u) of
      Inr itm \<Rightarrow> list_all is_ascii_alphabetic (ii_name itm) \<and> 1 \<le> unat (ii_amount itm) \<and>
        unat (ii_amount itm) \<le> UPPER_ITEM_COUNT_LIMIT \<and> \<not> ii_acquired itm
    | Inl e \<Rightarrow> e = Hang)"
proof -
  let ?name = "[Custom (list_all is_ascii_alphabetic)]" and ?range = "[Accept_Number_Range 1 UPPER_ITEM_COUNT_LIMIT]"
  show ?thesis
  proof (cases "validated ?name (ui_inputs u)")
    case (Some e)
    obtain name lines where e: "e = (name, lines)" by force
    have name: "list_all is_ascii_alphabetic name" using validated_valid Some by (fastforce simp: e)
    show ?thesis
    proof (cases "validated ?range lines")
      case range: (Some e2)
      obtain amt lines2 where e2: "e2 = (amt, lines2)" by force
      obtain n where n: "parse_usize amt = Some n" "1 \<le> n" "n \<le> UPPER_ITEM_COUNT_LIMIT"
        using validated_valid range by (fastforce simp: e2 split: option.splits)
      then have "unat (of_nat n :: u64) = n" by (simp add: UPPER_ITEM_COUNT_LIMIT_def unat_of_nat take_bit_nat_eq_self)
      with n Some range name show ?thesis
        by (simp add: build_new_item_def act_bind_apply read_validated_input_def e e2)
    qed (simp add: build_new_item_def act_bind_apply read_validated_input_def Some e)
  qed (simp add: build_new_item_def act_bind_apply read_validated_input_def)
qed

text \<open>C29: Every session ends: over finitely many lines of input, showing screens for at most two more times than
  there are lines leads to the exit screen, to a panic, or to validated input being asked for forever when
  no line of the input is left. No screen and no call of the client loops, deadlocks or lets an error escape before
  that, whatever the client's storage and the network do.\<close>

theorem sessions_end:
  "\<exists>u' r. run_session (length (ui_inputs u) + 2) w u = Some (u', r) \<and>
    (is_done u' \<and> r = Ok () \<or> (\<exists>m. r = Err (Panic m)) \<or> r = Err Hang \<and> ui_inputs u' = [])"
proof -
  have "length (ui_inputs u) + (if ui_inputs u = [] \<and> ui_screen u = Main_Menu then 1 else 2) \<le> length (ui_inputs u) + 2"
    by simp
  then obtain x where x: "run_session (length (ui_inputs u) + 2) w u = Some x"
    using session_fuel by blast
  obtain u' r where "x = (u', r)" by force
  with x have run: "run_session (length (ui_inputs u) + 2) w u = Some (u', r)" by (simp only:)
  from run session_outcome [OF run] show ?thesis by blast
qed

text \<open>On the item screen, \<open>a<nr>\<close> sets the quantity to \<open>nr\<close>: a zero is refused after a pause, a number
  that fits 64 bits is requested as it is, and a longer one, which the screen accepts, does nothing and ends in the main
  menu.\<close>

lemma item_screen_amounts:
  assumes "ds \<noteq> []" "list_all is_ascii_digit ds"
  shows "handle_item_edit w (CHR ''a'' # ds) itm i =
    (if digits_value 0 ds = 0 then act_seq pause (goto (List_Edit i))
     else if digits_value 0 ds < 2 ^ 64
     then request_item w (ii_name itm) (of_nat (digits_value 0 ds)) (ii_acquired itm) i (List_Edit i) (List_Edit i)
     else act_ret ()) \<and>
   is_valid (CHR ''a'' # ds) item_rules"
  using item_amount_command [OF assms] .

lemma item_screen_amounts_witness:
  "handle_item_edit w ''a20000000000000000000'' itm i = act_ret () \<and> is_valid ''a20000000000000000000'' item_rules"
  using item_screen_amounts [of "''20000000000000000000''" w itm i] by (simp add: is_ascii_digit_def Let_def)

lemma safe_client_calls [safe_intros]:
  "safe (\<lambda>_. True) (client_tick f)" "safe (\<lambda>_. True) (client_zmq w)" "safe (\<lambda>_. True) (reset_socket w)"
proof -
  show tick: "safe (\<lambda>_. True) (client_tick f)" for f :: "nat \<Rightarrow> 'a"
    by (simp add: safe_def client_tick_def)
  have "comes_back (snd (client_zmq w c))" for c
    by (simp add: client_zmq_apply split: option.split)
  then show zmq: "safe (\<lambda>_. True) (client_zmq w)" by (simp add: safe_def)
  show "safe (\<lambda>_. True) (reset_socket w)" unfolding reset_socket_def by (intro safe_intros zmq)
qed

lemma send_list_comes_back: "comes_back (snd (send_list w lst c))"
proof -
  have "safe (\<lambda>_. True) (send_list w lst)"
    unfolding send_list_def client_send_def
    by (intro safe_intros) (auto split: reply.split option.split intro!: safe_intros)
  then show ?thesis by (simp add: safe_def)
qed

text \<open>C12: Editing works from the keyboard to the database: on the screen of an item, a line \<open>a<nr>\<close> with a
  positive number that fits makes the stored item read back with that quantity and the status that
  was shown, and the list is shown again, whether or not the servers can be reached.\<close>

theorem item_screen_edit_is_stored:
  assumes laws: "sql_u64_law w" "uuid_law w" and ok: "cs_ok w (cl_storage (ui_client u))"
    and sql: "\<forall>k<4. c_sql_ok w (cl_tick (ui_client u) + k)"
    and scr: "ui_screen u = Item_Edit i itm" "ui_inputs u = Inr line # lines" "trim line = CHR ''a'' # ds"
    and ds: "ds \<noteq> []" "list_all is_ascii_digit ds" "0 < digits_value 0 ds" "digits_value 0 ds < 2 ^ 64"
    and fits: "request_fits w (cl_storage (ui_client u)) (uuid_to_string w i) (ii_name itm) (of_nat (digits_value 0 ds))"
  shows "\<exists>u' lst stored. render w u = (u', Ok ()) \<and> ui_screen u' = List_Edit i \<and>
    read_shopping_list w True (cl_storage (ui_client u')) i = Ok lst \<and>
    hm_get (aw_items (sl_list lst)) (ii_name itm) = Some stored \<and>
    shows_item stored (of_nat (digits_value 0 ds)) (ii_acquired itm)"
proof -
  let ?q = "of_nat (digits_value 0 ds) :: u64" and ?c = "ui_client u"
  obtain s' lst stored where run: "handle_item_storage_request w True True True (ii_name itm) ?q (ii_acquired itm) i
      (cl_storage ?c) = (s', Ok ())"
    and lst: "read_shopping_list w True s' i = Ok lst" "hm_get (aw_items (sl_list lst)) (ii_name itm) = Some stored"
      "shows_item stored ?q (ii_acquired itm)"
    using edit_sets_item [OF laws ok fits, of "ii_acquired itm"] by blast
  let ?c4 = "?c\<lparr>cl_storage := s', cl_tick := cl_tick ?c + 4\<rparr>"
  have ticks: "c_sql_ok w (cl_tick ?c)" "c_sql_ok w (Suc (cl_tick ?c))" "c_sql_ok w (Suc (Suc (cl_tick ?c)))"
      "c_sql_ok w (Suc (Suc (Suc (cl_tick ?c))))"
    using sql [rule_format, of 0] sql [rule_format, of 1] sql [rule_format, of 2] sql [rule_format, of 3]
    by (simp_all add: eval_nat_numeral)
  have "send_item_storage_request w (ii_name itm) ?q (ii_acquired itm) i ?c = send_list w lst ?c4"
    using run lst(1) ticks
    by (simp add: send_item_storage_request_def act_bind_apply on_storage_def client_read_list_def eval_nat_numeral)
  then have send: "send_item_storage_request w (ii_name itm) ?q (ii_acquired itm) i ?c =
      (fst (send_list w lst ?c4), snd (send_list w lst ?c4))" by simp
  have kept: "cl_storage (fst (send_list w lst ?c4)) = s'"
    by (rule keeps_value [where f = cl_storage]) (auto intro!: keeps_intros)
  let ?v = "u\<lparr>ui_screen := Main_Menu, ui_inputs := lines\<rparr>"
  have "ui_client ?v = ?c" by simp
  with send obtain u' where u': "request_item w (ii_name itm) ?q (ii_acquired itm) i (List_Edit i) (List_Edit i) ?v = (u', Ok ())"
      "ui_screen u' = List_Edit i" "ui_client u' = fst (send_list w lst ?c4)"
    using request_item_outcome [OF _ send_list_comes_back] by metis
  note command = item_amount_command [OF ds(1,2), of w itm i]
  have "render w u = handle_item_edit w (CHR ''a'' # ds) itm i ?v"
    using scr command by (simp add: render_def act_bind_apply read_validated_input_def)
  also have "\<dots> = (u', Ok ())" using command ds(3,4) u'(1) by simp
  finally show ?thesis using u' kept lst by auto
qed

lemma build_item_cong:
  fixes lib :: "'x sql_lib_scheme" and lib' :: "'y sql_lib_scheme"
  assumes "uuid_parse lib = uuid_parse lib'" "u64_from_sql lib = u64_from_sql lib'"
  shows "build_item lib s r = build_item lib' s r"
proof -
  have "read_gcounter_loop lib rows c = read_gcounter_loop lib' rows c" for rows c
    using assms by (induction lib rows c rule: read_gcounter_loop.induct) (simp_all split: option.split)
  then show ?thesis by (simp add: build_item_def read_gcounter_def assms(1))
qed

lemma sample_ui_world_laws:
  "sql_u64_law sample_ui_world" "uuid_law sample_ui_world" "c_sql_ok sample_ui_world t"
  "uuid_to_string sample_ui_world = uuid_to_string sample_sql" "uuid_parse sample_ui_world = uuid_parse sample_sql"
  "u64_from_sql sample_ui_world = u64_from_sql sample_sql"
  by (simp_all add: sql_u64_law_def uuid_law_def sint_nonneg word_less_nat_alt sample_ui_world_def sample_lib_def
      sample_sql_def)

theorem item_screen_edit_is_stored_witness:
  "\<exists>u' lst stored. render sample_ui_world \<lparr>ui_screen = Item_Edit 7 \<lparr>ii_name = ''milk'', ii_amount = 5, ii_acquired = False\<rparr>,
       ui_client = client_new sample_client, ui_inputs = [Inr ''a2 '']\<rparr> = (u', Ok ()) \<and>
    read_shopping_list sample_ui_world True (cl_storage (ui_client u')) 7 = Ok lst \<and>
    hm_get (aw_items (sl_list lst)) ''milk'' = Some stored \<and> shows_item stored 2 False"
proof -
  let ?u = "\<lparr>ui_screen = Item_Edit 7 \<lparr>ii_name = ''milk'', ii_amount = 5, ii_acquired = False\<rparr>,
       ui_client = client_new sample_client, ui_inputs = [Inr ''a2 '']\<rparr>"
  have storage: "cl_storage (ui_client ?u) = sample_client" by (simp add: client_new_def)
  have ok: "cs_ok sample_ui_world (cl_storage (ui_client ?u))"
    using sample_client_ok
    unfolding storage cs_ok_def values_ok_def items_ok_def sample_ui_world_laws .
  have two: "digits_value 0 ''2'' = 2" by simp
  have "request_fits sample_ui_world sample_client (uuid_to_string sample_ui_world 7) ''milk'' 2"
    using sample_client_fits
    by (simp only: request_fits_def sample_ui_world_laws build_item_cong [OF sample_ui_world_laws(5,6)])
  then have fits: "request_fits sample_ui_world (cl_storage (ui_client ?u)) (uuid_to_string sample_ui_world 7) ''milk''
      (of_nat (digits_value 0 ''2''))"
    unfolding storage two by simp
  have line: "trim ''a2 '' = CHR ''a'' # ''2''" by (simp add: trim_def is_white_space_def Let_def)
  from item_screen_edit_is_stored [OF sample_ui_world_laws(1,2) ok _ _ _ line, of 7
      "\<lparr>ii_name = ''milk'', ii_amount = 5, ii_acquired = False\<rparr>" "[]"] fits
  show ?thesis by (simp add: sample_ui_world_laws(3) is_ascii_digit_def Let_def) blast
qed

end
