(* ===== verification/Proxy.thy ===== *)
theory Proxy
  imports Hash_Ring Message Action
begin

text \<open>
  The proxy of \<open>src/proxy.rs\<close>: a \<open>ROUTER\<close> socket for the clients, one for the servers and a hash
  ring. A client's request goes to the coordinator of its list, a server's reply to the client whose
  identity it carries, and a server that registers is put on the ring.

  The messages that are sent are kept in logs. A round of the loop is given what polling finds: for
  each readable socket, what receiving its message and, if it comes to that, forwarding it gives.
\<close>

record proxy =
  px_ring :: hash_ring
  px_backend :: "u8 list list list"
  px_frontend :: "u8 list list list"

text \<open>\<open>Proxy::new\<close>, once its sockets are bound.\<close>

definition proxy_new :: proxy where
  "proxy_new = \<lparr>px_ring = hash_ring_new VNODES REPLICAS, px_backend = [], px_frontend = []\<rparr>"

text \<open>The list a request of a client is about.\<close>

definition routed_list :: "msg option \<Rightarrow> uuid option" where
  "routed_list m =
     (case m of
        Some (GetList lst) \<Rightarrow> Some (sl_id lst)
      | Some (PutList lst) \<Rightarrow> Some (sl_id lst)
      | Some (MergeList lst) \<Rightarrow> Some (sl_id lst)
      | _ \<Rightarrow> None)"

text \<open>The result says whether the round goes on with the servers' socket.\<close>

definition proxy_frontend ::
    "'x digest_lib_scheme \<Rightarrow> (u8 list \<Rightarrow> msg option) \<Rightarrow> u8 list list res \<Rightarrow> unit res \<Rightarrow> (proxy, bool) act" where
  "proxy_frontend lib from_slice received forwarded =
     act_bind (act_of_res received) (\<lambda>msg.
     if length msg < 3 then act_ret False
     else act_bind (act_gets (\<lambda>p. case routed_list (from_slice (msg ! 2)) of
              Some list_id \<Rightarrow> get_coordinator lib (px_ring p) list_id
            | None \<Rightarrow> None)) (\<lambda>server_id. case server_id of
         Some s \<Rightarrow>
           act_seq (act_of_res forwarded)
          (act_seq (act_modify (\<lambda>p. p\<lparr>px_backend := px_backend p @ [as_bytes (uuid_to_string lib s) # msg]\<rparr>))
            (act_ret True))
       | None \<Rightarrow> act_ret True))"

text \<open>\<open>str::from_utf8\<close> and \<open>Uuid::parse_str\<close>: a text with a character outside ASCII is no UUID, so it does
  not matter here how such a character is decoded.\<close>

definition ascii_str :: "u8 list \<Rightarrow> string option" where
  "ascii_str bytes =
     (if list_all (\<lambda>b. b < 128) bytes then Some (map (\<lambda>b. char_of (unat b)) bytes) else None)"

definition registration :: "'x digest_lib_scheme \<Rightarrow> u8 list list \<Rightarrow> uuid option option" where
  "registration lib msg =
     (if length msg = 2 \<and> msg ! 1 = as_bytes ''READY''
      then Some (case ascii_str (msg ! 0) of None \<Rightarrow> None | Some id_str \<Rightarrow> uuid_parse lib id_str)
      else None)"

definition proxy_backend ::
    "'x digest_lib_scheme \<Rightarrow> u8 list list res \<Rightarrow> unit res \<Rightarrow> (proxy, unit) act" where
  "proxy_backend lib received forwarded =
     act_bind (act_of_res received) (\<lambda>msg. case registration lib msg of
       Some (Some uuid) \<Rightarrow> act_modify (\<lambda>p. p\<lparr>px_ring := add_node lib (px_ring p) uuid\<rparr>)
     | Some None \<Rightarrow> act_ret ()
     | None \<Rightarrow>
         (let msg' = (if msg \<noteq> [] then tl msg else msg)
          in act_seq (act_of_res forwarded)
               (act_modify (\<lambda>p. p\<lparr>px_frontend := px_frontend p @ [msg']\<rparr>))))"

text \<open>One round: the result of polling, and for each socket that is readable its message and the
  result of forwarding it.\<close>

record proxy_event =
  pe_poll :: "unit res"
  pe_front :: "(u8 list list res \<times> unit res) option"
  pe_back :: "(u8 list list res \<times> unit res) option"

definition proxy_round ::
    "'x digest_lib_scheme \<Rightarrow> (u8 list \<Rightarrow> msg option) \<Rightarrow> proxy_event \<Rightarrow> (proxy, unit) act" where
  "proxy_round lib from_slice ev =
     act_seq (act_of_res (pe_poll ev))
    (act_bind (case pe_front ev of
         Some (received, forwarded) \<Rightarrow> proxy_frontend lib from_slice received forwarded
       | None \<Rightarrow> act_ret True) (\<lambda>go_on.
     if \<not> go_on then act_ret ()
     else case pe_back ev of
         Some (received, forwarded) \<Rightarrow> proxy_backend lib received forwarded
       | None \<Rightarrow> act_ret ()))"

definition proxy_start ::
    "'x digest_lib_scheme \<Rightarrow> (u8 list \<Rightarrow> msg option) \<Rightarrow> proxy_event list \<Rightarrow> (proxy, unit) act" where
  "proxy_start lib from_slice events = act_for events (proxy_round lib from_slice)"


section \<open>The ring of a set of servers\<close>

text \<open>Without collisions between the points of different servers, the ring that adding servers one by
  one gives depends on the set of servers only.\<close>

definition no_collisions :: "'x digest_lib_scheme \<Rightarrow> nat \<Rightarrow> uuid list \<Rightarrow> bool" where
  "no_collisions lib v ns \<longleftrightarrow>
     list_all (\<lambda>n. list_all (\<lambda>m. n = m \<or>
       list_all (\<lambda>i. list_all (\<lambda>j. vnode_hash lib n i \<noteq> vnode_hash lib m j) [0..<v]) [0..<v]) ns) ns"

lemma no_collisionsD:
  "no_collisions lib v ns \<Longrightarrow> n \<in> set ns \<Longrightarrow> m \<in> set ns \<Longrightarrow> i < v \<Longrightarrow> j < v \<Longrightarrow>
   vnode_hash lib n i = vnode_hash lib m j \<Longrightarrow> n = m"
  by (fastforce simp: no_collisions_def list_all_iff)

lemma bt_wf_eq:
  assumes "bt_wf m" "bt_wf m'" "map_of m = map_of m'"
  shows "m = m'"
proof (rule map_sorted_distinct_set_unique [where f = fst])
  show same: "set m = set m'" using assms by (auto simp: bt_in_get)
  have "distinct (map fst m)" using assms(1) by (simp add: bt_wf_def strict_sorted_iff)
  then show "inj_on fst (set m \<union> set m')" by (simp add: same distinct_map)
qed (use assms in \<open>simp_all add: bt_wf_def strict_sorted_iff\<close>)

lemma ring_of_servers:
  "bt_wf (hr_ring hr) \<Longrightarrow> no_collisions lib (hr_virtual_nodes hr) ns \<Longrightarrow>
   bt_wf (hr_ring (foldl (add_node lib) hr ns)) \<and>
   map_of (hr_ring (foldl (add_node lib) hr ns)) =
     (\<lambda>k. case List.find (\<lambda>n. k \<in> vnode_hash lib n ` {0..<hr_virtual_nodes hr}) ns of
        Some n \<Rightarrow> Some n | None \<Rightarrow> map_of (hr_ring hr) k)"
proof (induction ns arbitrary: hr)
  case (Cons n ns)
  let ?hr = "add_node lib hr n" and ?v = "hr_virtual_nodes hr"
  have add: "bt_wf (hr_ring ?hr)"
      "map_of (hr_ring ?hr) = (\<lambda>k. if k \<in> vnode_hash lib n ` {0..<?v} then Some n else map_of (hr_ring hr) k)"
    using fold_bt_insert [OF Cons.prems(1), of "vnode_hash lib n" n "[0..<?v]"] by (auto simp: add_node_def)
  have tail: "no_collisions lib ?v ns"
    using Cons.prems(2) by (simp add: no_collisions_def list_all_iff)
  have clash: "x = n" if "x \<in> set ns" "k \<in> vnode_hash lib x ` {0..<?v}" "k \<in> vnode_hash lib n ` {0..<?v}" for x k
    using that no_collisionsD [OF Cons.prems(2), of x n] by auto
  have ih: "bt_wf (hr_ring (foldl (add_node lib) ?hr ns))"
      "map_of (hr_ring (foldl (add_node lib) ?hr ns)) =
       (\<lambda>k. case List.find (\<lambda>n. k \<in> vnode_hash lib n ` {0..<?v}) ns of
          Some n \<Rightarrow> Some n | None \<Rightarrow> map_of (hr_ring ?hr) k)"
    using Cons.IH [OF add(1)] tail by simp_all
  have "map_of (hr_ring (foldl (add_node lib) ?hr ns)) k =
      (case List.find (\<lambda>n. k \<in> vnode_hash lib n ` {0..<?v}) (n # ns) of
         Some n \<Rightarrow> Some n | None \<Rightarrow> map_of (hr_ring hr) k)" for k
  proof (cases "List.find (\<lambda>n. k \<in> vnode_hash lib n ` {0..<?v}) ns")
    case None
    then show ?thesis by (simp add: ih(2) add(2))
  next
    case (Some x)
    then have "x \<in> set ns" "k \<in> vnode_hash lib x ` {0..<?v}" by (auto simp: find_Some_iff)
    then show ?thesis using clash [of x k] by (simp add: ih(2) Some)
  qed
  then show ?case using ih(1) by (simp add: fun_eq_iff)
qed (simp add: fun_eq_iff)

lemma ring_of_set:
  assumes "no_collisions lib v ns" "set ms = set ns"
  shows "foldl (add_node lib) (hash_ring_new v r) ns = foldl (add_node lib) (hash_ring_new v r) ms"
proof -
  let ?hr = "hash_ring_new v r"
  have start: "bt_wf (hr_ring ?hr)" "hr_virtual_nodes ?hr = v" by (simp_all add: hash_ring_new_def)
  have ms: "no_collisions lib v ms" using assms by (simp add: no_collisions_def list_all_iff)
  have same: "List.find (\<lambda>n. k \<in> vnode_hash lib n ` {0..<v}) ns = List.find (\<lambda>n. k \<in> vnode_hash lib n ` {0..<v}) ms" for k
  proof -
    let ?P = "\<lambda>n. k \<in> vnode_hash lib n ` {0..<v}"
    have uniq: "x = y" if "x \<in> set ns" "y \<in> set ns" "?P x" "?P y" for x y
      using that no_collisionsD [OF assms(1), of x y] by auto
    show ?thesis
    proof (cases "List.find ?P ns")
      case None
      then have "List.find ?P ms = None" using assms(2) by (simp add: find_None_iff)
      with None show ?thesis by simp
    next
      case (Some x)
      then have x: "x \<in> set ns" "?P x" by (auto simp: find_Some_iff)
      then obtain y where y: "List.find ?P ms = Some y" using assms(2) by (metis find_None_iff not_None_eq)
      then have "y \<in> set ns" "?P y" using assms(2) by (auto simp: find_Some_iff)
      then show ?thesis using uniq x y Some by auto
    qed
  qed
  have fields: "hr_virtual_nodes (foldl (add_node lib) hr xs) = hr_virtual_nodes hr"
    "hr_replicas (foldl (add_node lib) hr xs) = hr_replicas hr" for hr xs
    by (induction xs arbitrary: hr) simp_all
  have "hr_ring (foldl (add_node lib) ?hr ns) = hr_ring (foldl (add_node lib) ?hr ms)"
    using ring_of_servers [OF start(1), unfolded start(2), OF assms(1)] ring_of_servers [OF start(1), unfolded start(2), OF ms]
    by (intro bt_wf_eq) (simp_all add: same)
  then show ?thesis by (simp add: fields)
qed


section \<open>Registrations\<close>

text \<open>The servers that registered in a series of rounds.\<close>

definition round_registers :: "'x digest_lib_scheme \<Rightarrow> proxy_event \<Rightarrow> uuid option" where
  "round_registers lib ev =
     (case pe_back ev of
        Some (Inr msg, _) \<Rightarrow>
          (if (case pe_front ev of Some (Inr m, _) \<Rightarrow> length m < 3 | _ \<Rightarrow> False) then None
           else case registration lib msg of Some (Some uuid) \<Rightarrow> Some uuid | _ \<Rightarrow> None)
      | _ \<Rightarrow> None)"

lemma proxy_frontend_ring:
  "px_ring (fst (proxy_frontend lib from_slice received forwarded p)) = px_ring p"
  by (cases received; cases forwarded) (auto simp: proxy_frontend_def act_bind_apply split: option.split)

lemma proxy_frontend_go_on:
  "proxy_frontend lib from_slice received forwarded p = (p', Inr go_on) \<Longrightarrow>
     \<exists>m. received = Ok m \<and> go_on = (length m \<ge> 3)"
  by (cases received; cases forwarded) (auto simp: proxy_frontend_def act_bind_apply split: option.splits if_splits)

lemma proxy_round_ring:
  assumes "proxy_round lib from_slice ev p = (p', Inr ())"
  shows "px_ring p' = (case round_registers lib ev of Some u \<Rightarrow> add_node lib (px_ring p) u | None \<Rightarrow> px_ring p)"
proof -
  let ?front = "case pe_front ev of
      Some (received, forwarded) \<Rightarrow> proxy_frontend lib from_slice received forwarded | None \<Rightarrow> act_ret True"
  obtain p1 go_on where front: "?front p = (p1, Inr go_on)"
    and rest: "(if \<not> go_on then act_ret () else case pe_back ev of
        Some (received, forwarded) \<Rightarrow> proxy_backend lib received forwarded | None \<Rightarrow> act_ret ()) p1 = (p', Inr ())"
    using assms by (auto simp: proxy_round_def act_bind_Ok)
  have ring: "px_ring p1 = px_ring p"
    using front proxy_frontend_ring [of lib from_slice _ _ p]
    by (cases "pe_front ev") (auto dest!: arg_cong [where f = fst] split: prod.splits)
  have skip: "(case pe_front ev of Some (Inr m, _) \<Rightarrow> length m < 3 | _ \<Rightarrow> False) \<longleftrightarrow> \<not> go_on"
    using front proxy_frontend_go_on [of lib from_slice _ _ p p1 go_on]
    by (cases "pe_front ev") (force split: prod.splits)+
  show ?thesis
  proof (cases "go_on \<and> pe_back ev \<noteq> None")
    case True
    then obtain received forwarded where b: "pe_back ev = Some (received, forwarded)" by auto
    with True rest have "proxy_backend lib received forwarded p1 = (p', Inr ())" by simp
    then show ?thesis
      using True b skip ring
      by (cases received; cases forwarded)
        (auto simp: proxy_backend_def round_registers_def act_bind_apply Let_def split: option.splits)
  next
    case False
    then show ?thesis
      using rest skip ring by (auto simp: round_registers_def split: option.splits prod.splits sum.splits)
  qed
qed

lemma proxy_start_ring:
  "proxy_start lib from_slice evs p = (p', Inr ()) \<Longrightarrow>
   px_ring p' = foldl (add_node lib) (px_ring p) (List.map_filter (round_registers lib) evs)"
proof (induction evs arbitrary: p)
  case (Cons ev evs)
  obtain p1 where p1: "proxy_round lib from_slice ev p = (p1, Inr ())" "proxy_start lib from_slice evs p1 = (p', Inr ())"
    using Cons.prems by (auto simp: proxy_start_def act_bind_Ok)
  show ?case
    using Cons.IH [OF p1(2)] proxy_round_ring [OF p1(1)]
    by (cases "round_registers lib ev") (simp_all add: map_filter_simps)
qed (simp add: proxy_start_def map_filter_simps)

lemma find_owner:
  assumes "no_collisions lib v ns" "n \<in> set ns" "i < v"
  shows "List.find (\<lambda>m. vnode_hash lib n i \<in> vnode_hash lib m ` {0..<v}) ns = Some n"
proof -
  have "vnode_hash lib n i \<in> vnode_hash lib n ` {0..<v}" using assms(3) by auto
  with assms(2) obtain x where x: "List.find (\<lambda>m. vnode_hash lib n i \<in> vnode_hash lib m ` {0..<v}) ns = Some x"
    by (metis find_None_iff not_None_eq)
  then have "x \<in> set ns" "vnode_hash lib n i \<in> vnode_hash lib x ` {0..<v}" by (auto simp: find_Some_iff)
  then show ?thesis using x no_collisionsD [OF assms(1), of n x i] assms(2,3) by auto
qed

lemma ring_owners:
  assumes "no_collisions lib v ns"
  shows "bt_wf (hr_ring (foldl (add_node lib) (hash_ring_new v r) ns))"
    and "hr_virtual_nodes (foldl (add_node lib) (hash_ring_new v r) ns) = v"
    and "map_of (hr_ring (foldl (add_node lib) (hash_ring_new v r) ns)) =
      (\<lambda>k. List.find (\<lambda>n. k \<in> vnode_hash lib n ` {0..<v}) ns)"
proof -
  show "bt_wf (hr_ring (foldl (add_node lib) (hash_ring_new v r) ns))"
    "map_of (hr_ring (foldl (add_node lib) (hash_ring_new v r) ns)) =
      (\<lambda>k. List.find (\<lambda>n. k \<in> vnode_hash lib n ` {0..<v}) ns)"
    using ring_of_servers [of "hash_ring_new v r" lib ns] assms
    by (auto simp: hash_ring_new_def fun_eq_iff split: option.split)
  have "hr_virtual_nodes (foldl (add_node lib) hr ns) = hr_virtual_nodes hr" for hr
    by (induction ns arbitrary: hr) (simp_all add: add_node_def)
  then show "hr_virtual_nodes (foldl (add_node lib) (hash_ring_new v r) ns) = v"
    by (simp add: hash_ring_new_def)
qed

lemma ring_servers_of_set:
  assumes "no_collisions lib v ns" "0 < v"
  shows "get_all_servers (foldl (add_node lib) (hash_ring_new v r) ns) = set ns"
proof -
  have "n \<in> set ns" if "List.find (\<lambda>m. k \<in> vnode_hash lib m ` {0..<v}) ns = Some n" for k n
    using that by (auto simp: find_Some_iff)
  then show ?thesis
    unfolding set_eq_iff servers_get [OF ring_owners(1) [OF assms(1)]] ring_owners(3) [OF assms(1)] ran_def
    using find_owner [OF assms(1) _ assms(2)] by blast
qed

lemma ring_servers_removed:
  assumes "no_collisions lib v ns" "0 < v" "n \<in> set ns"
  shows "get_all_servers (remove_node lib (foldl (add_node lib) (hash_ring_new v r) ns) n) = set ns - {n}"
proof -
  let ?hr = "foldl (add_node lib) (hash_ring_new v r) ns"
  note ring = ring_owners [OF assms(1), of r]
  have removed: "bt_wf (hr_ring (remove_node lib ?hr n))"
      "map_of (hr_ring (remove_node lib ?hr n)) =
        (\<lambda>k. List.find (\<lambda>m. k \<in> vnode_hash lib m ` {0..<v}) ns) |` (- vnode_hash lib n ` {0..<v})"
    using ring_remove_node_get [OF ring(1), of lib n] by (simp_all add: ring)
  have "m \<in> set ns - {n}"
    if "List.find (\<lambda>m. k \<in> vnode_hash lib m ` {0..<v}) ns = Some m" "k \<notin> vnode_hash lib n ` {0..<v}" for k m
    using that by (auto simp: find_Some_iff)
  moreover have "\<exists>k. List.find (\<lambda>m. k \<in> vnode_hash lib m ` {0..<v}) ns = Some m \<and> k \<notin> vnode_hash lib n ` {0..<v}"
    if m: "m \<in> set ns - {n}" for m
  proof -
    have "m = n" if "j < v" "vnode_hash lib m 0 = vnode_hash lib n j" for j
      using m no_collisionsD [OF assms(1) _ assms(3) assms(2) that] by simp
    then have "vnode_hash lib m 0 \<notin> vnode_hash lib n ` {0..<v}" using m by force
    with m show ?thesis using find_owner [OF assms(1) _ assms(2), of m] by blast
  qed
  ultimately show ?thesis
    unfolding set_eq_iff servers_get [OF removed(1)] removed(2) ran_def
    unfolding restrict_map_def by (smt (verit) Compl_iff mem_Collect_eq option.distinct(1))
qed


section \<open>Properties\<close>

text \<open>A request that is about a list goes behind the identity of the coordinator; another one is dropped.\<close>

lemma front_round:
  assumes "routed_list (from_slice payload) = Some i" "get_coordinator lib (px_ring p) i = Some s"
  shows "proxy_round lib from_slice
      \<lparr>pe_poll = Ok (), pe_front = Some (Ok (client # delimiter # payload # frames), Ok ()), pe_back = None\<rparr> p =
     (p\<lparr>px_backend := px_backend p @ [as_bytes (uuid_to_string lib s) # client # delimiter # payload # frames]\<rparr>, Ok ())"
  using assms by (simp add: proxy_round_def proxy_frontend_def act_bind_apply)

lemma front_round_dropped:
  assumes "routed_list (from_slice payload) = None"
  shows "proxy_round lib from_slice
      \<lparr>pe_poll = Ok (), pe_front = Some (Ok (client # delimiter # payload # frames), Ok ()), pe_back = None\<rparr> p = (p, Ok ())"
  using assms by (simp add: proxy_round_def proxy_frontend_def act_bind_apply)

lemma back_round:
  "proxy_round lib from_slice
      \<lparr>pe_poll = Ok (), pe_front = None, pe_back = Some (Ok (server # client # delimiter # payload # frames), Ok ())\<rparr> p =
     (p\<lparr>px_frontend := px_frontend p @ [client # delimiter # payload # frames]\<rparr>, Ok ())"
  by (simp add: proxy_round_def proxy_backend_def registration_def act_bind_apply Let_def)

text \<open>Walking clockwise the first point met is the one at the least distance, distances being taken
  around the circle of 128-bit words.\<close>

lemma succ_key_nearest:
  fixes h :: u128
  assumes "btree.succ_key h m k" "j \<in> fst ` set m"
  shows "k - h \<le> j - h"
proof -
  have "h \<le> k \<and> (h \<le> j \<longrightarrow> k \<le> j) \<or> j < h \<and> k < h \<and> k \<le> j"
    using assms by (auto simp: btree.succ_key_def)
  moreover have "unat x < 2 ^ 128" for x :: u128 using unsigned_less [of x] by simp
  note this [of k] this [of h] this [of j]
  ultimately show ?thesis
    by (auto simp: word_le_nat_alt word_less_nat_alt unat_sub_if_size word_size)
qed

lemma coordinator_nearest:
  assumes "no_collisions lib v ns" "0 < v" "ns \<noteq> []"
  shows "\<exists>s\<in>set ns. \<exists>i<v. get_coordinator lib (foldl (add_node lib) (hash_ring_new v r) ns) l = Some s \<and>
    (\<forall>t\<in>set ns. \<forall>j<v. vnode_hash lib s i - ring_hash lib (uuid_to_string lib l) \<le>
      vnode_hash lib t j - ring_hash lib (uuid_to_string lib l))"
proof -
  let ?hr = "foldl (add_node lib) (hash_ring_new v r) ns" and ?h = "ring_hash lib (uuid_to_string lib l)"
  note owners = ring_owners [OF assms(1), of r]
  have "get_all_servers ?hr \<noteq> {}" using ring_servers_of_set [OF assms(1,2), of r] assms(3) by simp
  then obtain s where s: "get_coordinator lib ?hr l = Some s" using ring.coord_exists [of ?hr lib l] by blast
  then obtain k where k: "map_of (hr_ring ?hr) k = Some s" "btree.succ_key ?h (hr_ring ?hr) k"
    by (auto simp: coordinator_successor btree.successor_iff [OF owners(1)])
  then obtain i where i: "s \<in> set ns" "i < v" "k = vnode_hash lib s i"
    unfolding owners(3) by (auto simp: find_Some_iff)
  have "k - ?h \<le> vnode_hash lib t j - ?h" if "t \<in> set ns" "j < v" for t j
  proof (rule succ_key_nearest [OF k(2)])
    have "map_of (hr_ring ?hr) (vnode_hash lib t j) = Some t"
      using find_owner [OF assms(1) that] by (simp add: owners(3))
    from map_of_SomeD [OF this] show "vnode_hash lib t j \<in> fst ` set (hr_ring ?hr)" by force
  qed
  with s i show ?thesis by blast
qed

text \<open>C27: Whatever a proxy has relayed before, a client's request for a list goes, with its frames unchanged,
  to the registered server that owns the point nearest to the list going clockwise around the circle of hashes (once a
  server has registered, and no two servers have a point in common); a payload that is not a get, put or merge goes
  nowhere; and a server's reply goes to the client whose identity it carries, without the server's frame.\<close>

theorem requests_go_to_nearest_server:
  assumes "proxy_start lib from_slice events proxy_new = (p, Ok ())"
    and "servers = List.map_filter (round_registers lib) events" "servers \<noteq> []" "no_collisions lib VNODES servers"
    and "from_slice request \<in> {Some (GetList lst), Some (PutList lst), Some (MergeList lst)}"
    and "\<And>l. from_slice other \<notin> {Some (GetList l), Some (PutList l), Some (MergeList l)}"
    and "h = ring_hash lib (uuid_to_string lib (sl_id lst))"
  shows "(\<exists>s\<in>set servers. \<exists>i<VNODES.
      (\<forall>t\<in>set servers. \<forall>j<VNODES. vnode_hash lib s i - h \<le> vnode_hash lib t j - h) \<and>
      proxy_round lib from_slice
          \<lparr>pe_poll = Ok (), pe_front = Some (Ok (client # delimiter # request # frames), Ok ()), pe_back = None\<rparr> p =
        (p\<lparr>px_backend := px_backend p @ [as_bytes (uuid_to_string lib s) # client # delimiter # request # frames]\<rparr>, Ok ())) \<and>
    proxy_round lib from_slice
        \<lparr>pe_poll = Ok (), pe_front = Some (Ok (client # delimiter # other # frames), Ok ()), pe_back = None\<rparr> p = (p, Ok ()) \<and>
    proxy_round lib from_slice
        \<lparr>pe_poll = Ok (), pe_front = None, pe_back = Some (Ok (server # client # delimiter # reply # frames), Ok ())\<rparr> p =
      (p\<lparr>px_frontend := px_frontend p @ [client # delimiter # reply # frames]\<rparr>, Ok ())"
proof (intro conjI)
  have ring: "px_ring p = foldl (add_node lib) (hash_ring_new VNODES REPLICAS) servers"
    using proxy_start_ring [OF assms(1)] assms(2) by (simp add: proxy_new_def)
  have list: "routed_list (from_slice request) = Some (sl_id lst)" "routed_list (from_slice other) = None"
    using assms(5,6) by (auto simp: routed_list_def split: option.split msg.split)
  obtain s i where s: "s \<in> set servers" "i < VNODES" "get_coordinator lib (px_ring p) (sl_id lst) = Some s"
      "\<forall>t\<in>set servers. \<forall>j<VNODES. vnode_hash lib s i - h \<le> vnode_hash lib t j - h"
    using coordinator_nearest [OF assms(4) _ assms(3), of REPLICAS "sl_id lst"] assms(7)
    unfolding ring by (auto simp: VNODES_def)
  then show "\<exists>s\<in>set servers. \<exists>i<VNODES.
      (\<forall>t\<in>set servers. \<forall>j<VNODES. vnode_hash lib s i - h \<le> vnode_hash lib t j - h) \<and>
      proxy_round lib from_slice
          \<lparr>pe_poll = Ok (), pe_front = Some (Ok (client # delimiter # request # frames), Ok ()), pe_back = None\<rparr> p =
        (p\<lparr>px_backend := px_backend p @ [as_bytes (uuid_to_string lib s) # client # delimiter # request # frames]\<rparr>, Ok ())"
    using front_round [where from_slice = from_slice and payload = request, OF list(1) s(3)] by blast
qed (rule front_round_dropped, insert assms(6), auto simp: routed_list_def back_round split: option.split msg.split)

text \<open>C28: The proxy forgets no server: its ring holds exactly the servers that ever registered, in
  whatever order and whatever else it relayed, also those that have left the cluster since (no two
  servers having a point in common).\<close>

theorem proxy_never_forgets_servers:
  assumes "proxy_start lib from_slice events proxy_new = (p, Ok ())"
    and "no_collisions lib VNODES (List.map_filter (round_registers lib) events)"
  shows "get_all_servers (px_ring p) = set (List.map_filter (round_registers lib) events)"
  using proxy_start_ring [OF assms(1)] ring_servers_of_set [OF assms(2)]
  by (simp add: proxy_new_def VNODES_def)

text \<open>Servers 1 and 2 register, with another message of a server in between.\<close>

definition sample_events :: "proxy_event list" where
  "sample_events = map (\<lambda>frames. \<lparr>pe_poll = Ok (), pe_front = None, pe_back = Some (Ok frames, Ok ())\<rparr>)
     [[[120], as_bytes ''READY''], [[120], [1], [], [2]], [[120, 120], as_bytes ''READY'']]"

lemma sample_registrations: "List.map_filter (round_registers sample_lib) sample_events = [1, 2]"
  by (simp add: sample_events_def map_filter_simps round_registers_def registration_def ascii_str_def as_bytes_def)

lemma sample_events_run:
  "snd (proxy_start sample_lib from_slice sample_events proxy_new) = Ok ()"
  "px_backend (fst (proxy_start sample_lib from_slice sample_events proxy_new)) = []"
  by (simp_all add: proxy_start_def sample_events_def proxy_round_def proxy_backend_def act_bind_apply registration_def
      ascii_str_def as_bytes_def Let_def proxy_new_def)

lemma no_collisions_sample: "no_collisions sample_lib 3 [1, 2]"
  by (simp add: no_collisions_def vnode_hash_sample upt_rec)

theorem proxy_never_forgets_servers_witness:
  "get_all_servers (px_ring (fst (proxy_start sample_lib (\<lambda>_. None) sample_events proxy_new))) = {1, 2}"
proof -
  have run: "proxy_start sample_lib (\<lambda>_. None) sample_events proxy_new =
      (fst (proxy_start sample_lib (\<lambda>_. None) sample_events proxy_new), Ok ())"
    using sample_events_run [of "\<lambda>_. None"] by (simp add: prod_eq_iff)
  have "no_collisions sample_lib VNODES (List.map_filter (round_registers sample_lib) sample_events)"
    unfolding sample_registrations VNODES_def by (rule no_collisions_sample)
  from proxy_never_forgets_servers [OF run this] show ?thesis by (simp add: sample_registrations)
qed

theorem requests_go_to_nearest_server_witness:
  "\<exists>s. s \<in> {1, 2} \<and> proxy_round sample_lib (\<lambda>bytes. if bytes = [5] then Some (PutList \<lparr>sl_id = 7, sl_list = awormap_new\<rparr>) else None)
      \<lparr>pe_poll = Ok (), pe_front = Some (Ok [[9], [], [5]], Ok ()), pe_back = None\<rparr>
      (fst (proxy_start sample_lib (\<lambda>bytes. if bytes = [5] then Some (PutList \<lparr>sl_id = 7, sl_list = awormap_new\<rparr>) else None) sample_events proxy_new)) =
    ((fst (proxy_start sample_lib (\<lambda>bytes. if bytes = [5] then Some (PutList \<lparr>sl_id = 7, sl_list = awormap_new\<rparr>) else None) sample_events proxy_new))
      \<lparr>px_backend := [[as_bytes (uuid_to_string sample_lib s), [9], [], [5]]]\<rparr>, Ok ())"
proof -
  let ?f = "\<lambda>bytes. if bytes = [5] then Some (PutList \<lparr>sl_id = 7, sl_list = awormap_new\<rparr>) else None"
  let ?p = "fst (proxy_start sample_lib ?f sample_events proxy_new)"
  have run: "proxy_start sample_lib ?f sample_events proxy_new = (?p, Ok ())" "px_backend ?p = []"
    using sample_events_run [of ?f] by (simp_all add: prod_eq_iff)
  have servers: "[1, 2] = List.map_filter (round_registers sample_lib) sample_events" by (simp add: sample_registrations)
  have apart: "no_collisions sample_lib VNODES [1, 2]" unfolding VNODES_def by (rule no_collisions_sample)
  from requests_go_to_nearest_server [OF run(1) servers _ apart, of "[5]" "\<lparr>sl_id = 7, sl_list = awormap_new\<rparr>" "[6]" _ "[9]" "[]" "[]" "[]" "[]"]
  show ?thesis by (auto simp: run(2))
qed

end
