(* ===== verification/End_To_End.thy ===== *)
theory End_To_End
  imports Peer_Lists Cli_Session Proxy
begin

text \<open>
  The clients, the proxy and the servers together: the way of a put from a client through the proxy to
  the coordinator and back, and an edit of one client that another client is shown.

  On the wire, a \<open>REQ\<close> socket's message reaches the proxy's \<open>ROUTER\<close> behind the client's identity and an
  empty frame, and a message for a server reaches its \<open>DEALER\<close> without the server's identity.
\<close>

section \<open>Merging lists with equal items\<close>

lemma item_merge_same:
  assumes "pncounter_ok (amount i)" "pncounter_ok (amount j)" "item_view i = item_view j"
  shows "item_view (item_merge i j) = item_view j"
proof -
  have reg: "acquired i = acquired j" and pn: "pncounter_view (amount i) = pncounter_view (amount j)"
    using assms(3) by (simp_all add: item_view_def)
  have "pncounter_view (pncounter_merge (amount i) (amount j)) = pncounter_view (pncounter_merge (amount j) (amount j))"
    using assms(1,2) pn by (intro pncounter.merge_cong) simp_all
  also have "\<dots> = pncounter_view (amount j)" by (rule pncounter.merge_idem [OF assms(2)])
  finally show ?thesis by (simp add: item_view_def item_merge_def reg register_merge_self)
qed

lemma merge_view_same:
  assumes "sl_wf a" "sl_wf b" "awormap_view (sl_list a) n \<in> {None, Some v}" "awormap_view (sl_list b) n = Some v"
  shows "awormap_view (sl_list (merge_list_into a b)) n = Some v"
proof -
  obtain j where j: "hm_get (aw_items (sl_list b)) n = Some j" "item_view j = v"
    using assms(4) by (auto simp: awormap_view_def)
  have wf: "hm_wf (aw_items (sl_list b))" using assms(2) by (simp add: sl_wf_def)
  have "item_view (item_merge i j) = v" if "hm_get (aw_items (sl_list a)) n = Some i" for i
  proof -
    have "item_view i = item_view j" using that assms(3) j(2) by (simp add: awormap_view_def)
    moreover have "pncounter_ok (amount i)" "pncounter_ok (amount j)"
      using that j(1) assms(1,2) by (auto simp: sl_wf_get)
    ultimately show ?thesis using item_merge_same j(2) by simp
  qed
  then show ?thesis
    using j wf by (cases "hm_get (aw_items (sl_list a)) n")
      (simp_all add: awormap_view_def merge_list_into_def merge_into_get)
qed

lemma foldl_view_same:
  "\<lbrakk>sl_wf a; list_all sl_wf bs; awormap_view (sl_list a) n \<in> {None, Some v};
    list_all (\<lambda>b. awormap_view (sl_list b) n = Some v) bs\<rbrakk> \<Longrightarrow>
   awormap_view (sl_list (foldl merge_list_into a bs)) n \<in> {None, Some v}"
proof (induction bs arbitrary: a)
  case (Cons b bs)
  then show ?case using merge_view_same [of a b n v] by (simp add: sl_wf_merge)
qed simp

lemma merge_view_old:
  assumes "sl_wf b" "awormap_view (sl_list a) n = Some v" "awormap_view (sl_list b) n = None"
  shows "awormap_view (sl_list (merge_list_into a b)) n = Some v"
  using assms by (auto simp: awormap_view_def merge_list_into_def merge_into_get sl_wf_def)

lemma merge_view_either:
  "\<lbrakk>sl_wf a; sl_wf b; awormap_view (sl_list a) n = Some v; awormap_view (sl_list b) n \<in> {None, Some v}\<rbrakk> \<Longrightarrow>
   awormap_view (sl_list (merge_list_into a b)) n = Some v"
  using merge_view_same [of a b n v] merge_view_old [of b a n v] by auto

text \<open>Small counts are a matter of the view.\<close>

definition small_list :: "shopping_list \<Rightarrow> bool" where
  "small_list lst \<longleftrightarrow> sl_wf lst \<and> list_all small_item (hm_values (aw_items (sl_list lst)))"

lemma small_list_get:
  "small_list lst \<longleftrightarrow> hm_wf (aw_items (sl_list lst)) \<and>
     (\<forall>n i. hm_get (aw_items (sl_list lst)) n = Some i \<longrightarrow> small_item i)"
  using small_item_ok by (auto simp: small_list_def sl_wf_def list_all_iff hm_get_in [symmetric]) force+

lemma small_counter_view:
  assumes "small_counter g" "gcounter_ok h" "gcounter_view g = gcounter_view h"
  shows "small_counter h"
proof -
  have "hm_wf (gc_counter g)" "hm_wf (gc_counter h)" using assms by (simp_all add: small_counter_def gcounter_ok_def)
  then have "set (gc_counter g) = set (gc_counter h)"
    using assms(3) by (auto simp: gcounter_view_def hm_get_in)
  then show ?thesis using assms(1) \<open>hm_wf (gc_counter h)\<close> by (simp add: small_counter_def list_all_iff)
qed

lemma small_item_view:
  assumes "small_item i" "pncounter_ok (amount j)" "item_view i = item_view j"
  shows "small_item j"
  using assms small_counter_view [of "pn_p (amount i)" "pn_p (amount j)"] small_counter_view [of "pn_n (amount i)" "pn_n (amount j)"]
  by (simp add: small_item_def pncounter_ok_def item_view_def pncounter_view_def)

lemma small_list_content:
  assumes "small_list a" "sl_wf b" "sl_content b = sl_content a"
  shows "small_list b"
proof -
  have "small_item j" if j: "hm_get (aw_items (sl_list b)) n = Some j" for n j
  proof -
    have "awormap_view (sl_list a) n = awormap_view (sl_list b) n" using assms(3) by (simp add: sl_content_def)
    then have "awormap_view (sl_list a) n = Some (item_view j)" using j by (simp add: awormap_view_def)
    then obtain i where i: "hm_get (aw_items (sl_list a)) n = Some i" "item_view i = item_view j"
      by (auto simp: awormap_view_def)
    then show ?thesis
      using small_item_view [of i j] assms(1,2) j by (auto simp: small_list_get sl_wf_get)
  qed
  then show ?thesis using assms(2) by (simp add: small_list_get sl_wf_def)
qed

lemma small_list_merge: "small_list a \<Longrightarrow> small_list b \<Longrightarrow> small_list (merge_list_into a b)"
  by (auto simp: small_list_get merge_list_into_def merge_into_get join_opt_def small_item_merge split: option.splits)

lemma small_list_foldl: "small_list a \<Longrightarrow> list_all small_list bs \<Longrightarrow> small_list (foldl merge_list_into a bs)"
  by (induction bs arbitrary: a) (simp_all add: small_list_merge)

section \<open>What the user interface shows\<close>

lemma from_crdt_loop_get:
  "\<lbrakk>from_crdt_loop kvs m = Ok m'; hm_wf kvs\<rbrakk> \<Longrightarrow>
   hm_get m' n = (case hm_get kvs n of
      None \<Rightarrow> hm_get m n
    | Some i \<Rightarrow> (case pncounter_value_total (amount i) of
          Inr t \<Rightarrow> Some (t, lww_val (acquired i) \<noteq> 0) | Inl _ \<Rightarrow> None))"
proof (induction kvs m rule: from_crdt_loop.induct)
  case (2 k i kvs m)
  then obtain t where t: "pncounter_value_total (amount i) = Ok t"
      "from_crdt_loop kvs (hm_insert k (t, lww_val (acquired i) \<noteq> 0) m) = Ok m'"
    by (auto simp: bind_res_Ok_iff)
  have "hm_wf kvs" "hm_get kvs k = None" using 2(3) by (simp_all add: map_of_eq_None_iff)
  with 2(1) [OF t(2)] show ?case by (auto simp: t(1) split: option.split)
qed simp

lemma from_crdt_shows:
  assumes "from_crdt lst = Ok iface" "hm_wf (aw_items (sl_list lst))"
    and "hm_get (aw_items (sl_list lst)) n = Some i" "shows_item i q acq"
  shows "hm_get (sli_items iface) n = Some (q, acq)"
proof -
  have "from_crdt_loop (aw_items (sl_list lst)) [] = Ok (sli_items iface)"
    using assms(1) by (auto simp: from_crdt_def bind_res_Ok_iff)
  from from_crdt_loop_get [OF this assms(2), of n] assms(3,4) show ?thesis
    by (simp add: shows_item_def bool_as_u32_def)
qed

lemma view_shows:
  assumes "sl_wf a" "sl_wf b" "hm_get (aw_items (sl_list a)) n = Some i" "shows_item i q acq"
    and "awormap_view (sl_list b) n = awormap_view (sl_list a) n"
  shows "\<exists>j. hm_get (aw_items (sl_list b)) n = Some j \<and> shows_item j q acq"
proof -
  obtain j where j: "hm_get (aw_items (sl_list b)) n = Some j" "item_view i = item_view j"
    using assms(3,5) by (auto simp: awormap_view_def)
  moreover have "pncounter_ok (amount i)" "pncounter_ok (amount j)"
    using assms(1-3) j(1) by (auto simp: sl_wf_get)
  ultimately show ?thesis using same_view_shows assms(4) by blast
qed

text \<open>The answer to a read when the coordinator and the replicas hold one and the same content.\<close>

lemma answer_has_item:
  fixes stored own :: shopping_list and answers :: "shopping_list list"
  assumes small: "small_list lst" "small_list own"
    and view: "awormap_view (sl_list lst) n = Some v" "awormap_view (sl_list own) n = None"
    and same: "\<forall>l\<in>set (stored # answers). sl_wf l \<and> sl_content l = sl_content lst"
  defines "l \<equiv> merge_list_into stored (foldl merge_list_into own answers)"
  shows "small_list l" "awormap_view (sl_list l) n = Some v"
    "awormap_view (sl_list (merge_list_into own l)) n = Some v" "sl_wf stored" "list_all sl_wf (own # answers)"
proof -
  have held: "small_list x" "awormap_view (sl_list x) n = Some v" if "x \<in> set (stored # answers)" for x
    using bspec [OF same that] small_list_content [OF small(1)] view(1) by (auto simp: sl_content_def)
  have wf: "sl_wf own" "list_all sl_wf answers" "sl_wf stored" "list_all small_list answers"
      "list_all (\<lambda>x. awormap_view (sl_list x) n = Some v) answers"
    using small(2) held by (auto simp: small_list_def list_all_iff)
  then show "sl_wf stored" "list_all sl_wf (own # answers)" by simp_all
  have none: "awormap_view (sl_list own) n \<in> {None, Some v}" using view(2) by simp
  from foldl_view_same [OF wf(1,2) none wf(5)] show l: "awormap_view (sl_list l) n = Some v"
    unfolding l_def by (intro merge_view_either wf(3) sl_wf_foldl wf(1,2) held(2)) simp_all
  show small_l: "small_list l"
    unfolding l_def using small_list_merge [OF held(1) small_list_foldl [OF small(2) wf(4)], of stored] by simp
  then have "sl_wf l" by (simp add: small_list_def)
  from merge_view_same [OF wf(1) this none l]
  show "awormap_view (sl_list (merge_list_into own l)) n = Some v" .
qed


text \<open>The frames of a put on their way from the client and back.\<close>

lemma put_on_the_wire:
  assumes "c_zmq wc (cl_tick cl) = None" "c_recv wc (cl_tick cl + 1) = Reply rep"
      "c_from_slice wc rep = Some (AckList [] lst)"
    and "from_slice req = Some (PutList lst)" "get_coordinator w (px_ring px) (sl_id lst) = Some s"
  defines "route \<equiv> as_bytes (uuid_to_string w s)"
  shows "send_list wc lst cl = (cl\<lparr>cl_tick := cl_tick cl + 2, cl_sent := cl_sent cl @ [PutList lst]\<rparr>, Ok ())"
    "proxy_round w from_slice \<lparr>pe_poll = Ok (), pe_front = Some (Ok [c, [], req], Ok ()), pe_back = None\<rparr> px =
      (px\<lparr>px_backend := px_backend px @ [[route, c, [], req]]\<rparr>, Ok ())"
    "proxy_round w from_slice \<lparr>pe_poll = Ok (), pe_front = None, pe_back = Some (Ok [route, c, [], rep], Ok ())\<rparr>
        (px\<lparr>px_backend := px_backend px @ [[route, c, [], req]]\<rparr>) =
      (px\<lparr>px_backend := px_backend px @ [[route, c, [], req]], px_frontend := px_frontend px @ [[c, [], rep]]\<rparr>, Ok ())"
  using assms by (simp_all add: send_list_def client_send_def client_zmq_apply act_bind_apply act_try_apply
      proxy_round_def proxy_frontend_def routed_list_def proxy_backend_def registration_def Let_def)

text \<open>A replica on a working network and database.\<close>

lemma replica_stores:
  assumes "reliable w" "ss_inv w (p_storage p)" "sl_wf lst" "hm_get (p_membership p) u = Some addr"
  shows "\<exists>p' got. handle_incoming w [] u (ReplicateList i lst True) p = (p', Ok ()) \<and>
    p_sent p' = p_sent p @ [(Some u, addr, Ack i)] \<and>
    ss_get_shopping_list w True (p_storage p') (sl_id lst) = Ok (Some got) \<and> sl_content got = sl_content lst"
  using replica_run [OF reliable_zmq [OF assms(1)] assms(2-4), of i] assms(1) by (auto simp: reliable_def)

section \<open>Properties\<close>

text \<open>C4: A put goes all the way, for a coordinator whose preference list names two other servers, all of them
  working: the request a client sends is routed by the proxy to the coordinator of its list, which sends each of the
  two replicas one \<open>ReplicateList\<close> and nothing else; each replica, given that message, stores the list and
  sends the coordinator one \<open>Ack\<close> of it; given these two acknowledgements the coordinator stores the list and
  answers, and the proxy hands the answer to that client, whose call returns.\<close>

theorem put_travels:
  assumes client: "c_zmq wc (cl_tick cl) = None" "c_recv wc (cl_tick cl + 1) = Reply rep"
      "c_from_slice wc rep = Some (AckList [] lst)"
    and proxy: "from_slice req = Some (PutList lst)" "get_coordinator w (px_ring px) (sl_id lst) = Some (p_uuid p)"
    and server: "reliable w" "ss_inv w (p_storage p)" "sl_wf lst"
      "drop 1 (get_preference_list w (p_hashring p) (sl_id lst)) = [p_uuid pa, p_uuid pb]"
      "hm_get (p_membership p) (p_uuid pa) = Some addr_a" "hm_get (p_membership p) (p_uuid pb) = Some addr_b"
      "i = uuid_to_string w (w_new_uuid w (p_tick p))"
    and replicas: "reliable wa" "ss_inv wa (p_storage pa)" "hm_get (p_membership pa) (p_uuid p) = Some addr"
      "reliable wb" "ss_inv wb (p_storage pb)" "hm_get (p_membership pb) (p_uuid p) = Some addr'"
    and route: "route = as_bytes (uuid_to_string w (p_uuid p))"
  shows "\<exists>cl' px1 px2 p0 p1 p2 p3 got pa' got_a pb' got_b.
    send_list wc lst cl = (cl', Ok ()) \<and> cl_sent cl' = cl_sent cl @ [PutList lst] \<and>
    proxy_round w from_slice \<lparr>pe_poll = Ok (), pe_front = Some (Ok [c, [], req], Ok ()), pe_back = None\<rparr> px = (px1, Ok ()) \<and>
    px_backend px1 = px_backend px @ [[route, c, [], req]] \<and>
    listen_proxy w from_slice (Ok c, Ok [], Ok req) p = (p0, Ok (Some (Put_Wait c lst i))) \<and>
    p_sent p0 = p_sent p @ [(Some (p_uuid pa), addr_a, ReplicateList i lst True),
      (Some (p_uuid pb), addr_b, ReplicateList i lst True)] \<and>
    handle_incoming wa [] (p_uuid p) (ReplicateList i lst True) pa = (pa', Ok ()) \<and>
    p_sent pa' = p_sent pa @ [(Some (p_uuid p), addr, Ack i)] \<and>
    ss_get_shopping_list wa True (p_storage pa') (sl_id lst) = Ok (Some got_a) \<and> sl_content got_a = sl_content lst \<and>
    handle_incoming wb [] (p_uuid p) (ReplicateList i lst True) pb = (pb', Ok ()) \<and>
    p_sent pb' = p_sent pb @ [(Some (p_uuid p), addr', Ack i)] \<and>
    ss_get_shopping_list wb True (p_storage pb') (sl_id lst) = Ok (Some got_b) \<and> sl_content got_b = sl_content lst \<and>
    handle_incoming w [] (p_uuid pa) (Ack i) p0 = (p1, Ok ()) \<and>
    handle_incoming w [] (p_uuid pb) (Ack i) p1 = (p2, Ok ()) \<and>
    proxy_finish w [] (Put_Wait c lst i) p2 = (p3, Ok ()) \<and>
    p_proxied p3 = p_proxied p @ [(c, AckList [] lst)] \<and>
    ss_get_shopping_list w True (p_storage p3) (sl_id lst) = Ok (Some got) \<and> sl_content got = sl_content lst \<and>
    proxy_round w from_slice \<lparr>pe_poll = Ok (), pe_front = None, pe_back = Some (Ok [route, c, [], rep], Ok ())\<rparr> px1 = (px2, Ok ()) \<and>
    px_frontend px2 = px_frontend px @ [[c, [], rep]]"
proof -
  let ?us = "[p_uuid pa, p_uuid pb]"
  have us: "?us = drop 1 (get_preference_list w (p_hashring p) (sl_id lst))" "?us \<noteq> []"
    using server(4) by simp_all
  have members: "set ?us \<subseteq> fst ` set (p_membership p)"
    using map_of_SomeD [OF server(5)] map_of_SomeD [OF server(6)] by force
  obtain p0 p1 p2 p3 got where run: "put_start w [] c lst p = (p0, Ok (Put_Wait c lst i))"
      "handle_incoming w [] (p_uuid pa) (Ack i) p0 = (p1, Ok ())" "handle_incoming w [] (p_uuid pb) (Ack i) p1 = (p2, Ok ())"
      "proxy_finish w [] (Put_Wait c lst i) p2 = (p3, Ok ())" "p_proxied p3 = p_proxied p @ [(c, AckList [] lst)]"
      "ss_get_shopping_list w True (p_storage p3) (sl_id lst) = Ok (Some got)" "sl_content got = sl_content lst"
    using put_run [OF server(1-3) us members server(7), of c "p_uuid pa" "p_uuid pb"] by blast
  have "p0 = after_put i lst ?us p"
    using put_start_reliable [OF server(1) us members server(7), of c] run(1) by simp
  then have asked: "p_sent p0 = p_sent p @ [(Some (p_uuid pa), addr_a, ReplicateList i lst True),
      (Some (p_uuid pb), addr_b, ReplicateList i lst True)]"
    using server(5,6) by simp
  obtain pa' got_a where a: "handle_incoming wa [] (p_uuid p) (ReplicateList i lst True) pa = (pa', Ok ())"
      "p_sent pa' = p_sent pa @ [(Some (p_uuid p), addr, Ack i)]"
      "ss_get_shopping_list wa True (p_storage pa') (sl_id lst) = Ok (Some got_a)" "sl_content got_a = sl_content lst"
    using replica_stores [OF replicas(1,2) server(3) replicas(3)] by blast
  obtain pb' got_b where b: "handle_incoming wb [] (p_uuid p) (ReplicateList i lst True) pb = (pb', Ok ())"
      "p_sent pb' = p_sent pb @ [(Some (p_uuid p), addr', Ack i)]"
      "ss_get_shopping_list wb True (p_storage pb') (sl_id lst) = Ok (Some got_b)" "sl_content got_b = sl_content lst"
    using replica_stores [OF replicas(4,5) server(3) replicas(6)] by blast
  have "listen_proxy w from_slice (Ok c, Ok [], Ok req) p = (p0, Ok (Some (Put_Wait c lst i)))"
    using proxy(1) run(1) by (simp add: listen_proxy_def handle_incoming_proxy_def act_run)
  note steps = put_on_the_wire [where wc = wc and lst = lst and rep = rep and w = w and from_slice = from_slice and req = req and cl = cl
      and px = px, OF client proxy] this asked a b run(2-7)
  show ?thesis unfolding route by (intro exI conjI) (rule steps | rule refl | simp)+
qed

text \<open>C3: An edit of one client is what another client is shown. When the coordinator and the replicas that answer
  a read hold the list as the editing client stored it after it set an item (to a quantity that fits), then a client that does not have the
  item and fetches the list is shown the item with exactly that quantity and status (unless the total of some
  item overflows), and stores it.\<close>

theorem edit_reaches_other_client:
  assumes editor: "sql_u64_law wa" "uuid_law wa" "cs_ok wa s" "request_fits wa s (uuid_to_string wa i) name q"
      "handle_item_storage_request wa True True True name q acq i s = (s', Ok ())"
      "read_shopping_list wa True s' i = Ok lst"
    and server: "reliable w" "ss_inv w (p_storage p)" "rid \<in> set (p_signalled p)"
      "hm_get (p_in_flight p) rid = Some qs" "q_lists qs = own # answers"
      "\<forall>l\<in>set (stored # answers). sl_wf l \<and> sl_content l = sl_content lst"
      "proxy_finish w [] (Get_Wait cid own stored rid) p = (p', r)"
    and reader: "sql_u64_law wb" "uuid_law wb" "cs_ok wb (cl_storage cl)"
      "read_shopping_list wb True (cl_storage cl) i = Ok own" "hm_get (aw_items (sl_list own)) name = None"
      "c_sql_ok wb (cl_tick cl)" "c_sql_ok wb (cl_tick cl + 3)" "c_zmq wb (cl_tick cl + 1) = None"
      "c_recv wb (cl_tick cl + 2) = Reply reply" "c_from_slice wb reply = Some (snd (last (p_proxied p')))"
  shows "\<exists>cl' merged got itm. retrieve_list wb i cl = (cl', from_crdt merged) \<and>
    (\<forall>iface. from_crdt merged = Ok iface \<longrightarrow> hm_get (sli_items iface) name = Some (q, acq)) \<and>
    read_shopping_list wb True (cl_storage cl') i = Ok got \<and>
    hm_get (aw_items (sl_list got)) name = Some itm \<and> shows_item itm q acq"
proof -
  obtain itm where itm: "cs_ok wa s'" "hm_get (aw_items (sl_list lst)) name = Some itm" "shows_item itm q acq"
    using edit_sets_item [OF editor(1-4), of acq] editor(5,6) by auto
  have small: "small_list lst" "small_list own"
    using read_shopping_list_spec [OF editor(1,2) itm(1), of i] editor(6)
      read_shopping_list_spec [OF reader(1-3), of i] reader(4) by (auto simp: small_list_def)
  let ?v = "item_view itm" and ?l = "merge_list_into stored (foldl merge_list_into own answers)"
  have view: "awormap_view (sl_list lst) name = Some ?v" "awormap_view (sl_list own) name = None"
    using itm(2) reader(5) by (simp_all add: awormap_view_def)
  note l = answer_has_item [OF small view server(6)]
  have "p_proxied p' = p_proxied p @ [(cid, AckList [] ?l)]"
    using read_answered [OF server(1,2) l(4,5) server(3-5) refl, of cid] server(7) by auto
  then have reply: "c_from_slice wb reply = Some (AckList [] ?l)" using reader(10) by simp
  have small_items: "hm_wf (aw_items (sl_list ?l))" "list_all small_item (hm_values (aw_items (sl_list ?l)))"
    using l(1) by (simp_all add: small_list_def sl_wf_def)
  obtain cl' merged got where fetch: "retrieve_list wb i cl = (cl', from_crdt merged)" "sl_wf merged"
      "awormap_view (sl_list merged) = awormap_view (awormap_merge (sl_list own) (sl_list ?l))"
      "read_shopping_list wb True (cl_storage cl') i = Ok got"
      "awormap_view (sl_list got) = awormap_view (sl_list merged)" "cs_ok wb (cl_storage cl')"
    using fetch_answered [OF reader(1-3,6-9) reply small_items, of i] reader(4) by auto
  have merged: "awormap_view (sl_list merged) name = awormap_view (sl_list lst) name"
    using fetch(3) view(1) l(3) by (simp add: merge_list_into_def)
  have wf_lst: "sl_wf lst" and wf_got: "sl_wf got"
    using small(1) read_shopping_list_spec [OF reader(1,2) fetch(6), of i] fetch(4) by (auto simp: small_list_def)
  have "\<exists>j. hm_get (aw_items (sl_list got)) name = Some j \<and> shows_item j q acq"
    by (rule view_shows [OF wf_lst wf_got itm(2,3)]) (simp add: fetch(5) merged)
  moreover have "\<exists>j. hm_get (aw_items (sl_list merged)) name = Some j \<and> shows_item j q acq"
    by (rule view_shows [OF wf_lst fetch(2) itm(2,3) merged])
  ultimately show ?thesis
    using fetch(1,4) from_crdt_shows fetch(2) unfolding sl_wf_def by blast
qed

section \<open>Concrete journeys\<close>

text \<open>A client that reads bytes, which are answers to its put.\<close>

definition sample_wire_world :: "u8 list client_world" where
  "sample_wire_world = \<lparr>uuid_to_string = uuid_to_string sample_lib, uuid_parse = uuid_parse sample_lib,
     md5 = md5 sample_lib, u64_to_sql = Some, u64_from_sql = Some, c_sql_ok = (\<lambda>_. True), c_zmq = (\<lambda>_. None),
     c_recv = (\<lambda>_. Reply [6]), c_from_slice = (\<lambda>_. Some (AckList [] milk_list))\<rparr>"

text \<open>The two replicas of the sample coordinator.\<close>

definition sample_replica :: "uuid \<Rightarrow> shopping_list peer" where
  "sample_replica u = sample_member\<lparr>p_uuid := u, p_storage := \<lparr>ss_server_id = u, ss_rows = []\<rparr>\<rparr>"

theorem put_travels_witness:
  "\<exists>cl' px1 p0 p1 p2 p3 got pa' pb' got_a.
    send_list sample_wire_world milk_list (client_new sample_client) = (cl', Ok ()) \<and>
    cl_sent cl' = [PutList milk_list] \<and>
    proxy_round sample_world (\<lambda>_. Some (PutList milk_list))
      \<lparr>pe_poll = Ok (), pe_front = Some (Ok [[9], [], [5]], Ok ()), pe_back = None\<rparr>
      (proxy_new\<lparr>px_ring := p_hashring sample_member\<rparr>) = (px1, Ok ()) \<and>
    px_backend px1 = [[[120], [9], [], [5]]] \<and>
    listen_proxy sample_world (\<lambda>_. Some (PutList milk_list)) (Ok [9], Ok [], Ok [5]) sample_member =
      (p0, Ok (Some (Put_Wait [9] milk_list ''xxxx''))) \<and>
    p_sent p0 = [(Some 2, ''b'', ReplicateList ''xxxx'' milk_list True), (Some 3, ''c'', ReplicateList ''xxxx'' milk_list True)] \<and>
    handle_incoming sample_world [] 1 (ReplicateList ''xxxx'' milk_list True) (sample_replica 2) = (pa', Ok ()) \<and>
    p_sent pa' = [(Some 1, ''a'', Ack ''xxxx'')] \<and>
    ss_get_shopping_list sample_world True (p_storage pa') 7 = Ok (Some got_a) \<and>
    handle_incoming sample_world [] 1 (ReplicateList ''xxxx'' milk_list True) (sample_replica 3) = (pb', Ok ()) \<and>
    p_sent pb' = [(Some 1, ''a'', Ack ''xxxx'')] \<and>
    handle_incoming sample_world [] 2 (Ack ''xxxx'') p0 = (p1, Ok ()) \<and>
    handle_incoming sample_world [] 3 (Ack ''xxxx'') p1 = (p2, Ok ()) \<and>
    proxy_finish sample_world [] (Put_Wait [9] milk_list ''xxxx'') p2 = (p3, Ok ()) \<and>
    ss_get_shopping_list sample_world True (p_storage p3) 7 = Ok (Some got)"
proof -
  let ?px = "proxy_new\<lparr>px_ring := p_hashring sample_member\<rparr>"
  have coord: "get_coordinator sample_world (px_ring ?px) (sl_id milk_list) = Some (p_uuid sample_member)"
    by (simp add: get_coordinator_def) (simp add: sample_member_def)
  have one: "p_uuid sample_member = 1" by (simp add: sample_member_def)
  have route: "[120] = as_bytes (uuid_to_string sample_world (p_uuid sample_member))"
    by (simp add: sample_member_def as_bytes_def)
  have replica: "p_uuid (sample_replica u) = u" "p_sent (sample_replica u) = []"
      "ss_inv sample_world (p_storage (sample_replica u))"
      "hm_get (p_membership (sample_replica u)) 1 = Some ''a''" for u
    by (simp_all add: sample_replica_def ss_inv_def ss_ok_def sample_member_def)
  have members: "hm_get (p_membership sample_member) 2 = Some ''b''" "hm_get (p_membership sample_member) 3 = Some ''c''"
    by (simp_all add: sample_member_def)
  from put_travels [of sample_wire_world "client_new sample_client" "[6]" milk_list
      "\<lambda>_. Some (PutList milk_list)" "[5]" sample_world ?px sample_member "sample_replica 2" "sample_replica 3"
      "''b''" "''c''" "''xxxx''" sample_world "''a''" sample_world "''a''" "[120]" "[9]",
      OF _ _ _ _ coord _ _ _ _ _ _ _ _ _ _ _ _ _ route]
  show ?thesis using members by (simp add: client_new_def proxy_new_def sample_wire_world_def replica one) blast
qed

text \<open>Client 4 has no list yet and fetches list 7, in which client 3 has set the milk.\<close>

definition sample_reader :: client where
  "sample_reader = client_new (initialize_schema None)"

definition sample_coordinator :: "shopping_list \<Rightarrow> shopping_list peer" where
  "sample_coordinator lst = sample_member\<lparr>p_signalled := [''r''], p_in_flight := [(''r'',
     \<lparr>q_needed = 2, q_received = 2, q_responder = None,
      q_lists = [\<lparr>sl_id = 7, sl_list = awormap_new\<rparr>, lst, lst]\<rparr>)]\<rparr>"

definition sample_answered :: "shopping_list \<Rightarrow> shopping_list peer" where
  "sample_answered lst = fst (proxy_finish sample_world []
     (Get_Wait [9] \<lparr>sl_id = 7, sl_list = awormap_new\<rparr> lst ''r'') (sample_coordinator lst))"

definition sample_reader_world :: "shopping_list \<Rightarrow> msg client_world" where
  "sample_reader_world lst =
     sample_client_world\<lparr>c_from_slice := \<lambda>_. Some (snd (last (p_proxied (sample_answered lst))))\<rparr>"

theorem edit_reaches_other_client_witness:
  "\<exists>s' lst cl' got itm.
    handle_item_storage_request sample_sql True True True ''milk'' 2 True 7 sample_client = (s', Ok ()) \<and>
    read_shopping_list sample_sql True s' 7 = Ok lst \<and>
    fst (retrieve_list (sample_reader_world lst) 7 sample_reader) = cl' \<and>
    read_shopping_list (sample_reader_world lst) True (cl_storage cl') 7 = Ok got \<and>
    hm_get (aw_items (sl_list got)) ''milk'' = Some itm \<and> shows_item itm 2 True"
proof -
  obtain s' lst where edit: "handle_item_storage_request sample_sql True True True ''milk'' 2 True 7 sample_client = (s', Ok ())"
      "cs_ok sample_sql s'" "read_shopping_list sample_sql True s' 7 = Ok lst"
    using edit_sets_item [OF sample_sql_laws sample_client_ok sample_client_fits, of True] by blast
  have wf: "sl_wf lst" using read_shopping_list_spec [OF sample_sql_laws edit(2), of 7] edit(3) by auto
  let ?w = "sample_reader_world lst"
  have laws: "sql_u64_law ?w" "uuid_law ?w"
    using sample_client_world_laws by (simp_all add: sql_u64_law_def uuid_law_def sample_reader_world_def)
  have world: "c_sql_ok ?w t" "c_zmq ?w t = None" "c_recv ?w t = Reply (AckList [] milk_list)"
      "c_from_slice ?w rep = Some (snd (last (p_proxied (sample_answered lst))))" for t rep
    by (simp_all add: sample_reader_world_def)
  have none: "hm_get (aw_items (sl_list \<lparr>sl_id = 7, sl_list = awormap_new\<rparr>)) ''milk'' = None"
    by (simp add: awormap_new_def)
  have empty: "cs_ok ?w (cl_storage sample_reader)"
      "read_shopping_list ?w True (cl_storage sample_reader) 7 = Ok \<lparr>sl_id = 7, sl_list = awormap_new\<rparr>"
    by (simp_all add: sample_reader_def client_new_def initialize_schema_def cs_ok_def values_ok_def items_ok_def
        read_shopping_list_def)
  have run: "proxy_finish sample_world [] (Get_Wait [9] \<lparr>sl_id = 7, sl_list = awormap_new\<rparr> lst ''r'')
      (sample_coordinator lst) = (sample_answered lst, snd (proxy_finish sample_world []
        (Get_Wait [9] \<lparr>sl_id = 7, sl_list = awormap_new\<rparr> lst ''r'') (sample_coordinator lst)))"
    by (simp add: sample_answered_def)
  have peer: "ss_inv sample_world (p_storage (sample_coordinator lst))" "''r'' \<in> set (p_signalled (sample_coordinator lst))"
      "hm_get (p_in_flight (sample_coordinator lst)) ''r'' = Some \<lparr>q_needed = 2, q_received = 2, q_responder = None,
        q_lists = [\<lparr>sl_id = 7, sl_list = awormap_new\<rparr>, lst, lst]\<rparr>"
    by (simp_all add: sample_coordinator_def)
  have same: "\<forall>l\<in>set (lst # [lst, lst]). sl_wf l \<and> sl_content l = sl_content lst" using wf by simp
  have "q_lists \<lparr>q_needed = 2, q_received = 2, q_responder = None, q_lists = [\<lparr>sl_id = 7, sl_list = awormap_new\<rparr>, lst, lst]\<rparr> =
      \<lparr>sl_id = 7, sl_list = awormap_new\<rparr> # [lst, lst]" by simp
  from edit_reaches_other_client [OF sample_sql_laws sample_client_ok sample_client_fits edit(1,3) sample_world_laws(1)
      peer this same run laws empty none world(1,1,2,3,4)] edit(1,3)
  show ?thesis by (metis fst_conv)
qed

end
