(* ===== verification/Lock_Order.thy ===== *)
theory Lock_Order
  imports Prelude
begin

text \<open>
  Threads that take and release mutexes: a thread is what is left of its lock operations and the
  locks it holds. A step lets one thread take a free lock or release one of its own. When every
  thread takes its locks in the order of a rank, all threads can always run to their end.
\<close>

datatype 'l lock_op = Acquire 'l | Release 'l

type_synonym 'l thread = "'l lock_op list \<times> 'l list"

definition with_lock :: "'l \<Rightarrow> 'l lock_op list \<Rightarrow> 'l lock_op list" where
  "with_lock l ops = Acquire l # ops @ [Release l]"

definition thread_start :: "'l lock_op list \<Rightarrow> 'l thread" where
  "thread_start ops = (ops, [])"

definition lock_free :: "'l thread list \<Rightarrow> 'l \<Rightarrow> bool" where
  "lock_free ts l \<longleftrightarrow> list_all (\<lambda>(_, held). l \<notin> set held) ts"

inductive lock_step :: "'l thread list \<Rightarrow> 'l thread list \<Rightarrow> bool" where
  lock_acquire: "n < length ts \<Longrightarrow> ts ! n = (Acquire l # ops, held) \<Longrightarrow> lock_free ts l \<Longrightarrow>
    lock_step ts (ts[n := (ops, l # held)])"
| lock_release: "n < length ts \<Longrightarrow> ts ! n = (Release l # ops, held) \<Longrightarrow>
    lock_step ts (ts[n := (ops, removeAll l held)])"

inductive_cases lock_stepE: "lock_step ts ts'"

inductive lock_run :: "'l thread list \<Rightarrow> 'l thread list \<Rightarrow> bool" where
  lock_run_refl: "lock_run ts ts"
| lock_run_step: "lock_run ts us \<Longrightarrow> lock_step us vs \<Longrightarrow> lock_run ts vs"

definition all_finished :: "'l thread list \<Rightarrow> bool" where
  "all_finished ts \<longleftrightarrow> list_all (\<lambda>(ops, _). ops = []) ts"

definition lock_stuck :: "'l thread list \<Rightarrow> bool" where
  "lock_stuck ts \<longleftrightarrow> \<not> (\<exists>us. lock_step ts us)"

lemma lock_run_trans: "lock_run us vs \<Longrightarrow> lock_run ts us \<Longrightarrow> lock_run ts vs"
  by (induction rule: lock_run.induct) (auto intro: lock_run.intros)

lemma lock_run_first: "lock_step ts us \<Longrightarrow> lock_run us vs \<Longrightarrow> lock_run ts vs"
  using lock_run_trans lock_run_step [OF lock_run_refl] by blast


section \<open>Running to the end\<close>

text \<open>Every step uses up a lock operation.\<close>

definition ops_left :: "'l thread list \<Rightarrow> nat" where
  "ops_left ts = (\<Sum>(ops, _)\<leftarrow>ts. length ops)"

lemma ops_left_update:
  "n < length ts \<Longrightarrow> ops_left (ts[n := t]) + length (fst (ts ! n)) = ops_left ts + length (fst t)"
proof (induction ts arbitrary: n)
  case (Cons x xs)
  then show ?case by (cases n) (auto simp: ops_left_def case_prod_beta)
qed simp

lemma lock_step_shrinks: "lock_step ts us \<Longrightarrow> ops_left us < ops_left ts"
proof (erule lock_stepE, goal_cases)
  case (1 n l ops held)
  with ops_left_update [of n ts "(ops, l # held)"] show ?case by simp
next
  case (2 n l ops held)
  with ops_left_update [of n ts "(ops, removeAll l held)"] show ?case by simp
qed

lemma lock_step_length: "lock_step ts us \<Longrightarrow> length us = length ts"
  by (erule lock_stepE) auto

lemma lock_run_length: "lock_run ts us \<Longrightarrow> length us = length ts"
  by (induction rule: lock_run.induct) (simp_all add: lock_step_length)

text \<open>So every run can be continued until it is stuck.\<close>

lemma lock_run_to_stuck: "\<exists>us. lock_run ts us \<and> lock_stuck us"
proof (induction "ops_left ts" arbitrary: ts rule: less_induct)
  case less
  show ?case
  proof (cases "lock_stuck ts")
    case True
    then show ?thesis using lock_run_refl by blast
  next
    case False
    then obtain us where us: "lock_step ts us" by (auto simp: lock_stuck_def)
    with less [OF lock_step_shrinks [OF us]] obtain vs where "lock_run us vs" "lock_stuck vs" by blast
    with lock_run_trans [OF _ lock_run_step [OF lock_run_refl us]] show ?thesis by blast
  qed
qed


section \<open>Threads that respect a rank\<close>

fun in_order :: "('l \<Rightarrow> nat) \<Rightarrow> 'l list \<Rightarrow> 'l lock_op list \<Rightarrow> bool" where
  "in_order rank held [] \<longleftrightarrow> held = []"
| "in_order rank held (Acquire l # ops) \<longleftrightarrow>
     list_all (\<lambda>h. rank h < rank l) held \<and> in_order rank (l # held) ops"
| "in_order rank held (Release l # ops) \<longleftrightarrow> in_order rank (removeAll l held) ops"

definition order_inv :: "('l \<Rightarrow> nat) \<Rightarrow> 'l thread list \<Rightarrow> bool" where
  "order_inv rank ts \<longleftrightarrow> list_all (\<lambda>(ops, held). in_order rank held ops) ts"

lemma in_order_append:
  "in_order rank held xs \<Longrightarrow> in_order rank [] ys \<Longrightarrow> in_order rank held (xs @ ys)"
  by (induction rank held xs rule: in_order.induct) auto

lemma order_inv_update:
  "order_inv rank ts \<Longrightarrow> n < length ts \<Longrightarrow> in_order rank (snd t) (fst t) \<Longrightarrow> order_inv rank (ts[n := t])"
  using set_update_subset_insert [of ts n t] by (fastforce simp: order_inv_def list_all_iff)

lemma order_inv_nth: "order_inv rank ts \<Longrightarrow> n < length ts \<Longrightarrow> ts ! n = (ops, held) \<Longrightarrow> in_order rank held ops"
  by (force simp: order_inv_def list_all_length)

lemma lock_step_order: "lock_step ts us \<Longrightarrow> order_inv rank ts \<Longrightarrow> order_inv rank us"
proof (erule lock_stepE, goal_cases)
  case (1 n l ops held)
  with order_inv_nth [of rank ts n] show ?case by (auto intro!: order_inv_update)
next
  case (2 n l ops held)
  with order_inv_nth [of rank ts n] show ?case by (auto intro!: order_inv_update)
qed

lemma lock_run_order: "lock_run ts us \<Longrightarrow> order_inv rank ts \<Longrightarrow> order_inv rank us"
  by (induction rule: lock_run.induct) (auto intro: lock_step_order)

text \<open>A stuck thread waits for a lock whose holder waits for a lock of a higher rank.\<close>

lemma stuck_waits:
  assumes "lock_stuck ts" "(op # ops, held) \<in> set ts"
  shows "\<exists>l ops' held'. op = Acquire l \<and> (ops', held') \<in> set ts \<and> l \<in> set held'"
proof -
  obtain n where n: "n < length ts" "ts ! n = (op # ops, held)" using assms(2) by (metis in_set_conv_nth)
  show ?thesis
  proof (cases op)
    case (Acquire l)
    then have "\<not> lock_free ts l" using assms(1) n lock_acquire by (fastforce simp: lock_stuck_def)
    with Acquire show ?thesis by (auto simp: lock_free_def list_all_iff)
  next
    case (Release l)
    then show ?thesis using assms(1) n lock_release by (fastforce simp: lock_stuck_def)
  qed
qed

lemma stuck_finished:
  assumes "order_inv rank ts" "lock_stuck ts"
  shows "all_finished ts"
proof (rule ccontr)
  define waited where "waited = {l. \<exists>ops held. (Acquire l # ops, held) \<in> set ts}"
  assume "\<not> ?thesis"
  then obtain op ops held where first: "(op # ops, held) \<in> set ts"
    by (auto simp: all_finished_def list_all_iff neq_Nil_conv)
  have "waited \<subseteq> (\<lambda>(ops, _). case ops of Acquire l # _ \<Rightarrow> l | _ \<Rightarrow> undefined) ` set ts"
    by (force simp: waited_def image_iff)
  then have fin: "finite (rank ` waited)" by (simp add: finite_subset)
  have "rank ` waited \<noteq> {}" using stuck_waits [OF assms(2) first] first by (auto simp: waited_def)
  from Max_in [OF fin this] obtain l where "l \<in> waited" "Max (rank ` waited) = rank l" by auto
  then have l: "l \<in> waited" "\<And>k. k \<in> waited \<Longrightarrow> rank k \<le> rank l"
    using Max_ge [OF fin] by auto
  obtain ops1 held1 where "(Acquire l # ops1, held1) \<in> set ts" using l(1) by (auto simp: waited_def)
  from stuck_waits [OF assms(2) this] obtain ops' held' where holder: "(ops', held') \<in> set ts" "l \<in> set held'"
    by blast
  have order: "in_order rank held' ops'" using assms(1) holder(1) by (auto simp: order_inv_def list_all_iff)
  with holder(2) obtain op' rest where rest: "ops' = op' # rest" by (cases ops') auto
  with stuck_waits [OF assms(2), of op' rest held'] holder(1) obtain k where k: "op' = Acquire k" by blast
  have "k \<in> waited" using holder(1) unfolding waited_def rest k by blast
  moreover have "rank l < rank k" using order holder(2) by (simp add: rest k list_all_iff)
  ultimately show False using l(2) [of k] by simp
qed

lemma ranked_threads_finish:
  assumes "order_inv rank ts" "lock_run ts us"
  shows "(\<exists>vs. lock_run us vs \<and> all_finished vs) \<and> (lock_stuck us \<longrightarrow> all_finished us)"
proof -
  have inv: "order_inv rank us" by (rule lock_run_order [OF assms(2,1)])
  obtain vs where "lock_run us vs" "lock_stuck vs" using lock_run_to_stuck by blast
  then show ?thesis using stuck_finished inv lock_run_order [OF _ inv] by blast
qed

end
