(* ===== verification/Peer_Threads.thy ===== *)
theory Peer_Threads
  imports Peer_Faults Lock_Order
begin

text \<open>
  The threads of one peer (\<open>src/server.rs\<close>): \<open>listen\<close> spawns a task for every message it receives, the proxy
  task and the background rounds run beside them, and they share the mutexes of \<open>Peer\<close>. Here a task is
  reduced to the lock operations it goes through, in the order of the code; what its sends and searches
  find is part of the task.
\<close>

section \<open>The lock operations of the code\<close>

text \<open>\<open>send_to\<close>: the address is looked up, the failure mark is set or cleared, and when the data frame was tried
  the connection is closed, which looks the address up again.\<close>

definition send_locks :: "bool \<Rightarrow> lock_name lock_op list" where
  "send_locks data_tried = with_lock L_membership [] @ with_lock L_failure [] @
     (if data_tried then with_lock L_membership [] else [])"

definition sends_locks :: "bool list \<Rightarrow> lock_name lock_op list" where
  "sends_locks sends = concat (map send_locks sends)"

text \<open>\<open>send_gossip\<close> and \<open>send_gossip_to\<close>, which may find that there is nobody to send to.\<close>

definition gossip_locks :: "bool option \<Rightarrow> lock_name lock_op list" where
  "gossip_locks send = with_lock L_membership [] @ with_lock L_membership [] @
     (case send of None \<Rightarrow> [] | Some data_tried \<Rightarrow> send_locks data_tried)"

definition gossip_to_locks :: "bool option \<Rightarrow> lock_name lock_op list" where
  "gossip_to_locks send = with_lock L_membership [] @
     (case send of None \<Rightarrow> [] | Some data_tried \<Rightarrow> with_lock L_membership [] @ send_locks data_tried)"

text \<open>The transfer of old lists to a new predecessor: the previous hash, the lists when there is one, the sends.\<close>

definition transfer_locks :: "bool list option \<Rightarrow> lock_name lock_op list" where
  "transfer_locks old = with_lock L_hashring [] @
     (case old of None \<Rightarrow> [] | Some sends \<Rightarrow> with_lock L_storage [] @ sends_locks sends)"

text \<open>\<open>get_next_available_node\<close>: for each candidate the ring, the membership and, for a member, its mark; and the ring
  once more when the search ends because the ring has no next server.\<close>

type_synonym search_run = "bool list \<times> bool"

definition search_locks :: "search_run \<Rightarrow> lock_name lock_op list" where
  "search_locks = (\<lambda>(candidates, exhausted). concat (map (\<lambda>member. with_lock L_hashring [] @ with_lock L_membership [] @
     (if member then with_lock L_failure [] else [])) candidates) @ (if exhausted then with_lock L_hashring [] else []))"

text \<open>One replica of \<open>send_replicate\<close>: the send and, when it failed, the search for a stand-in and the
  send to it.\<close>

type_synonym replica_run = "bool \<times> (search_run \<times> bool option) option"

definition replica_locks :: "replica_run \<Rightarrow> lock_name lock_op list" where
  "replica_locks = (\<lambda>(data_tried, stand_in). send_locks data_tried @
     (case stand_in of None \<Rightarrow> []
      | Some (search, handoff) \<Rightarrow> search_locks search @
          (case handoff of None \<Rightarrow> [] | Some tried \<Rightarrow> send_locks tried)))"

text \<open>How a quorum request ends: without its quorum the client is sent a \<open>Nack\<close>; with it the list is
  written, and the client is answered unless writing failed. A put answers while the storage is locked.\<close>

datatype quorum_end = No_Quorum | Not_Written | Written

definition put_end_locks :: "quorum_end \<Rightarrow> lock_name lock_op list" where
  "put_end_locks quorum = (case quorum of
     No_Quorum \<Rightarrow> with_lock L_proxy_dealer []
   | Not_Written \<Rightarrow> with_lock L_storage []
   | Written \<Rightarrow> with_lock L_storage (with_lock L_proxy_dealer []))"

definition put_locks :: "replica_run list option \<Rightarrow> quorum_end \<Rightarrow> lock_name lock_op list" where
  "put_locks replicas quorum = with_lock L_hashring [] @
     (case replicas of None \<Rightarrow> []
      | Some runs \<Rightarrow> with_lock L_in_flight [] @ concat (map replica_locks runs) @ with_lock L_in_flight [] @
          put_end_locks quorum)"

definition read_end_locks :: "quorum_end \<Rightarrow> lock_name lock_op list" where
  "read_end_locks quorum = (case quorum of
     No_Quorum \<Rightarrow> with_lock L_proxy_dealer []
   | Not_Written \<Rightarrow> with_lock L_storage []
   | Written \<Rightarrow> with_lock L_storage [] @ with_lock L_proxy_dealer [])"

definition read_locks :: "bool list option \<Rightarrow> quorum_end \<Rightarrow> lock_name lock_op list" where
  "read_locks replicas quorum = with_lock L_hashring [] @
     (case replicas of None \<Rightarrow> []
      | Some sends \<Rightarrow> with_lock L_in_flight [] @ sends_locks sends @ with_lock L_in_flight [] @
          read_end_locks quorum)"

text \<open>The tasks of a peer.\<close>

datatype peer_task =
    Poll_Peers
  | Poll_Proxy
  | Gossip_Round "bool option"
  | Handoff_Round "(bool \<times> bool) list"
  | Detection_Round "bool list"
  | On_Leave "bool list"
  | On_Gossip "bool list option list"
  | On_Hello "bool option" "bool option"
  | On_Replicate "bool option"
  | On_Ack
  | On_Handoff bool
  | On_Merge
  | On_Other
  | On_Put "replica_run list option" quorum_end
  | On_Get_Failed
  | On_Get_Stored "bool list option" quorum_end
  | On_Get_Missing "replica_run list option" quorum_end

fun task_locks :: "peer_task \<Rightarrow> lock_name lock_op list" where
  "task_locks Poll_Peers = with_lock L_router []"
| "task_locks Poll_Proxy = with_lock L_proxy_dealer []"
| "task_locks (Gossip_Round send) = gossip_locks send"
| "task_locks (Handoff_Round entries) = with_lock L_storage [] @ concat (map (\<lambda>(data_tried, delivered).
     send_locks data_tried @ (if delivered then with_lock L_storage [] else [])) entries)"
| "task_locks (Detection_Round pings) = with_lock L_failure (sends_locks pings)"
| "task_locks (On_Leave sends) = with_lock L_hashring (with_lock L_storage (sends_locks sends))"
| "task_locks (On_Gossip transfers) = with_lock L_hashring [] @
     with_lock L_membership (with_lock L_hashring [] @ concat (map transfer_locks transfers))"
| "task_locks (On_Hello to_new random) = with_lock L_membership [] @ gossip_to_locks to_new @ gossip_locks random"
| "task_locks (On_Replicate send) = with_lock L_storage [] @
     (case send of None \<Rightarrow> [] | Some data_tried \<Rightarrow> send_locks data_tried)"
| "task_locks On_Ack = with_lock L_in_flight []"
| "task_locks (On_Handoff data_tried) = with_lock L_storage [] @ send_locks data_tried"
| "task_locks On_Merge = with_lock L_storage []"
| "task_locks On_Other = []"
| "task_locks (On_Put replicas quorum) = put_locks replicas quorum"
| "task_locks On_Get_Failed = with_lock L_storage []"
| "task_locks (On_Get_Stored replicas quorum) = with_lock L_storage [] @ read_locks replicas quorum"
| "task_locks (On_Get_Missing replicas quorum) = with_lock L_storage [] @ put_locks replicas quorum"

definition task_start :: "peer_task \<Rightarrow> lock_name thread" where
  "task_start t = thread_start (task_locks t)"

section \<open>Two orders of the locks\<close>

text \<open>The order of the gossip handler, and the one of leaving.\<close>

fun gossip_rank :: "lock_name \<Rightarrow> nat" where
  "gossip_rank L_membership = 0"
| "gossip_rank L_hashring = 1"
| "gossip_rank L_storage = 2"
| "gossip_rank L_proxy_dealer = 3"
| "gossip_rank L_failure = 4"
| "gossip_rank L_in_flight = 5"
| "gossip_rank L_router = 6"

fun leave_rank :: "lock_name \<Rightarrow> nat" where
  "leave_rank L_hashring = 0"
| "leave_rank L_storage = 1"
| "leave_rank L_membership = 2"
| "leave_rank L_failure = 3"
| "leave_rank L_proxy_dealer = 4"
| "leave_rank L_in_flight = 5"
| "leave_rank L_router = 6"

text \<open>Tasks that take a lock twice: detection with a failed peer, gossip with a list to transfer.\<close>

fun locks_once :: "peer_task \<Rightarrow> bool" where
  "locks_once (Detection_Round pings) = (pings = [])"
| "locks_once (On_Gossip transfers) = list_all (\<lambda>t. t = None \<or> t = Some []) transfers"
| "locks_once t = True"

fun is_gossip :: "peer_task \<Rightarrow> bool" where
  "is_gossip (On_Gossip transfers) = True"
| "is_gossip t = False"

fun sends_leaving :: "peer_task \<Rightarrow> bool" where
  "sends_leaving (On_Leave sends) = (sends \<noteq> [])"
| "sends_leaving t = False"

lemma in_order_concat: "(\<And>x. x \<in> set xs \<Longrightarrow> in_order rank [] (f x)) \<Longrightarrow> in_order rank [] (concat (map f xs))"
  by (induction xs) (auto intro: in_order_append)

lemma in_order_nested:
  "in_order rank [] ops \<Longrightarrow> (\<And>l. Acquire l \<in> set ops \<Longrightarrow> rank h < rank l) \<Longrightarrow> (\<And>l. Release l \<in> set ops \<Longrightarrow> h \<noteq> l)
    \<Longrightarrow> in_order rank [] (with_lock h ops)"
proof -
  have "in_order rank held ops \<Longrightarrow> (\<forall>l. Acquire l \<in> set ops \<longrightarrow> rank h < rank l) \<Longrightarrow>
      (\<forall>l. Release l \<in> set ops \<longrightarrow> h \<noteq> l) \<Longrightarrow> h \<notin> set held \<Longrightarrow> in_order rank (held @ [h]) (ops @ [Release h])" for held
    by (induction rank held ops rule: in_order.induct) auto
  from this [of "[]"] show "in_order rank [] ops \<Longrightarrow> (\<And>l. Acquire l \<in> set ops \<Longrightarrow> rank h < rank l) \<Longrightarrow>
      (\<And>l. Release l \<in> set ops \<Longrightarrow> h \<noteq> l) \<Longrightarrow> in_order rank [] (with_lock h ops)"
    by (simp add: with_lock_def)
qed

lemma in_order_send [simp]: "in_order rank [] (send_locks b)"
  by (simp add: send_locks_def with_lock_def)

lemma in_order_parts [simp]:
  "in_order rank [] (sends_locks sends)" "in_order rank [] (gossip_locks s)" "in_order rank [] (gossip_to_locks s)"
  "in_order rank [] (search_locks cs)" "in_order rank [] (replica_locks r)"
proof -
  show "in_order rank [] (sends_locks sends)" for sends by (auto simp: sends_locks_def intro: in_order_concat)
  show search: "in_order rank [] (search_locks cs)" for cs
    by (auto simp: search_locks_def with_lock_def split: prod.split intro!: in_order_append in_order_concat)
  show "in_order rank [] (gossip_locks s)" "in_order rank [] (gossip_to_locks s)"
    by (auto simp: gossip_locks_def gossip_to_locks_def with_lock_def split: option.split)
  show "in_order rank [] (replica_locks r)"
    by (auto simp: replica_locks_def search intro!: in_order_append split: prod.split option.split)
qed

lemma in_order_single [simp]: "in_order rank [] (with_lock l [])"
  by (simp add: with_lock_def)

lemma in_order_ends [simp]:
  assumes "rank L_storage < rank L_proxy_dealer"
  shows "in_order rank [] (put_end_locks q)" "in_order rank [] (put_locks rs q)" "in_order rank [] (read_locks ss q)"
proof -
  show ends: "in_order rank [] (put_end_locks q)"
    using assms by (simp add: put_end_locks_def with_lock_def split: quorum_end.split)
  show "in_order rank [] (put_locks rs q)"
    by (auto simp: put_locks_def ends split: option.split intro!: in_order_append in_order_concat)
  show "in_order rank [] (read_locks ss q)"
    by (auto simp: read_locks_def read_end_locks_def split: option.split quorum_end.split intro!: in_order_append)
qed

lemma send_locks_only [simp]:
  "Acquire l \<in> set (sends_locks sends) \<longleftrightarrow> sends \<noteq> [] \<and> l \<in> {L_membership, L_failure}"
  "Release l \<in> set (sends_locks sends) \<longleftrightarrow> sends \<noteq> [] \<and> l \<in> {L_membership, L_failure}"
  by (induction sends) (auto simp: sends_locks_def send_locks_def with_lock_def)

lemma task_in_order:
  assumes "locks_once t"
  shows "\<not> sends_leaving t \<Longrightarrow> in_order gossip_rank [] (task_locks t)"
    and "\<not> is_gossip t \<Longrightarrow> in_order leave_rank [] (task_locks t)"
proof -
  have gossip: "concat (map transfer_locks trs) = concat (map (\<lambda>t. with_lock L_hashring [] @
      (case t of None \<Rightarrow> [] | Some _ \<Rightarrow> with_lock L_storage [])) trs)"
    if "list_all (\<lambda>t. t = None \<or> t = Some []) trs" for trs
    using that by (induction trs) (auto simp: transfer_locks_def sends_locks_def)
  have parts: "set (concat (map (\<lambda>t. with_lock L_hashring [] @
      (case t of None \<Rightarrow> [] | Some _ \<Rightarrow> with_lock L_storage [])) trs)) \<subseteq>
      {Acquire L_hashring, Release L_hashring, Acquire L_storage, Release L_storage}" for trs :: "bool list option list"
    by (induction trs) (auto simp: with_lock_def split: option.splits)
  show "in_order gossip_rank [] (task_locks t)" if "\<not> sends_leaving t"
  proof (cases t)
    case (On_Gossip trs)
    then show ?thesis
      using assms parts [of trs]
      by (auto simp: gossip intro!: in_order_append in_order_nested in_order_concat split: option.split)
        (auto simp: with_lock_def)
  next
    case (On_Leave sends)
    with that show ?thesis by (simp add: sends_locks_def with_lock_def)
  qed (use assms in \<open>auto intro!: in_order_append in_order_concat split: option.split simp: sends_locks_def\<close>)
  show "in_order leave_rank [] (task_locks t)" if "\<not> is_gossip t"
  proof (cases t)
    case (On_Leave sends)
    then show ?thesis by (auto intro!: in_order_nested) (auto simp: with_lock_def)
  qed (use assms that in \<open>auto intro!: in_order_append in_order_concat split: option.split simp: sends_locks_def\<close>)
qed

section \<open>Tasks that finish\<close>

lemma tasks_in_order:
  assumes "list_all locks_once tasks" "\<not> (list_ex sends_leaving tasks \<and> list_ex is_gossip tasks)"
  shows "\<exists>rank. order_inv rank (map task_start tasks)"
proof (cases "list_ex sends_leaving tasks")
  case True
  with assms have "order_inv leave_rank (map task_start tasks)"
    by (auto simp: order_inv_def list_all_iff list_ex_iff task_start_def thread_start_def task_in_order(2))
  then show ?thesis by blast
next
  case False
  with assms(1) have "order_inv gossip_rank (map task_start tasks)"
    by (auto simp: order_inv_def list_all_iff list_ex_iff task_start_def thread_start_def task_in_order(1))
  then show ?thesis by blast
qed

text \<open>C8: Tasks of a peer that run at the same time, in any interleaving, never block each other for good, as long as
  no task takes a lock it holds (gossip that transfers a list, detection with a failed peer) and a leaving that
  sends lists does not meet gossip: from every state they reach all can still finish, and they only stop when
  all have.\<close>

theorem tasks_finish:
  assumes "list_all locks_once tasks" "\<not> (list_ex sends_leaving tasks \<and> list_ex is_gossip tasks)"
    and "lock_run (map task_start tasks) ts"
  shows "(\<exists>us. lock_run ts us \<and> all_finished us) \<and> (lock_stuck ts \<longrightarrow> all_finished ts)"
proof -
  obtain rank where "order_inv rank (map task_start tasks)" using tasks_in_order [OF assms(1,2)] by blast
  from ranked_threads_finish [OF this assms(3)] show ?thesis .
qed

theorem tasks_finish_witness:
  "\<exists>us. lock_run (map task_start [On_Gossip [Some []], On_Put (Some [(True, None)]) Written,
     Handoff_Round [(True, True)], On_Leave []]) us \<and> all_finished us"
  using tasks_finish [OF _ _ lock_run_refl, of "[On_Gossip [Some []], On_Put (Some [(True, None)]) Written,
     Handoff_Round [(True, True)], On_Leave []]"] by simp


section \<open>Tasks that block each other\<close>

text \<open>Two threads that each wait for a lock the other holds stay where they are.\<close>

definition crossed :: "'l thread \<Rightarrow> 'l thread \<Rightarrow> bool" where
  "crossed s t \<longleftrightarrow> (\<exists>k l ops ops' held held'. s = (Acquire k # ops, held) \<and> t = (Acquire l # ops', held') \<and>
     k \<in> set held' \<and> l \<in> set held)"

lemma lock_free_nth: "lock_free ts l \<Longrightarrow> n < length ts \<Longrightarrow> ts ! n = (ops, held) \<Longrightarrow> l \<notin> set held"
  by (force simp: lock_free_def list_all_length)

lemma crossed_step:
  assumes "lock_step ts us" "i < length ts" "j < length ts" "crossed (ts ! i) (ts ! j)"
  shows "us ! i = ts ! i \<and> us ! j = ts ! j"
  using assms(1)
proof (cases rule: lock_step.cases)
  case (lock_acquire n l ops held)
  have "n \<noteq> i" "n \<noteq> j"
    using assms(2-4) lock_free_nth [OF lock_acquire(4)] lock_acquire(3)
    by (fastforce simp: crossed_def)+
  then show ?thesis by (simp add: lock_acquire(1))
next
  case (lock_release n l ops held)
  have "n \<noteq> i" "n \<noteq> j" using assms(4) lock_release(3) by (auto simp: crossed_def)
  then show ?thesis by (simp add: lock_release(1))
qed

lemma crossed_run:
  assumes "lock_run ts us" "i < length ts" "j < length ts" "crossed (ts ! i) (ts ! j)"
  shows "us ! i = ts ! i \<and> us ! j = ts ! j"
  using assms
proof (induction rule: lock_run.induct)
  case (lock_run_step ts us vs)
  then have "us ! i = ts ! i" "us ! j = ts ! j" "length us = length ts" by (auto dest: lock_run_length)
  with crossed_step [of us vs i j] lock_run_step show ?case by simp
qed simp

lemma lock_free_start: "lock_free (map task_start tasks) l"
  by (auto simp: lock_free_def list_all_iff task_start_def thread_start_def)

lemma lock_free_Cons: "lock_free ((ops, held) # ts) l \<longleftrightarrow> l \<notin> set held \<and> lock_free ts l"
  by (simp add: lock_free_def)

text \<open>Steps of the first and of the second of the threads.\<close>

lemma first_step:
  "lock_free (t # ts) l \<Longrightarrow> t = (Acquire l # ops, held) \<Longrightarrow> lock_step (t # ts) ((ops, l # held) # ts)"
  "t = (Release l # ops, held) \<Longrightarrow> lock_step (t # ts) ((ops, removeAll l held) # ts)"
  using lock_acquire [of 0 "t # ts" l ops held] lock_release [of 0 "t # ts" l ops held] by simp_all

lemma second_step:
  "lock_free (s # t # ts) l \<Longrightarrow> t = (Acquire l # ops, held) \<Longrightarrow> lock_step (s # t # ts) (s # (ops, l # held) # ts)"
  using lock_acquire [of "Suc 0" "s # t # ts" l ops held] by simp

lemma gossip_meets_leave:
  "\<exists>ops ops'. lock_run (map task_start (On_Gossip transfers # On_Leave (s # sends) # others))
     ((Acquire L_hashring # ops, [L_membership]) # (Acquire L_membership # ops', [L_storage, L_hashring]) #
      map task_start others)"
proof -
  let ?o = "map task_start others"
  obtain ops where ops: "task_locks (On_Gossip transfers) = Acquire L_hashring # Release L_hashring #
      Acquire L_membership # Acquire L_hashring # ops"
    by (simp add: with_lock_def)
  obtain ops' where ops': "task_locks (On_Leave (s # sends)) = Acquire L_hashring # Acquire L_storage #
      Acquire L_membership # ops'"
    by (simp add: with_lock_def sends_locks_def send_locks_def)
  let ?g = "Acquire L_membership # Acquire L_hashring # ops"
  let ?l = "Acquire L_hashring # Acquire L_storage # Acquire L_membership # ops'"
  have g: "lock_step ((Acquire L_hashring # Release L_hashring # ?g, []) # (?l, []) # ?o)
        ((Release L_hashring # ?g, [L_hashring]) # (?l, []) # ?o)"
      "lock_step ((Release L_hashring # ?g, [L_hashring]) # (?l, []) # ?o) ((?g, []) # (?l, []) # ?o)"
      "lock_step ((?g, []) # (?l, []) # ?o) ((Acquire L_hashring # ops, [L_membership]) # (?l, []) # ?o)"
    using first_step(2) [of "(Release L_hashring # ?g, [L_hashring])" L_hashring ?g "[L_hashring]"]
    by (auto intro!: first_step(1) simp: lock_free_Cons lock_free_start)
  have l: "lock_step (x # (?l, []) # ?o) (x # (tl ?l, [L_hashring]) # ?o)"
      "lock_step (x # (tl ?l, [L_hashring]) # ?o) (x # (tl (tl ?l), [L_storage, L_hashring]) # ?o)"
    if "x = (Acquire L_hashring # ops, [L_membership])" for x
    using that by (auto intro!: second_step simp: lock_free_Cons lock_free_start)
  have "lock_run ((Acquire L_hashring # Release L_hashring # ?g, []) # (?l, []) # ?o)
     ((Acquire L_hashring # ops, [L_membership]) # (Acquire L_membership # ops', [L_storage, L_hashring]) # ?o)"
    by (rule lock_run_first [OF g(1)], rule lock_run_first [OF g(2)], rule lock_run_first [OF g(3)],
        rule lock_run_first [OF l(1) [OF refl]], rule lock_run_first [OF l(2) [OF refl]])
      (simp add: lock_run_refl)
  then show ?thesis by (auto simp: task_start_def thread_start_def ops ops' simp del: task_locks.simps)
qed

text \<open>C35: The two tasks that lock in opposite orders do meet: when gossip is handled while a server leaves and
  has a list to send, there is an interleaving after which neither ever makes a step again, whatever the other
  tasks do, and the membership, the ring and the storage stay locked for good.\<close>

theorem gossip_and_leave_deadlock:
  "\<exists>ts. lock_run (map task_start (On_Gossip transfers # On_Leave (s # sends) # others)) ts \<and>
     (\<forall>us. lock_run ts us \<longrightarrow> us ! 0 = ts ! 0 \<and> us ! 1 = ts ! 1 \<and> \<not> all_finished us \<and>
        \<not> lock_free us L_membership \<and> \<not> lock_free us L_hashring \<and> \<not> lock_free us L_storage)"
proof -
  obtain ops ops' where run: "lock_run (map task_start (On_Gossip transfers # On_Leave (s # sends) # others))
     ((Acquire L_hashring # ops, [L_membership]) # (Acquire L_membership # ops', [L_storage, L_hashring]) #
      map task_start others)" (is "lock_run _ ?ts")
    using gossip_meets_leave by blast
  have "us ! 0 = ?ts ! 0 \<and> us ! 1 = ?ts ! 1" if "lock_run ?ts us" for us
    by (rule crossed_run [OF that]) (simp_all add: crossed_def)
  moreover have "\<exists>rest. us = us ! 0 # us ! 1 # rest" if "lock_run ?ts us" for us
    using lock_run_length [OF that] by (cases us; cases "tl us") auto
  ultimately have "\<exists>rest. us = (Acquire L_hashring # ops, [L_membership]) #
      (Acquire L_membership # ops', [L_storage, L_hashring]) # rest" if "lock_run ?ts us" for us
    using that by (metis nth_Cons_0 One_nat_def nth_Cons_Suc)
  then show ?thesis
    by (intro exI [of _ ?ts] conjI run allI impI) (fastforce simp: lock_free_Cons all_finished_def)+
qed

theorem gossip_and_leave_deadlock_witness:
  "\<exists>ts. lock_run (map task_start [On_Gossip [], On_Leave [True], On_Get_Failed]) ts \<and>
     (\<forall>us. lock_run ts us \<longrightarrow> \<not> all_finished us \<and> \<not> lock_free us L_storage)"
  using gossip_and_leave_deadlock [of "[]" True "[]" "[On_Get_Failed]"] by blast


section \<open>A task that locks twice\<close>

text \<open>A thread that holds a lock and will ask for it again before releasing it.\<close>

definition locks_again :: "'l \<Rightarrow> 'l thread \<Rightarrow> bool" where
  "locks_again l t \<longleftrightarrow> l \<in> set (snd t) \<and>
     (\<exists>pre rest. fst t = pre @ Acquire l # rest \<and> Release l \<notin> set pre)"

lemma locks_again_step:
  assumes "lock_step ts us" "i < length ts" "locks_again l (ts ! i)"
  shows "locks_again l (us ! i)"
  using assms(1)
proof (cases rule: lock_step.cases)
  case (lock_acquire n k ops held)
  have "locks_again l (ops, k # held)" if "n = i"
    using that assms lock_free_nth [OF lock_acquire(4,2,3)] lock_acquire(3)
    by (fastforce simp: locks_again_def Cons_eq_append_conv)
  with assms show ?thesis by (cases "n = i") (simp_all add: lock_acquire(1))
next
  case (lock_release n k ops held)
  have "locks_again l (ops, removeAll k held)" if "n = i"
    using that assms lock_release(3) by (fastforce simp: locks_again_def Cons_eq_append_conv)
  with assms show ?thesis by (cases "n = i") (simp_all add: lock_release(1))
qed

lemma asks_step:
  assumes "lock_step ts us" "i < length ts" "locks_again l (ts ! i)" "j < length ts"
    "Acquire l \<in> set (fst (ts ! j))"
  shows "Acquire l \<in> set (fst (us ! j))"
proof -
  have "\<not> lock_free ts l" using assms(2,3) by (auto simp: lock_free_def list_all_length locks_again_def)
  with assms(1,4,5) show ?thesis by (cases rule: lock_step.cases) (auto simp: nth_list_update)
qed

lemma asks_forever:
  assumes "lock_run ts us" "i < length ts" "locks_again l (ts ! i)"
  shows "locks_again l (us ! i) \<and> (\<forall>j < length ts. Acquire l \<in> set (fst (ts ! j)) \<longrightarrow> Acquire l \<in> set (fst (us ! j)))"
  using assms
proof (induction rule: lock_run.induct)
  case (lock_run_step ts us vs)
  then have "i < length us" "length us = length ts" by (auto dest: lock_run_length)
  with lock_run_step locks_again_step [of us vs i l] asks_step [of us vs i l] show ?case by auto
qed simp

text \<open>C34: Failure detection freezes the peer: as soon as a round with a failed peer has taken its first lock, the
  failure table stays locked for good, and every other task that has still to mark, clear or look up
  a failure (each one that sends a message) never finishes.\<close>

theorem failure_detection_freezes_peer:
  "\<exists>ts. lock_step (map task_start (Detection_Round (ping # pings) # others)) ts \<and>
     (\<forall>us. lock_run ts us \<longrightarrow> \<not> lock_free us L_failure \<and> fst (us ! 0) \<noteq> [] \<and>
        (\<forall>j < length others. Acquire L_failure \<in> set (task_locks (others ! j)) \<longrightarrow> fst (us ! Suc j) \<noteq> []))"
proof -
  obtain rest where rest: "task_locks (Detection_Round (ping # pings)) =
      Acquire L_failure # Acquire L_membership # Release L_membership # Acquire L_failure # rest"
    by (simp add: with_lock_def sends_locks_def send_locks_def)
  let ?t = "(Acquire L_membership # Release L_membership # Acquire L_failure # rest, [L_failure])"
  let ?ts = "?t # map task_start others"
  have again: "locks_again L_failure ?t"
    unfolding locks_again_def by (auto intro: exI [of _ "[Acquire L_membership, Release L_membership]"])
  show ?thesis
  proof (intro exI conjI allI impI)
    have "task_start (Detection_Round (ping # pings)) = (Acquire L_failure # fst ?t, [])"
      by (simp add: task_start_def thread_start_def rest del: task_locks.simps)
    then show "lock_step (map task_start (Detection_Round (ping # pings) # others)) ?ts"
      by (simp add: first_step(1) lock_free_Cons lock_free_start)
    fix us assume run: "lock_run ?ts us"
    note ask = asks_forever [OF run, of 0 L_failure, simplified, OF again]
    have len: "length us = Suc (length others)" using lock_run_length [OF run] by simp
    show "\<not> lock_free us L_failure"
      using ask len by (auto simp: lock_free_def list_all_length locks_again_def intro!: exI [of _ 0])
    show "fst (us ! 0) \<noteq> []" using ask by (auto simp: locks_again_def)
    fix j assume "j < length others" "Acquire L_failure \<in> set (task_locks (others ! j))"
    with ask have "Acquire L_failure \<in> set (fst (us ! Suc j))"
      by (auto simp: task_start_def thread_start_def)
    then show "fst (us ! Suc j) \<noteq> []" by auto
  qed
qed

theorem failure_detection_freezes_peer_witness:
  "\<exists>ts. lock_step (map task_start [Detection_Round [True], On_Put (Some [(True, None)]) Written]) ts \<and>
     (\<forall>us. lock_run ts us \<longrightarrow> \<not> all_finished us \<and> fst (us ! 1) \<noteq> [])"
proof -
  obtain ts where ts: "lock_step (map task_start [Detection_Round [True], On_Put (Some [(True, None)]) Written]) ts"
      "\<And>us. lock_run ts us \<Longrightarrow> fst (us ! 0) \<noteq> [] \<and> fst (us ! 1) \<noteq> []"
    using failure_detection_freezes_peer [of True "[]" "[On_Put (Some [(True, None)]) Written]"]
    by (auto simp: put_locks_def replica_locks_def send_locks_def with_lock_def)
  have "\<not> all_finished us" if "lock_run ts us" for us
    using ts(2) [OF that] lock_run_length [OF that] lock_step_length [OF ts(1)]
    by (cases us) (auto simp: all_finished_def)
  with ts show ?thesis by blast
qed

end
