(* ===== verification/Ack_Overlap.thy ===== *)
theory Ack_Overlap
  imports Quorum
begin

text \<open>
  Acknowledgements that arrive while other calls of the peer are running (\<open>src/server.rs\<close>): every message
  is handled by a task of its own, so the first replica may answer before the last one was asked. The effect of an
  acknowledgement is seen only by quorum requests, and no other call writes what it writes; so it
  does not matter where between the steps of such a call it is handled.
\<close>

section \<open>Effects on quorum requests only\<close>

locale quorum_effect =
  fixes u :: "'b peer \<Rightarrow> 'b peer"
  assumes reads: "p_uuid (u p) = p_uuid p" "p_addr (u p) = p_addr p" "p_storage (u p) = p_storage p"
      "p_membership (u p) = p_membership p" "p_hashring (u p) = p_hashring p" "p_failure (u p) = p_failure p"
      "p_sent (u p) = p_sent p" "p_proxied (u p) = p_proxied p" "p_tick (u p) = p_tick p"
    and writes: "u (p\<lparr>p_storage := st\<rparr>) = (u p)\<lparr>p_storage := st\<rparr>"
      "u (p\<lparr>p_membership := table\<rparr>) = (u p)\<lparr>p_membership := table\<rparr>"
      "u (p\<lparr>p_hashring := ring\<rparr>) = (u p)\<lparr>p_hashring := ring\<rparr>"
      "u (p\<lparr>p_failure := marks\<rparr>) = (u p)\<lparr>p_failure := marks\<rparr>"
      "u (p\<lparr>p_sent := sent\<rparr>) = (u p)\<lparr>p_sent := sent\<rparr>"
      "u (p\<lparr>p_proxied := proxied\<rparr>) = (u p)\<lparr>p_proxied := proxied\<rparr>"
      "u (p\<lparr>p_tick := t\<rparr>) = (u p)\<lparr>p_tick := t\<rparr>"
begin

lemma unnoticed_tick [unaffected_intros]: "unaffected u (world_tick f)"
  by (simp add: unaffected_def world_tick_def reads writes)

lemma unnoticed_zmq [unaffected_intros]: "unaffected u (zmq_call w)"
  unfolding zmq_call_def by (intro unaffected_intros)

lemma unnoticed_marks [unaffected_intros]:
  "unaffected u (mark_peer_failed w held v)" "unaffected u (clear_peer_failure held v)"
  unfolding mark_peer_failed_def clear_peer_failure_def
  by (intro unaffected_intros; simp add: reads writes)+

lemma unnoticed_send_to [unaffected_intros]: "unaffected u (send_to w held v m)"
  unfolding send_to_def connect_to_peer_def close_conn_def log_sent_def
  by (intro unaffected_intros; simp add: reads writes)

lemma unnoticed_gossip [unaffected_intros]:
  "unaffected u (send_gossip w held)" "unaffected u (send_gossip_to w held v)"
  unfolding send_gossip_def send_gossip_to_def by (intro unaffected_intros; simp add: reads)+

lemma unnoticed_storage [unaffected_intros]:
  "unaffected u (storage_write w held lst)" "unaffected u (storage_write_handoff w held lst v)"
  "unaffected u (storage_get w held i)" "unaffected u (storage_delete w held i)"
  "unaffected u (storage_handoffs w held)" "unaffected u (storage_old_data w held v h)"
  "unaffected u (storage_all_rows w held)"
  unfolding storage_write_def storage_write_handoff_def storage_get_def storage_delete_def storage_handoffs_def
    storage_old_data_def storage_all_rows_def
  by (intro unaffected_intros; simp add: reads writes)+

lemma unnoticed_leave_send [unaffected_intros]: "unaffected u (leave_send w held v m n)"
proof (induction w held v m n rule: leave_send.induct)
  case (1 w held v m attempt)
  then show ?case by (subst leave_send.simps) (intro unaffected_intros, auto)
qed

lemma unnoticed_leave [unaffected_intros]: "unaffected u (leave w held)"
  unfolding leave_def by (intro unaffected_intros; simp add: reads writes)

lemma unnoticed_rounds [unaffected_intros]:
  "unaffected u (hinted_handoff_round w held)" "unaffected u (failure_detection w held)"
  unfolding hinted_handoff_round_def failure_detection_def send_ping_to_def
  by (intro unaffected_intros; simp add: reads)+

lemma unnoticed_search [unaffected_intros]: "unaffected u (get_next_available_node held v)"
proof -
  have "peer_reachable (u p) = peer_reachable p" for p by (simp add: fun_eq_iff peer_reachable_def reads)
  then show ?thesis by (simp add: get_next_available_node_def act_lock_def unaffected_def reads)
qed

lemma unnoticed_replicate_loop [unaffected_intros]: "unaffected u (replicate_loop w held i lst m v replicas)"
proof (induction replicas)
  case Nil
  show ?case by (simp add: unaffected_def)
next
  case (Cons replica replicas)
  then show ?case by (simp only: replicate_loop.simps) (intro unaffected_intros)
qed

lemma unnoticed_handlers [unaffected_intros]:
  "unaffected u (handle_replicate w held v i lst b)" "unaffected u (handle_merge w held lst)"
  "unaffected u (handle_hello w held v a)" "unaffected u (handle_handoff w held v i lst v')"
  "unaffected u (handle_gossip w held table)"
  unfolding handle_replicate_def handle_merge_def handle_hello_def handle_handoff_def handle_gossip_def
    send_old_data_def add_nodes_def
  by (intro unaffected_intros; simp add: reads writes)+

end


section \<open>Acknowledgements\<close>

fun is_ack :: "msg \<Rightarrow> bool" where
  "is_ack (Ack i) = True"
| "is_ack (AckList i l) = True"
| "is_ack m = False"

text \<open>What handling a message leaves of the peer.\<close>

definition ack_effect :: "('b, 'x) world_scheme \<Rightarrow> uuid \<times> msg \<Rightarrow> 'b peer \<Rightarrow> 'b peer" where
  "ack_effect w = (\<lambda>(v, m) p. fst (handle_incoming w [] v m p))"

definition acks_effect :: "('b, 'x) world_scheme \<Rightarrow> (uuid \<times> msg) list \<Rightarrow> 'b peer \<Rightarrow> 'b peer" where
  "acks_effect w acks = fold (ack_effect w) acks"

lemma handle_ack_effect:
  "fst (handle_ack held i f p) = (case hm_get (p_in_flight p) i of
      None \<Rightarrow> p
    | Some q \<Rightarrow> fst (signal_quorom i (f q) p))" if "L_in_flight \<notin> set held"
  using that by (simp add: handle_ack_def act_bind_apply split: option.split)

interpretation ack: quorum_effect "\<lambda>p. fst (handle_ack [] i f p)" for i f
  by unfold_locales (auto simp: handle_ack_effect signal_quorom_def split: option.split)

lemma ack_unnoticed:
  assumes "is_ack m" "\<And>i f. unaffected (\<lambda>p. fst (handle_ack [] i f p)) call"
  shows "unaffected (ack_effect w (v, m)) call"
  using assms by (cases m) (simp_all add: ack_effect_def handle_incoming_def)

lemma acks_unnoticed:
  assumes "list_all (\<lambda>(v, m). is_ack m) acks" "\<And>i f. unaffected (\<lambda>p. fst (handle_ack [] i f p)) call"
  shows "unaffected (acks_effect w acks) call"
  using assms(1)
proof (induction acks)
  case (Cons a acks)
  then have "unaffected (ack_effect w a) call" using ack_unnoticed [OF _ assms(2)] by (cases a) auto
  with Cons show ?case by (auto simp: unaffected_def acks_effect_def)
qed (simp add: unaffected_def acks_effect_def)

lemma handlers_unnoticed:
  assumes "\<not> is_ack m"
  shows "unaffected (\<lambda>p. fst (handle_ack [] i f p)) (handle_incoming w [] v m)"
  unfolding handle_incoming_def using assms
  by (cases m) (auto intro!: unaffected_intros ack.unnoticed_handlers ack.unnoticed_leave simp del: act_apply)

section \<open>Answers while the replicas are still being asked\<close>

text \<open>The loop of \<open>send_replicate\<close> with, for each replica, the acknowledgements that other tasks handle before it
  is asked. When the loop breaks the later ones are handled all the same.\<close>

fun replicate_overlapped ::
    "('b, 'x) world_scheme \<Rightarrow> string \<Rightarrow> shopping_list \<Rightarrow> msg \<Rightarrow> uuid \<Rightarrow> ((uuid \<times> msg) list \<times> uuid) list \<Rightarrow>
     ('b peer, unit) act" where
  "replicate_overlapped w request_id lst m last_replica [] = act_ret ()"
| "replicate_overlapped w request_id lst m last_replica ((acks, replica) # schedule) =
     act_seq (act_modify (acks_effect w acks))
    (act_bind (act_try (send_to w [] replica m)) (\<lambda>r. case r of
       Inr _ \<Rightarrow> replicate_overlapped w request_id lst m last_replica schedule
     | Inl _ \<Rightarrow>
         act_bind (act_try (get_next_available_node [] last_replica)) (\<lambda>stand_in. case stand_in of
           Inl _ \<Rightarrow> act_modify (acks_effect w (concat (map fst schedule)))
         | Inr node \<Rightarrow>
             act_seq (act_ignore (send_to w [] node (Handoff request_id lst replica)))
               (replicate_overlapped w request_id lst m last_replica schedule))))"

lemma acks_effect_append: "acks_effect w (xs @ ys) p = acks_effect w ys (acks_effect w xs p)"
  by (simp add: acks_effect_def)

lemma acks_and_calls:
  assumes "list_all (\<lambda>(v, m). is_ack m) acks"
  shows "send_to w held x y (acks_effect w acks p) =
      (acks_effect w acks (fst (send_to w held x y p)), snd (send_to w held x y p))"
    "get_next_available_node held x (acks_effect w acks p) =
      (acks_effect w acks (fst (get_next_available_node held x p)), snd (get_next_available_node held x p))"
    "replicate_loop w held i lst y x us (acks_effect w acks p) =
      (acks_effect w acks (fst (replicate_loop w held i lst y x us p)), snd (replicate_loop w held i lst y x us p))"
    "\<not> is_ack y \<Longrightarrow> handle_incoming w [] x y (acks_effect w acks p) =
      (acks_effect w acks (fst (handle_incoming w [] x y p)), snd (handle_incoming w [] x y p))"
  by (rule unaffectedD, rule acks_unnoticed [OF assms],
      rule ack.unnoticed_send_to ack.unnoticed_search ack.unnoticed_replicate_loop handlers_unnoticed, assumption?)+

lemma overlapped_run:
  assumes "list_all (\<lambda>(v, m). is_ack m) (concat (map fst schedule))"
    and "comes_back (snd (replicate_loop w [] i lst m v (map snd schedule) p))"
  shows "replicate_overlapped w i lst m v schedule p =
    (acks_effect w (concat (map fst schedule)) (fst (replicate_loop w [] i lst m v (map snd schedule) p)),
     snd (replicate_loop w [] i lst m v (map snd schedule) p))"
  using assms
proof (induction schedule arbitrary: p)
  case (Cons entry schedule)
  obtain acks replica where entry: "entry = (acks, replica)" by fastforce
  let ?u = "acks_effect w acks"
  let ?loop = "replicate_loop w [] i lst m v (map snd schedule)"
  let ?later = "concat (map fst schedule)"
  have acks: "list_all (\<lambda>(v, m). is_ack m) acks" using Cons.prems(1) by (simp add: entry)
  note later = acks_and_calls [OF acks]
  have rest: "replicate_overlapped w i lst m v schedule (?u q) =
      (acks_effect w ?later (?u (fst (?loop q))), snd (?loop q))" if "comes_back (snd (?loop q))" for q
    using Cons.IH [of "?u q"] Cons.prems(1) that by (simp add: entry later)
  let ?q = "fst (send_to w [] replica m p)"
  have start: "replicate_overlapped w i lst m v (entry # schedule) p =
      act_bind (act_try (send_to w [] replica m)) (\<lambda>r. case r of
         Inr _ \<Rightarrow> replicate_overlapped w i lst m v schedule
       | Inl _ \<Rightarrow> act_bind (act_try (get_next_available_node [] v)) (\<lambda>stand_in. case stand_in of
             Inl _ \<Rightarrow> act_modify (acks_effect w ?later)
           | Inr node \<Rightarrow> act_seq (act_ignore (send_to w [] node (Handoff i lst replica)))
               (replicate_overlapped w i lst m v schedule))) (?u p)"
    by (simp add: entry act_bind_apply)
  consider (sent) "snd (send_to w [] replica m p) = Inr ()" | (failed) e where "snd (send_to w [] replica m p) = Inl (Fail e)"
    using Cons.prems(2) by (cases "snd (send_to w [] replica m p)") (auto simp: entry act_bind_apply act_try_apply comes_back_cases split: error.splits)
  then show ?case
  proof cases
    case sent
    then have "replicate_loop w [] i lst m v (map snd (entry # schedule)) p = ?loop ?q"
      by (simp add: entry act_bind_apply act_try_apply)
    with sent Cons.prems(2) rest [of ?q] show ?thesis
      unfolding start by (simp add: act_bind_apply act_try_apply later acks_effect_append entry)
  next
    case failed
    let ?s = "fst (get_next_available_node [] v ?q)"
    let ?handoff = "\<lambda>node. send_to w [] node (Handoff i lst replica) ?s"
    consider (none) e where "snd (get_next_available_node [] v ?q) = Inl (Fail e)"
      | (node) node where "snd (get_next_available_node [] v ?q) = Inr node" "comes_back (snd (?handoff node))"
      using Cons.prems(2) failed by (cases "snd (get_next_available_node [] v ?q)")
        (auto simp: entry act_bind_apply act_try_apply act_ignore_apply comes_back_cases split: error.splits sum.splits)
    then show ?thesis
    proof cases
      case none
      then show ?thesis
        unfolding start using failed by (simp add: act_bind_apply act_try_apply later acks_effect_append entry)
    next
      case node
      then have "replicate_loop w [] i lst m v (map snd (entry # schedule)) p = ?loop (fst (?handoff node))"
        using failed by (auto simp: entry act_bind_apply act_try_apply act_ignore_apply comes_back_cases)
      with node failed Cons.prems(2) rest [of "fst (?handoff node)"] show ?thesis
        unfolding start
        by (auto simp: act_bind_apply act_try_apply act_ignore_apply later acks_effect_append entry comes_back_cases)
    qed
  qed
qed (simp add: acks_effect_def)

text \<open>C9: Within a put and between messages it does not matter when acknowledgements are handled. Those that come in while a put is still asking its
  replicas have the effect they would have after the last replica was asked, whatever the network does to
  the requests (as long as asking them comes back), and acknowledgements handled before any other message of a peer have the
  effect they would have after it.\<close>

theorem acknowledgements_can_wait:
  assumes "list_all (\<lambda>(v, m). is_ack m) (concat (map fst schedule))"
    and "comes_back (snd (replicate_loop w [] i lst y last_replica (map snd schedule) p))" and "\<not> is_ack m"
  shows "replicate_overlapped w i lst y last_replica schedule p =
      (acks_effect w (concat (map fst schedule)) (fst (replicate_loop w [] i lst y last_replica (map snd schedule) p)),
       snd (replicate_loop w [] i lst y last_replica (map snd schedule) p)) \<and>
    handle_incoming w [] v m (acks_effect w (concat (map fst schedule)) p) =
      (acks_effect w (concat (map fst schedule)) (fst (handle_incoming w [] v m p)), snd (handle_incoming w [] v m p))"
  using overlapped_run [OF assms(1,2)] acks_and_calls(4) [OF assms(1,3)] by blast

text \<open>A put of server 1 whose first replica answers before the second is asked.\<close>

theorem acknowledgements_can_wait_witness:
  "\<exists>q. replicate_overlapped sample_world ''r'' \<lparr>sl_id = 7, sl_list = awormap_new\<rparr> Ping 3 [([], 2), ([(2, Ack ''r'')], 3)]
      (sample_member\<lparr>p_in_flight := [(''r'', \<lparr>q_needed = 2, q_received = 0, q_responder = Some ''r'', q_lists = []\<rparr>)]\<rparr>) =
      (q, Ok ()) \<and> map_option q_received (hm_get (p_in_flight q) ''r'') = Some 1"
proof -
  let ?lst = "\<lparr>sl_id = 7, sl_list = awormap_new\<rparr>"
  let ?p = "sample_member\<lparr>p_in_flight := [(''r'', \<lparr>q_needed = 2, q_received = 0, q_responder = Some ''r'', q_lists = []\<rparr>)]\<rparr>"
  have "replicate_loop sample_world [] ''r'' ?lst Ping 3 [2, 3] ?p = (after_sends [2, 3] Ping ?p, Ok ())"
    by (rule replicate_loop_reliable) (simp_all add: sample_member_def)
  with acknowledgements_can_wait [of "[([], 2), ([(2, Ack ''r'')], 3)]" sample_world "''r''" ?lst Ping 3 ?p Leave 2]
  show ?thesis
    by (simp add: acks_effect_def ack_effect_def handle_incoming_def handle_ack_effect signal_quorom_def
        is_quorom_reached_def increment_received_def)
qed

end
