(* ===== verification/Peer_Contract.thy ===== *)
theory Peer_Contract
  imports Peer_Lists
begin

text \<open>
  What a peer promises the cluster: from a state with sound lists, tables and request ids, every call
  leaves such a state and sends only sound messages. The locale \<open>peer_contract\<close> states what a predicate on
  the peer has to satisfy for that; \<open>node_ok\<close> is the predicate the cluster uses.
\<close>

section \<open>Sound tables and messages\<close>

text \<open>\<open>entry u addr\<close>: server \<open>u\<close> listens at \<open>addr\<close>. \<open>ids\<close>: the request ids that may be used.\<close>

definition table_ok :: "(uuid \<Rightarrow> string \<Rightarrow> bool) \<Rightarrow> membership_table \<Rightarrow> bool" where
  "table_ok entry table \<longleftrightarrow> hm_wf table \<and> list_all (\<lambda>(u, addr). entry u addr) table"

fun msg_ok :: "(uuid \<Rightarrow> string \<Rightarrow> bool) \<Rightarrow> (string \<Rightarrow> bool) \<Rightarrow> msg \<Rightarrow> bool" where
  "msg_ok entry ids (Hello u addr) = entry u addr"
| "msg_ok entry ids (Gossip table) = table_ok entry table"
| "msg_ok entry ids (Ack i) = ids i"
| "msg_ok entry ids (AckList i l) = (ids i \<and> sl_wf l)"
| "msg_ok entry ids (ReplicateList i l b) = (ids i \<and> sl_wf l)"
| "msg_ok entry ids (Handoff i l u) = (ids i \<and> sl_wf l)"
| "msg_ok entry ids (MergeList l) = sl_wf l"
| "msg_ok entry ids (GetList l) = sl_wf l"
| "msg_ok entry ids (PutList l) = sl_wf l"
| "msg_ok entry ids _ = True"

fun wait_ok :: "proxy_wait \<Rightarrow> bool" where
  "wait_ok (Put_Wait c lst i) = sl_wf lst"
| "wait_ok (Get_Wait c lst stored i) = (sl_wf lst \<and> sl_wf stored)"

definition flight_ok :: "(string, quorom_state) hash_map \<Rightarrow> bool" where
  "flight_ok f \<longleftrightarrow> (\<forall>i q. hm_get f i = Some q \<longrightarrow> list_all sl_wf (q_lists q))"

lemma in_set_update: "x \<in> set (AList.update k v t) \<Longrightarrow> x = (k, v) \<or> x \<in> set t"
  by (induction t) (auto split: if_splits)

lemma table_ok_insert: "table_ok entry t \<Longrightarrow> entry u addr \<Longrightarrow> table_ok entry (membership_insert t u addr)"
  unfolding table_ok_def membership_insert_def
  by (auto simp: list_all_iff dest: in_set_update)

lemma flight_ok_ops:
  "flight_ok f \<Longrightarrow> list_all sl_wf (q_lists q) \<Longrightarrow> flight_ok (hm_insert i q f)"
  "flight_ok f \<Longrightarrow> flight_ok (hm_remove i f)"
  by (auto simp: flight_ok_def split: if_splits)

lemma flight_okD: "flight_ok f \<Longrightarrow> hm_get f i = Some q \<Longrightarrow> list_all sl_wf (q_lists q)"
  by (auto simp: flight_ok_def)

text \<open>The lists read from a well-formed storage.\<close>

lemma ss_reads_wf:
  assumes "ss_inv w s"
  shows "ss_get_all_rows w q s = Ok rows \<Longrightarrow> (h, l) \<in> set rows \<Longrightarrow> sl_wf l"
    "ss_get_old_data w q s n ph = Ok ls \<Longrightarrow> l \<in> set ls \<Longrightarrow> sl_wf l"
    "ss_get_hinted_handoffs w q s = Ok hs \<Longrightarrow> (u, l) \<in> set hs \<Longrightarrow> sl_wf l"
proof -
  have ok: "ss_ok w s" using assms by (simp add: ss_inv_def)
  have q: "q" if "ss_get_all_rows w q s = Ok rows \<or> ss_get_old_data w q s n ph = Ok ls \<or>
      ss_get_hinted_handoffs w q s = Ok hs"
    using that by (cases q) (auto simp: ss_get_all_rows_def ss_get_old_data_def ss_get_hinted_handoffs_def)
  have wf: "sl_wf (row_list w r)" if "r \<in> set (ss_rows s)" for r
    by (rule row_ok_wf [OF ss_ok_row [OF ok that]])
  show "sl_wf l" if "ss_get_all_rows w q s = Ok rows" "(h, l) \<in> set rows"
    using that q all_rows_hashes [OF ok] wf by auto
  show "sl_wf l" if "ss_get_old_data w q s n ph = Ok ls" "l \<in> set ls"
    using that q old_data_rows [OF ok] wf by (auto split: if_splits)
  show "sl_wf l" if "ss_get_hinted_handoffs w q s = Ok hs" "(u, l) \<in> set hs"
    using that q hinted_handoffs_rows [OF ok] wf by auto
qed


section \<open>The contract\<close>

locale peer_contract =
  fixes P :: "'b peer \<Rightarrow> bool" and w :: "('b, 'x) world_scheme"
    and entry :: "uuid \<Rightarrow> string \<Rightarrow> bool" and ids :: "string \<Rightarrow> bool"
  assumes tick_step: "P p \<Longrightarrow> P (p\<lparr>p_tick := Suc (p_tick p)\<rparr>)"
    and failure_step: "P p \<Longrightarrow> P (p\<lparr>p_failure := f\<rparr>)"
    and sent_step: "P p \<Longrightarrow> msg_ok entry ids m \<Longrightarrow> P (p\<lparr>p_sent := p_sent p @ [(to, addr, m)]\<rparr>)"
    and proxied_step: "P p \<Longrightarrow> P (p\<lparr>p_proxied := p_proxied p @ [x]\<rparr>)"
    and signalled_step: "P p \<Longrightarrow> P (p\<lparr>p_signalled := g\<rparr>)"
    and flight_step: "P p \<Longrightarrow> flight_ok fl \<Longrightarrow> P (p\<lparr>p_in_flight := fl\<rparr>)"
    and flight_sound: "P p \<Longrightarrow> flight_ok (p_in_flight p)"
    and store_step: "P p \<Longrightarrow> ss_inv w st \<Longrightarrow> P (p\<lparr>p_storage := st\<rparr>)"
    and store_sound: "P p \<Longrightarrow> ss_inv w (p_storage p)"
    and table_step: "P p \<Longrightarrow> table_ok entry t \<Longrightarrow> P (p\<lparr>p_membership := t\<rparr>)"
    and table_sound: "P p \<Longrightarrow> table_ok entry (p_membership p)"
    and ring_step: "P p \<Longrightarrow> (\<And>u. u \<in> set us \<Longrightarrow> \<exists>addr. entry u addr) \<Longrightarrow>
      P (p\<lparr>p_hashring := foldl (add_node w) (p_hashring p) us\<rparr>)"
    and ring_leave: "P p \<Longrightarrow> P (p\<lparr>p_hashring := remove_node w (p_hashring p) u\<rparr>)"
    and self_sound: "P p \<Longrightarrow> entry (p_uuid p) (p_addr p)"
    and draw_sound: "P p \<Longrightarrow> ids (uuid_to_string w (w_new_uuid w (p_tick p)))"
    and no_request: "P p \<Longrightarrow> ids []"
begin

text \<open>Reading a part of the state and going on, and going on with what a call returned.\<close>

lemma keeps_gets: "(\<And>s. P s \<Longrightarrow> keeps P (k (f s))) \<Longrightarrow> keeps P (act_bind (act_gets f) k)"
  by (simp add: keeps_def act_bind_apply)

lemma keeps_gets_locked:
  "(\<And>s. P s \<Longrightarrow> keeps P (k (f s))) \<Longrightarrow> keeps P (act_bind (act_lock held l (act_gets f)) k)"
  by (simp add: act_lock_def keeps_gets) (simp add: keeps_def act_bind_apply)

lemma keeps_of_res: "(\<And>x. r = Ok x \<Longrightarrow> keeps P (f x)) \<Longrightarrow> keeps P (act_bind (act_of_res r) f)"
  by (auto simp: keeps_def act_bind_apply split: sum.split)

lemma keeps_then:
  assumes "keeps P m" "\<And>s s' x. P s \<Longrightarrow> m s = (s', Ok x) \<Longrightarrow> keeps P (f x)"
  shows "keeps P (act_bind m f)"
  unfolding keeps_def
proof (intro allI impI)
  fix s assume s: "P s"
  with keepsD [OF assms(1)] have "P (fst (m s))" .
  with assms(2) [OF s, of "fst (m s)"] show "P (fst (act_bind m f s))"
    by (cases "snd (m s)") (auto simp: act_bind_apply keeps_def prod_eq_iff)
qed

lemma keeps_tick: "keeps P (world_tick f)"
  by (simp add: keeps_def world_tick_def tick_step)

lemma keeps_draw:
  "(\<And>u. ids (uuid_to_string w u) \<Longrightarrow> keeps P (k u)) \<Longrightarrow> keeps P (act_bind (world_tick (w_new_uuid w)) k)"
  by (rule keeps_then [OF keeps_tick]) (auto simp: world_tick_def draw_sound)

lemma keeps_request_id: "(\<And>i. ids i \<Longrightarrow> keeps P (k i)) \<Longrightarrow> keeps P (act_bind (new_request_id w) k)"
  unfolding new_request_id_def
  by (rule keeps_then) (auto simp: act_run draw_sound keeps_def tick_step)

lemma keeps_zmq: "keeps P (zmq_call w)"
  unfolding zmq_call_def by (intro keeps_intros keeps_tick)

lemma keeps_mark: "keeps P (mark_peer_failed w held u)"
  unfolding mark_peer_failed_def by (intro keeps_intros keeps_tick failure_step)

lemma keeps_clear: "keeps P (clear_peer_failure held u)"
  unfolding clear_peer_failure_def by (rule keeps_intros | simp add: failure_step)+

lemma keeps_connect: "keeps P (connect_to_peer w held u)" "keeps P (close_conn w held u x)"
  unfolding connect_to_peer_def close_conn_def by (intro keeps_intros keeps_zmq)+

lemma keeps_send: "msg_ok entry ids m \<Longrightarrow> keeps P (send_to w held u m)"
  unfolding send_to_def log_sent_def
  by (intro keeps_intros keeps_zmq keeps_mark keeps_clear keeps_connect sent_step)

lemma keeps_answer: "keeps P (send_to_proxy w held c m)"
  unfolding send_to_proxy_def by (intro keeps_intros keeps_zmq proxied_step)

lemmas keeps_parts = keeps_of_res keeps_gets_locked keeps_gets keeps_request_id keeps_draw
  keeps_tick keeps_zmq keeps_mark keeps_clear keeps_send keeps_answer

lemma keeps_gossip_round: "keeps P (send_gossip w held)"
  unfolding send_gossip_def
  by (rule keeps_parts keeps_intros | simp add: table_sound)+

lemma keeps_gossip_to: "keeps P (send_gossip_to w held u)"
  unfolding send_gossip_to_def
  by (rule keeps_parts keeps_intros | simp add: table_sound)+

lemma keeps_pings: "keeps P (failure_detection w held)"
  unfolding failure_detection_def send_ping_to_def
  by (rule keeps_parts keeps_intros | simp)+

text \<open>The storage: what is written is sound, and what is read.\<close>

lemma keeps_get: "keeps P (storage_get w held i)"
  unfolding storage_get_def by (rule keeps_parts keeps_intros)+

lemma get_sound: "P p \<Longrightarrow> storage_get w held i p = (p', Ok (Some l)) \<Longrightarrow> sl_wf l"
  using ss_writes_inv(4) [OF store_sound]
  by (cases "L_storage \<in> set held") (auto simp: storage_get_def storage_runs act_run split: sum.splits)

lemma keeps_write:
  assumes "sl_wf l"
  shows "keeps P (storage_write w held l)" "keeps P (storage_write_handoff w held l u)"
  unfolding storage_write_def storage_write_handoff_def
  by (rule keeps_parts keeps_intros store_step | assumption | erule ss_writes_inv(1,2) [OF store_sound assms])+

lemma keeps_delete: "keeps P (storage_delete w held i)"
  unfolding storage_delete_def
  by (rule keeps_parts keeps_intros store_step | assumption | erule ss_writes_inv(3) [OF store_sound])+

text \<open>The calls that read lists.\<close>

lemma keeps_get_then:
  "keeps P (k None) \<Longrightarrow> (\<And>l. sl_wf l \<Longrightarrow> keeps P (k (Some l))) \<Longrightarrow> keeps P (act_bind (storage_get w held i) k)"
  by (rule keeps_then [OF keeps_get]) (metis get_sound not_None_eq)

lemma keeps_rows:
  "(\<And>rows. (\<And>h l. (h, l) \<in> set rows \<Longrightarrow> sl_wf l) \<Longrightarrow> keeps P (k rows)) \<Longrightarrow>
   keeps P (act_bind (storage_all_rows w held) k)"
proof (rule keeps_then)
  show "keeps P (storage_all_rows w held)"
    unfolding storage_all_rows_def by (rule keeps_parts keeps_intros)+
qed (auto simp: storage_all_rows_run dest: ss_reads_wf(1) [OF store_sound])

lemma keeps_old_data:
  "(\<And>ls. (\<And>l. l \<in> set ls \<Longrightarrow> sl_wf l) \<Longrightarrow> keeps P (k ls)) \<Longrightarrow>
   keeps P (act_bind (storage_old_data w held n h) k)"
proof (rule keeps_then)
  show "keeps P (storage_old_data w held n h)"
    unfolding storage_old_data_def by (rule keeps_parts keeps_intros)+
qed (cases "L_storage \<in> set held", simp add: storage_old_data_def, auto simp: storage_runs
      dest: ss_reads_wf(2) [OF store_sound])

lemma keeps_handoffs:
  "(\<And>hs. (\<And>u l. (u, l) \<in> set hs \<Longrightarrow> sl_wf l) \<Longrightarrow> keeps P (k hs)) \<Longrightarrow>
   keeps P (act_bind (storage_handoffs w held) k)"
proof (rule keeps_then)
  show "keeps P (storage_handoffs w held)"
    unfolding storage_handoffs_def by (rule keeps_parts keeps_intros)+
qed (cases "L_storage \<in> set held", simp add: storage_handoffs_def, auto simp: storage_runs
      dest: ss_reads_wf(3) [OF store_sound])

lemma keeps_for_in: "(\<And>x. x \<in> set xs \<Longrightarrow> keeps P (f x)) \<Longrightarrow> keeps P (act_for xs f)"
  by (induction xs) (auto intro!: keeps_intros)

lemmas keeps_reads = keeps_get_then keeps_rows keeps_old_data keeps_handoffs keeps_for_in

lemma keeps_assuming: "(ids [] \<Longrightarrow> keeps P m) \<Longrightarrow> keeps P m"
  using no_request by (auto simp: keeps_def)

lemma keeps_old: "keeps P (send_old_data w held u)"
  unfolding send_old_data_def
  by (rule keeps_assuming) (rule keeps_parts keeps_reads keeps_intros | simp)+

lemma keeps_leave_sends: "ids [] \<Longrightarrow> sl_wf l \<Longrightarrow> keeps P (leave_send w held u (ReplicateList [] l True) n)"
proof (induction "MAX_RETRIES - n" arbitrary: n)
  case 0
  then show ?case by (subst leave_send.simps) (rule keeps_parts keeps_intros | simp)+
next
  case (Suc k)
  then have "k = MAX_RETRIES - (n + 1)" by simp
  with Suc show ?case by (subst leave_send.simps) (rule keeps_parts keeps_intros | simp)+
qed

lemma keeps_leaving: "keeps P (leave w held)"
  unfolding leave_def
  by (rule keeps_assuming) (rule keeps_parts keeps_reads keeps_leave_sends keeps_intros ring_leave | assumption | clarsimp)+

lemma keeps_handoff_round: "keeps P (hinted_handoff_round w held)"
  unfolding hinted_handoff_round_def
  by (rule keeps_parts keeps_reads keeps_delete keeps_intros | assumption | clarsimp)+

section \<open>The handlers keep the contract\<close>

lemma keeps_enter: "entry u addr \<Longrightarrow>
    keeps P (act_modify (\<lambda>p. p\<lparr>p_membership := membership_insert (p_membership p) u addr\<rparr>))"
  by (rule keeps_modify) (simp add: table_step table_ok_insert table_sound)

lemma keeps_nodes: "table_ok entry t \<Longrightarrow> keeps P (add_nodes w held (hm_keys t))"
  unfolding add_nodes_def
  by (rule keeps_intros ring_step | assumption)+ (fastforce simp: table_ok_def list_all_iff)

lemma keeps_gossip: "table_ok entry t \<Longrightarrow> keeps P (handle_gossip w held t)"
  unfolding handle_gossip_def
  by (rule keeps_nodes keeps_parts keeps_reads keeps_old keeps_enter keeps_intros | assumption
      | (clarsimp simp: table_ok_def list_all_iff, fastforce)[1] | clarsimp)+

lemma keeps_hello: "entry u addr \<Longrightarrow> keeps P (handle_hello w held u addr)"
  unfolding handle_hello_def
  by (rule keeps_enter keeps_gossip_to keeps_gossip_round keeps_parts keeps_intros | assumption)+

lemma keeps_replicate: "ids i \<Longrightarrow> sl_wf l \<Longrightarrow> keeps P (handle_replicate w held u i l b)"
proof -
  assume i: "ids i" "sl_wf l"
  have "keeps P (act_bind (act_try (storage_get w held (sl_id l))) (\<lambda>stored. case stored of
      Inr (Some l) \<Rightarrow> act_ignore (send_to w held u (AckList i l)) | _ \<Rightarrow> act_ret ()))"
    by (rule keeps_then [OF keeps_try [OF keeps_get]])
      (auto simp: i split: sum.split option.split intro!: keeps_intros keeps_send dest!: act_try_Ok intro: get_sound)
  then show ?thesis
    unfolding handle_replicate_def
    by (rule keeps_if [rotated]) (rule keeps_write keeps_parts keeps_intros | assumption | simp add: i)+
qed

lemma keeps_merge: "sl_wf l \<Longrightarrow> keeps P (handle_merge w held l)"
  unfolding handle_merge_def
  by (rule keeps_reads keeps_write | simp add: sl_wf_merge)+

lemma keeps_handed: "ids i \<Longrightarrow> sl_wf l \<Longrightarrow> keeps P (handle_handoff w held u i l n)"
  unfolding handle_handoff_def
  by (rule keeps_write keeps_parts keeps_intros | simp)+

lemma keeps_ack:
  assumes "\<And>q. list_all sl_wf (q_lists q) \<Longrightarrow> list_all sl_wf (q_lists (f q))"
  shows "keeps P (handle_ack held i f)"
proof -
  have signal: "keeps P (signal_quorom i q)" if "list_all sl_wf (q_lists q)" for q
    using that unfolding signal_quorom_def
    by (auto intro!: keeps_intros flight_step signalled_step [OF flight_step] flight_ok_ops flight_sound
        split: option.split)
  show ?thesis
    unfolding handle_ack_def
    by (rule keeps_gets keeps_intros signal assms | erule flight_okD [OF flight_sound])+
qed

lemma keeps_incoming: "msg_ok entry ids m \<Longrightarrow> keeps P (handle_incoming w held u m)"
  unfolding handle_incoming_def
  by (cases m) (auto intro!: keeps_intros keeps_leaving keeps_gossip keeps_hello keeps_replicate keeps_merge
      keeps_handed keeps_ack simp: increment_received_def add_list_def)

lemma keeps_joining:
  "keeps P (join_hello w seed)"
  "(\<And>t. Gossip t \<in> set (parsed_messages from_slice rounds) \<Longrightarrow> table_ok entry t) \<Longrightarrow>
     keeps P (join_finish w held from_slice rounds)"
proof -
  show "keeps P (join_hello w seed)"
    unfolding join_hello_def log_sent_def
    by (rule keeps_parts keeps_intros sent_step | simp add: self_sound)+
  assume ok: "\<And>t. Gossip t \<in> set (parsed_messages from_slice rounds) \<Longrightarrow> table_ok entry t"
  have "m \<in> set (parsed_messages from_slice rounds)" if "join_receive from_slice rounds None = Some m" for m
  proof (cases "rev (parsed_messages from_slice rounds)")
    case (Cons a as)
    with that show ?thesis by (metis join_receive_last list.simps(5) option.inject list.set_intros(1) set_rev)
  qed (use that join_receive_last [of from_slice rounds None] in simp)
  with ok have "table_ok entry t" if "join_receive from_slice rounds None = Some (Gossip t)" for t
    using that by fastforce
  then show "keeps P (join_finish w held from_slice rounds)"
    unfolding join_finish_def
    by (cases "join_receive from_slice rounds None")
      (auto split: msg.split intro!: keeps_intros keeps_zmq table_step)
qed

text \<open>Requests of clients, up to the \<open>await\<close> and after it.\<close>

lemma keeps_stand_in: "keeps P (get_next_available_node held u)"
  unfolding get_next_available_node_def by (intro keeps_intros) (simp add: keeps_def)

lemma keeps_replicating:
  "ids i \<Longrightarrow> sl_wf l \<Longrightarrow> keeps P (replicate_loop w held i l (ReplicateList i l b) last_u us)"
  by (induction us) (simp_all only: replicate_loop.simps,
      (rule keeps_parts keeps_stand_in keeps_intros | assumption | simp)+)

lemma keeps_insert: "list_all sl_wf (q_lists q) \<Longrightarrow> keeps P (in_flight_insert held i q)"
  unfolding in_flight_insert_def
  by (intro keeps_intros) (simp add: flight_step flight_ok_ops flight_sound)

lemma keeps_channel: "keeps P (new_channel i)"
  unfolding new_channel_def by (intro keeps_intros) (simp add: signalled_step)

lemma keeps_starting:
  assumes "sl_wf l"
  shows "keeps P (send_replicate_start w held l rs b)" "keeps P (send_read_replicate_start w held l rs)"
  unfolding send_replicate_start_def send_read_replicate_start_def
  by (rule keeps_parts keeps_channel keeps_insert keeps_replicating keeps_intros | simp add: assms)+

lemma keeps_put: "sl_wf l \<Longrightarrow> keeps P (put_start w held c l)"
  unfolding put_start_def get_replicas_def send_write_replicate_start_def
  by (rule keeps_starting keeps_intros | assumption)+

lemma keeps_request: "msg_lists_wf m \<Longrightarrow> keeps P (handle_incoming_proxy w held c m)"
  unfolding handle_incoming_proxy_def
  by (cases m) (auto intro!: keeps_intros keeps_get_then keeps_put keeps_starting simp: get_replicas_def)

lemma put_wait: "put_start w held c l p = (p', Ok wait) \<Longrightarrow> \<exists>i. wait = Put_Wait c l i"
  by (auto simp: put_start_def act_bind_Ok split: if_splits)

lemma request_wait:
  assumes "handle_incoming_proxy w held c m p = (p', Ok (Some wait))" "P p" "msg_lists_wf m"
  shows "wait_ok wait"
proof -
  have put: "wait_ok wait" if "act_bind (act_try (put_start w held c l))
      (\<lambda>r. act_ret (case r of Inl _ \<Rightarrow> None | Inr wait \<Rightarrow> Some wait)) q = (p', Ok (Some wait))" "sl_wf l" for l q
  proof -
    from that(1) obtain q' r where "act_try (put_start w held c l) q = (q', Ok r)" "r = Inr wait"
      unfolding act_bind_Ok by (fastforce split: sum.splits)
    then have "put_start w held c l q = (q', Ok wait)" by (auto dest: act_try_Ok)
    with put_wait that(2) show ?thesis by fastforce
  qed
  show ?thesis
  proof (cases m)
    case (PutList l)
    with assms put [of l p] show ?thesis by (simp add: handle_incoming_proxy_def)
  next
    case (GetList l)
    from assms(1) obtain q stored where q: "storage_get w held (sl_id l) p = (q, Ok stored)"
        and run: "(case stored of
            None \<Rightarrow> act_bind (act_try (put_start w held c l))
              (\<lambda>r. act_ret (case r of Inl _ \<Rightarrow> None | Inr wait \<Rightarrow> Some wait))
          | Some old \<Rightarrow> act_bind (get_replicas w held (sl_id l)) (\<lambda>replicas.
              if replicas = [] then act_err (Fail ''no replicas found in hashring'')
              else act_bind (send_read_replicate_start w held l replicas)
                (\<lambda>request_id. act_ret (Some (Get_Wait c l old request_id))))) q = (p', Ok (Some wait))"
      unfolding handle_incoming_proxy_def GetList msg.case act_bind_Ok by blast
    show ?thesis
    proof (cases stored)
      case None
      with run put [of l q] assms(3) show ?thesis by (simp add: GetList)
    next
      case (Some old)
      then have "sl_wf old" using get_sound [OF assms(2)] q by blast
      with run Some assms(3) show ?thesis by (auto simp: GetList act_bind_Ok split: if_splits)
    qed
  qed (use assms(1) in \<open>auto simp: handle_incoming_proxy_def\<close>)
qed

lemma keeps_await: "keeps P (await_result i)" "keeps P (in_flight_remove held i)"
  unfolding await_result_def in_flight_remove_def
  by (rule keeps_intros | simp add: flight_step flight_ok_ops flight_sound)+

lemma read_finish_sound:
  assumes "send_read_replicate_finish held i p = (p', Ok l)" "P p"
  shows "sl_wf l"
proof -
  obtain q where "hm_get (p_in_flight p) i = Some q" "merge_lists q = Ok l"
    using assms(1) unfolding send_read_replicate_finish_def
    by (auto simp: act_bind_Ok await_result_def act_try_apply act_bind_apply in_flight_remove_def act_lock_def
        split: if_splits sum.splits option.splits error.splits)
  moreover from this(1) have "list_all sl_wf (q_lists q)" by (rule flight_okD [OF flight_sound [OF assms(2)]])
  ultimately show ?thesis by (auto simp: merge_lists_def sl_wf_foldl split: list.splits)
qed

lemma keeps_finish: "wait_ok wait \<Longrightarrow> keeps P (proxy_finish w held wait)"
proof (cases wait)
  case (Put_Wait c l i)
  assume "wait_ok wait"
  then show ?thesis
    unfolding Put_Wait proxy_finish_def proxy_wait.case put_finish_def send_replicate_finish_def
    by (auto intro!: keeps_intros keeps_await keeps_write keeps_answer split: sum.split)
next
  case (Get_Wait c l stored i)
  assume "wait_ok wait"
  then have "sl_wf stored" by (simp add: Get_Wait)
  have "keeps P (send_read_replicate_finish held i)"
    unfolding send_read_replicate_finish_def
    by (auto intro!: keeps_intros keeps_await split: sum.split option.split)
  then show ?thesis
    unfolding Get_Wait proxy_finish_def proxy_wait.case get_finish_def Let_def
    by (intro keeps_then [OF keeps_try])
      (auto intro!: keeps_intros keeps_write keeps_answer sl_wf_merge \<open>sl_wf stored\<close>
        dest!: act_try_Ok intro: read_finish_sound split: sum.split)
qed

end


section \<open>The predicate of the cluster\<close>

text \<open>Server \<open>u\<close> at \<open>addr\<close> whose clock has reached \<open>lo\<close>; after it the UUIDs it draws are allowed ids.
  \<open>before\<close> is what it had sent; what it sent since is sound.\<close>

definition ring_sound :: "('b, 'x) world_scheme \<Rightarrow> (uuid \<Rightarrow> string \<Rightarrow> bool) \<Rightarrow> hash_ring \<Rightarrow> bool" where
  "ring_sound w entry hr \<longleftrightarrow> ring_ok w hr \<and> (\<forall>v \<in> get_all_servers hr. \<exists>a. entry v a)"

lemma ring_sound_add:
  "ring_sound w entry hr \<Longrightarrow> (\<And>u. u \<in> set us \<Longrightarrow> \<exists>a. entry u a) \<Longrightarrow> ring_sound w entry (foldl (add_node w) hr us)"
proof (induction us arbitrary: hr)
  case (Cons u us)
  have "ring_sound w entry (add_node w hr u)"
    using Cons.prems servers_add_node [of hr w u]
    by (fastforce simp: ring_sound_def ring_ok_add_node ring_ok_def [of w hr])
  with Cons show ?case by simp
qed simp

lemma ring_sound_remove:
  assumes "ring_sound w entry hr"
  shows "ring_sound w entry (remove_node w hr u)"
proof -
  have ok: "ring_ok w hr" "bt_wf (hr_ring hr)" using assms by (simp_all add: ring_sound_def ring_ok_def)
  have "ran (map_of (hr_ring (remove_node w hr u))) \<subseteq> ran (map_of (hr_ring hr))"
    using ring_remove_node_get [OF ok(2), of w u] by (auto simp: ran_def restrict_map_def)
  then have "get_all_servers (remove_node w hr u) \<subseteq> get_all_servers hr"
    using servers_get [OF ok(2)] servers_get [of "remove_node w hr u"] ring_remove_node_get [OF ok(2), of w u] by blast
  then show ?thesis using assms ring_ok_remove_node [OF ok(1), of u] by (auto simp: ring_sound_def)
qed

definition node_ok ::
    "('b, 'x) world_scheme \<Rightarrow> (uuid \<Rightarrow> string \<Rightarrow> bool) \<Rightarrow> (string \<Rightarrow> bool) \<Rightarrow> nat \<Rightarrow> uuid \<Rightarrow> string \<Rightarrow>
     (uuid option \<times> string \<times> msg) list \<Rightarrow> 'b peer \<Rightarrow> bool" where
  "node_ok w entry ids lo u addr before p \<longleftrightarrow>
     p_uuid p = u \<and> p_addr p = addr \<and> entry u addr \<and> ss_inv w (p_storage p) \<and> flight_ok (p_in_flight p) \<and>
     table_ok entry (p_membership p) \<and> ring_sound w entry (p_hashring p) \<and>
     ids [] \<and> (\<forall>t\<ge>lo. ids (uuid_to_string w (w_new_uuid w t))) \<and> lo \<le> p_tick p \<and>
     (\<exists>sent. p_sent p = before @ sent \<and> list_all (\<lambda>(_, _, m). msg_ok entry ids m) sent)"

interpretation node: peer_contract "node_ok w entry ids lo u addr before" w entry ids
  for w :: "('b, 'x) world_scheme" and entry ids lo u addr before
  by unfold_locales (auto simp: node_ok_def ring_sound_add ring_sound_remove)

end
