(* ===== verification/Cluster.thy ===== *)
theory Cluster
  imports Peer_Contract
begin

text \<open>
  The servers together (\<open>src/server.rs\<close>, \<open>src/main.rs\<close>): every server runs the calls of its peer, what it sends
  travels to the address it was sent to, may be lost and may be overtaken. The steps include starting servers,
  joining through a seed, the requests of clients and the rounds of the background tasks. Theorems about all
  runs of these steps are about all interleavings of whole calls.
\<close>

section \<open>Steps of a cluster\<close>

text \<open>A message in transit: who sent it, the address it is for, what it says. A delivery is remembered with
  the storage it left.\<close>

type_synonym parcel = "uuid \<times> string \<times> msg"

record 'b delivery =
  dl_to :: uuid
  dl_from :: uuid
  dl_msg :: msg
  dl_after :: "'b server_storage"

record 'b cluster =
  cl_nodes :: "uuid \<Rightarrow> 'b peer_system option"
  cl_net :: "parcel list"
  cl_log :: "'b delivery list"

text \<open>What a call of server \<open>u\<close> put on the network.\<close>

definition posted :: "uuid \<Rightarrow> 'b peer \<Rightarrow> 'b peer \<Rightarrow> parcel list" where
  "posted u p p' = map (\<lambda>(_, addr, m). (u, addr, m)) (drop (length (p_sent p)) (p_sent p'))"

definition run_at :: "uuid \<Rightarrow> 'b peer_system \<Rightarrow> 'b peer \<Rightarrow> proxy_wait option \<Rightarrow> 'b cluster \<Rightarrow> 'b cluster" where
  "run_at u s p' wait C = C\<lparr>cl_nodes := (cl_nodes C)(u \<mapsto> s\<lparr>sys_peer := p', sys_wait := wait\<rparr>),
     cl_net := cl_net C @ posted u (sys_peer s) p'\<rparr>"

definition handled :: "uuid \<Rightarrow> msg \<Rightarrow> 'b peer_system \<Rightarrow> 'b peer_system" where
  "handled u m s = s\<lparr>sys_log := sys_log s @ [(u, m)]\<rparr>"

text \<open>The command \<open>remove-peer\<close>: what it sends under a new identity when it is given a port.\<close>

definition remove_peer :: "uuid \<Rightarrow> string option \<Rightarrow> parcel option" where
  "remove_peer identity port = (case port of
     Some port \<Rightarrow> Some (identity, ''tcp://127.0.0.1:'' @ port, Leave)
   | None \<Rightarrow> None)"

text \<open>\<open>addr_of\<close> says where each server listens. A server that joins may act on any messages that wait at its
  address. A call that ends in a deadlock keeps its locks in the program, and other calls may then wait for
  ever; here they still run, so the runs of the program are among the runs of these steps.\<close>

inductive cluster_step ::
    "(uuid \<Rightarrow> ('b, 'x) world_scheme) \<Rightarrow> (uuid \<Rightarrow> string option) \<Rightarrow> 'b cluster \<Rightarrow> 'b cluster \<Rightarrow> bool"
  for W :: "uuid \<Rightarrow> ('b, 'x) world_scheme" and addr_of :: "uuid \<Rightarrow> string option" where
  server_starts: "\<lbrakk>cl_nodes C u = None; addr_of u = Some addr; ss_inv (W u) st\<rbrakk> \<Longrightarrow>
    cluster_step W addr_of C (C\<lparr>cl_nodes := (cl_nodes C)(u \<mapsto>
      \<lparr>sys_peer = peer_new (W u) u addr st, sys_wait = None, sys_log = []\<rparr>)\<rparr>)"
| server_greets: "\<lbrakk>cl_nodes C u = Some s; join_hello (W u) seed (sys_peer s) = (p', r)\<rbrakk> \<Longrightarrow>
    cluster_step W addr_of C (run_at u s p' (sys_wait s) C)"
| server_joins: "\<lbrakk>cl_nodes C u = Some s;
      \<And>m. m \<in> set (parsed_messages from_slice rounds) \<Longrightarrow> \<exists>v. (v, p_addr (sys_peer s), m) \<in> set (cl_net C);
      join_finish (W u) [] from_slice (rounds :: (u8 list res \<times> u8 list res \<times> u8 list res) list) (sys_peer s) = (p', r)\<rbrakk> \<Longrightarrow>
    cluster_step W addr_of C (run_at u s p' (sys_wait s) C)"
| message_arrives: "\<lbrakk>cl_net C = xs @ (v, p_addr (sys_peer s), m) # ys; cl_nodes C u = Some s;
      handle_incoming (W u) [] v m (sys_peer s) = (p', r)\<rbrakk> \<Longrightarrow>
    cluster_step W addr_of C (run_at u (handled v m s) p' (sys_wait s) (C\<lparr>cl_net := xs @ ys,
      cl_log := cl_log C @ [\<lparr>dl_to = u, dl_from = v, dl_msg = m, dl_after = p_storage p'\<rparr>]\<rparr>))"
| message_lost: "cl_net C = xs @ parcel # ys \<Longrightarrow> cluster_step W addr_of C (C\<lparr>cl_net := xs @ ys\<rparr>)"
| leave_sent: "remove_peer v port = Some parcel \<Longrightarrow> cluster_step W addr_of C (C\<lparr>cl_net := cl_net C @ [parcel]\<rparr>)"
| client_asks: "\<lbrakk>cl_nodes C u = Some s; sys_wait s = None; msg_lists_wf m;
      handle_incoming_proxy (W u) [] client m (sys_peer s) = (p', r)\<rbrakk> \<Longrightarrow>
    cluster_step W addr_of C (run_at u s p' (case r of Inr wait \<Rightarrow> wait | Inl _ \<Rightarrow> None) C)"
| client_answered: "\<lbrakk>cl_nodes C u = Some s; sys_wait s = Some wait; proxy_finish (W u) [] wait (sys_peer s) = (p', r)\<rbrakk> \<Longrightarrow>
    cluster_step W addr_of C (run_at u s p' None C)"
| background_round: "\<lbrakk>cl_nodes C u = Some s;
      act \<in> {send_gossip (W u) [], hinted_handoff_round (W u) [], failure_detection (W u) []};
      act (sys_peer s) = (p', r)\<rbrakk> \<Longrightarrow>
    cluster_step W addr_of C (run_at u s p' (sys_wait s) C)"

inductive cluster_run ::
    "(uuid \<Rightarrow> ('b, 'x) world_scheme) \<Rightarrow> (uuid \<Rightarrow> string option) \<Rightarrow> 'b cluster \<Rightarrow> 'b cluster \<Rightarrow> bool"
  for W :: "uuid \<Rightarrow> ('b, 'x) world_scheme" and addr_of :: "uuid \<Rightarrow> string option" where
  cluster_run_refl: "cluster_run W addr_of C C"
| cluster_run_step: "cluster_run W addr_of C C' \<Longrightarrow> cluster_step W addr_of C' C'' \<Longrightarrow> cluster_run W addr_of C C''"

definition no_servers :: "'b cluster" where
  "no_servers = \<lparr>cl_nodes = \<lambda>_. None, cl_net = [], cl_log = []\<rparr>"


section \<open>What every run keeps\<close>

text \<open>The servers' states and the messages in transit are sound: lists and tables are well formed, and every
  address that is passed on is the address of that server.\<close>

definition server_ok ::
    "('b, 'x) world_scheme \<Rightarrow> (uuid \<Rightarrow> string option) \<Rightarrow> uuid \<Rightarrow> 'b peer_system \<Rightarrow> bool" where
  "server_ok w addr_of u s \<longleftrightarrow>
     (\<exists>addr. node_ok w (\<lambda>v a. addr_of v = Some a) (\<lambda>_. True) 0 u addr (p_sent (sys_peer s)) (sys_peer s)) \<and>
     (\<forall>wait. sys_wait s = Some wait \<longrightarrow> wait_ok wait) \<and> quorum_inv (sys_log s) (sys_peer s)"

definition cluster_ok ::
    "(uuid \<Rightarrow> ('b, 'x) world_scheme) \<Rightarrow> (uuid \<Rightarrow> string option) \<Rightarrow> 'b cluster \<Rightarrow> bool" where
  "cluster_ok W addr_of C \<longleftrightarrow> (\<forall>u s. cl_nodes C u = Some s \<longrightarrow> server_ok (W u) addr_of u s) \<and>
     (\<forall>(_, _, m) \<in> set (cl_net C). msg_ok (\<lambda>v a. addr_of v = Some a) (\<lambda>_. True) m)"

lemma call_ok:
  assumes "keeps (node_ok w entry ids lo u addr (p_sent p)) c" "node_ok w entry ids lo u addr (p_sent p) p"
    and "c p = (p', r)"
  shows "node_ok w entry ids lo u addr (p_sent p') p' \<and> (\<forall>(_, _, m) \<in> set (posted v p p'). msg_ok entry ids m)"
proof -
  have "node_ok w entry ids lo u addr (p_sent p) p'" by (rule keeps_result [OF assms(1,2,3)])
  then show ?thesis by (auto simp: node_ok_def posted_def list_all_iff)
qed

lemma run_at_ok:
  assumes "cluster_ok W addr_of C" "server_ok (W u) addr_of u s" "c (sys_peer s) = (p', r)"
    and "\<And>addr before. keeps (node_ok (W u) (\<lambda>v a. addr_of v = Some a) (\<lambda>_. True) 0 u addr before) c"
    and "\<And>wait. wait' = Some wait \<Longrightarrow> wait_ok wait" "quorum_inv (sys_log s) p'"
  shows "cluster_ok W addr_of (run_at u s p' wait' C)"
proof -
  obtain addr where "node_ok (W u) (\<lambda>v a. addr_of v = Some a) (\<lambda>_. True) 0 u addr (p_sent (sys_peer s)) (sys_peer s)"
    using assms(2) by (auto simp: server_ok_def)
  from call_ok [OF assms(4) this assms(3), of u] assms(1,5,6) show ?thesis
    by (auto simp: cluster_ok_def run_at_def server_ok_def)
qed

lemma join_quorum:
  "keeps (quorum_inv log) (join_hello w seed)" "keeps (quorum_inv log) (join_finish w held from_slice rounds)"
  unfolding join_hello_def join_finish_def
  by (auto intro!: keeps_intros simp: quorum.membership_stable split: option.split msg.split)

lemma new_server_ok:
  assumes "addr_of u = Some addr" "ss_inv w st"
  shows "server_ok w addr_of u \<lparr>sys_peer = peer_new w u addr st, sys_wait = None, sys_log = []\<rparr>"
proof -
  have "ring_sound w (\<lambda>v a. addr_of v = Some a) (add_node w (hash_ring_new VNODES REPLICAS) u)"
    using ring_sound_add [of w "\<lambda>v a. addr_of v = Some a" "hash_ring_new VNODES REPLICAS" "[u]"] assms(1)
    by (simp add: ring_sound_def ring_ok_new) (simp add: hash_ring_new_def get_all_servers_def)
  then show ?thesis
    using assms by (auto simp: server_ok_def node_ok_def peer_new_def quorum_inv_def flight_ok_def table_ok_def
        membership_insert_def)
qed

lemma server_handled: "server_ok w addr_of u s \<Longrightarrow> server_ok w addr_of u (handled v m s)"
  by (auto simp: server_ok_def handled_def intro: quorum_inv_log)

lemma handled_fields [simp]:
  "sys_peer (handled v m s) = sys_peer s" "sys_wait (handled v m s) = sys_wait s"
  "sys_log (handled v m s) = sys_log s @ [(v, m)]"
  by (simp_all add: handled_def)

lemma server_quorum: "server_ok w addr_of u s \<Longrightarrow> quorum_inv (sys_log s) (sys_peer s)"
  and server_wait: "server_ok w addr_of u s \<Longrightarrow> sys_wait s = Some wait \<Longrightarrow> wait_ok wait"
  by (simp_all add: server_ok_def)

lemma msg_ok_lists: "msg_ok entry ids m \<Longrightarrow> msg_lists_wf m"
  by (cases m) simp_all

lemma cluster_okD:
  "cluster_ok W addr_of C \<Longrightarrow> cl_nodes C u = Some s \<Longrightarrow> server_ok (W u) addr_of u s"
  "cluster_ok W addr_of C \<Longrightarrow> (v, addr, m) \<in> set (cl_net C) \<Longrightarrow> msg_ok (\<lambda>v a. addr_of v = Some a) (\<lambda>_. True) m"
  by (auto simp: cluster_ok_def)

lemma cluster_ok_less:
  "cluster_ok W addr_of C \<Longrightarrow> set net \<subseteq> set (cl_net C) \<Longrightarrow> cluster_ok W addr_of (C\<lparr>cl_net := net, cl_log := log\<rparr>)"
  "cluster_ok W addr_of C \<Longrightarrow> set net \<subseteq> set (cl_net C) \<Longrightarrow> cluster_ok W addr_of (C\<lparr>cl_net := net\<rparr>)"
  by (auto simp: cluster_ok_def)

lemma asked_wait:
  assumes "server_ok w addr_of u s" "msg_lists_wf m" "handle_incoming_proxy w [] c m (sys_peer s) = (p', r)"
    and "(case r of Inr wait \<Rightarrow> wait | Inl _ \<Rightarrow> None) = Some wait"
  shows "wait_ok wait"
proof -
  from assms(1) obtain addr where
    "node_ok w (\<lambda>v a. addr_of v = Some a) (\<lambda>_. True) 0 u addr (p_sent (sys_peer s)) (sys_peer s)"
    by (auto simp: server_ok_def)
  from node.request_wait [OF _ this assms(2), of "[]" c p' wait] assms(3,4) show ?thesis by (auto split: sum.splits)
qed

lemma round_keeps:
  assumes "act \<in> {send_gossip w [], hinted_handoff_round w [], failure_detection w []}"
  shows "keeps (node_ok w entry ids lo u addr before) act" "keeps (quorum_inv log) act"
  using assms by (auto intro: node.keeps_gossip_round node.keeps_handoff_round node.keeps_pings
      quorum.keeps_send_gossip quorum.keeps_hinted_handoff quorum.keeps_detection)

lemma joined_tables:
  assumes "cluster_ok W addr_of C"
    and "\<And>m. m \<in> set (parsed_messages from_slice rounds) \<Longrightarrow> \<exists>v. (v, addr, m) \<in> set (cl_net C)"
    and "Gossip t \<in> set (parsed_messages from_slice rounds)"
  shows "table_ok (\<lambda>v a. addr_of v = Some a) t"
  using assms(2) [OF assms(3)] cluster_okD(2) [OF assms(1)] by fastforce

lemma cluster_step_ok:
  assumes "cluster_step W addr_of C C'" "cluster_ok W addr_of C"
  shows "cluster_ok W addr_of C'"
  using assms(1)
proof (cases rule: cluster_step.cases)
  case (server_starts u addr st)
  with assms(2) new_server_ok [of addr_of u addr "W u" st] show ?thesis by (simp add: cluster_ok_def)
next
  case (server_greets u s seed p' r)
  note s = cluster_okD(1) [OF assms(2) server_greets(2)]
  show ?thesis
    unfolding server_greets(1)
    by (rule run_at_ok [OF assms(2) s server_greets(3) node.keeps_joining(1) server_wait [OF s]
        keeps_result [OF join_quorum(1) server_quorum [OF s] server_greets(3)]])
next
  case (server_joins u s from_slice rounds p' r)
  note s = cluster_okD(1) [OF assms(2) server_joins(2)]
  show ?thesis
    unfolding server_joins(1)
    by (rule run_at_ok [OF assms(2) s server_joins(4) node.keeps_joining(2) server_wait [OF s]
        keeps_result [OF join_quorum(2) server_quorum [OF s] server_joins(4)]])
      (rule joined_tables [OF assms(2) server_joins(3)])
next
  case (message_arrives xs v s m ys u p' r)
  note s = server_handled [OF cluster_okD(1) [OF assms(2) message_arrives(3)], of v m]
  have m: "msg_ok (\<lambda>v a. addr_of v = Some a) (\<lambda>_. True) m"
    by (rule cluster_okD(2) [OF assms(2), of v "p_addr (sys_peer s)"]) (simp add: message_arrives(2))
  show ?thesis
    unfolding message_arrives(1)
    by (rule run_at_ok [where c = "handle_incoming (W u) [] v m", OF cluster_ok_less(1) [OF assms(2)] s])
      (use message_arrives m server_wait [OF s] quorum_message [OF server_quorum, of _ _ _ s v m "W u"]
        cluster_okD(1) [OF assms(2) message_arrives(3)] in \<open>auto intro: node.keeps_incoming\<close>)
next
  case (message_lost xs parcel ys)
  with assms(2) show ?thesis by (auto intro: cluster_ok_less(2))
next
  case (leave_sent v port parcel)
  with assms(2) show ?thesis by (auto simp: cluster_ok_def remove_peer_def split: option.splits)
next
  case (client_asks u s m c p' r)
  note s = cluster_okD(1) [OF assms(2) client_asks(2)]
  show ?thesis
    unfolding client_asks(1)
    by (rule run_at_ok [OF assms(2) s client_asks(5) node.keeps_request [OF client_asks(4)]
        asked_wait [OF s client_asks(4,5)] keeps_result [OF quorum_request server_quorum [OF s] client_asks(5)]])
next
  case (client_answered u s wait p' r)
  note s = cluster_okD(1) [OF assms(2) client_answered(2)]
  show ?thesis
    unfolding client_answered(1)
    by (rule run_at_ok [OF assms(2) s client_answered(4) node.keeps_finish [OF server_wait [OF s client_answered(3)]]
        _ keeps_result [OF quorum_finish server_quorum [OF s] client_answered(4)]]) simp
next
  case (background_round u s act p' r)
  note s = cluster_okD(1) [OF assms(2) background_round(2)]
  show ?thesis
    unfolding background_round(1)
    by (rule run_at_ok [OF assms(2) s background_round(4) round_keeps(1) [OF background_round(3)]
        server_wait [OF s] keeps_result [OF round_keeps(2) [OF background_round(3)] server_quorum [OF s] background_round(4)]])
qed

lemma cluster_run_ok: "cluster_run W addr_of C C' \<Longrightarrow> cluster_ok W addr_of C \<Longrightarrow> cluster_ok W addr_of C'"
  by (induction rule: cluster_run.induct) (auto intro: cluster_step_ok)

lemma no_servers_ok: "cluster_ok W addr_of no_servers"
  by (simp add: cluster_ok_def no_servers_def)

section \<open>Following one put\<close>

definition holds_list :: "('b, 'x) json_lib_scheme \<Rightarrow> 'b server_storage \<Rightarrow> shopping_list \<Rightarrow> bool" where
  "holds_list w st lst \<longleftrightarrow>
     (\<exists>got. ss_get_shopping_list w True st (sl_id lst) = Ok (Some got) \<and> sl_content got = sl_content lst)"

text \<open>Messages that carry the request id \<open>i\<close>, and those by which a coordinator asks for the list to be stored.\<close>

fun names_request :: "string \<Rightarrow> msg \<Rightarrow> bool" where
  "names_request i (Ack j) = (j = i)"
| "names_request i (AckList j _) = (j = i)"
| "names_request i (ReplicateList j _ _) = (j = i)"
| "names_request i (Handoff j _ _) = (j = i)"
| "names_request i _ = False"

fun asks_to_store :: "string \<Rightarrow> shopping_list \<Rightarrow> msg \<Rightarrow> bool" where
  "asks_to_store i lst (ReplicateList j l b) = (j = i \<and> l = lst \<and> b)"
| "asks_to_store i lst (Handoff j l n) = (j = i \<and> l = lst)"
| "asks_to_store i lst _ = False"

lemma names_request_ok: "msg_ok entry (\<lambda>_. True) m \<Longrightarrow> msg_ok entry (\<lambda>j. j \<noteq> i) m \<longleftrightarrow> \<not> names_request i m"
  by (cases m) auto

lemma msg_ok_unnamed: "msg_ok entry (\<lambda>j. j \<noteq> i) m \<Longrightarrow> \<not> names_request i m"
  by (cases m) auto

lemma send_to_posts:
  "\<exists>sent. p_sent (fst (send_to w [] u m p)) = p_sent p @ sent \<and> (sent = [] \<or> (\<exists>addr. sent = [(Some u, addr, m)]))"
  by (simp add: send_to_def connect_to_peer_def close_conn_def act_run zmq_call_run log_sent_def act_ignore_apply
      mark_peer_failed_def clear_peer_failure_def split: option.split sum.split error.split)

lemma send_to_keeps_storage: "p_storage (fst (send_to w [] u m p)) = p_storage p"
  using keepsD [OF kept_storage.keeps_send_to [where s = "p_storage p"], of p w "[]" u m] by simp

lemma handoff_stores:
  assumes "ss_inv w s" "sl_wf lst"
  shows "\<exists>s'. ss_write_shopping_list_handoff w r True s lst n = Ok s' \<and> holds_list w s' lst"
proof -
  obtain s' where s': "ss_write_shopping_list_handoff w r True s lst n = Ok s'" "ss_inv w s'"
      "ss_lookup w s' (list_key w (sl_id lst)) = Some (entry_val w (lst, Some n))"
    using ss.put_law [OF assms(1), of "(lst, Some n)" r] assms(2) by (auto simp: ss_put_def)
  then have "ss_ok w s'" by (simp add: ss_inv_def)
  with ss_get_lookup [of w s' "sl_id lst"] s' show ?thesis
    by (auto simp: holds_list_def entry_val_def)
qed

text \<open>Delivering such a message to a server whose SQLite works: it holds the list, and sends at most one \<open>Ack\<close>.\<close>

lemma asked_server_stores:
  assumes "\<And>t. w_sql_ok w t" "ss_inv w (p_storage p)" "sl_wf lst" "asks_to_store i lst m"
    and "handle_incoming w [] v m p = (p', r)"
  shows "holds_list w (p_storage p') lst" "posted u p p' = [] \<or> (\<exists>addr. posted u p p' = [(u, addr, Ack i)])"
proof -
  obtain st q where q: "p' = fst (send_to w [] v (Ack i) q)" "p_storage q = st" "p_sent q = p_sent p" "holds_list w st lst"
  proof (cases m)
    case (ReplicateList j l b)
    obtain st where "ss_write_shopping_list w True True (p_storage p) lst = Ok st" "holds_list w st lst"
      using server_stores [OF assms(2,3), of True] by (auto simp: holds_list_def)
    with assms(1,4,5) show ?thesis
      by (intro that [of "p\<lparr>p_tick := p_tick p + 2, p_storage := st\<rparr>" st])
        (auto simp: ReplicateList handle_incoming_def handle_replicate_def act_run storage_runs act_ignore_apply)
  next
    case (Handoff j l n)
    obtain st where "ss_write_shopping_list_handoff w True True (p_storage p) lst n = Ok st" "holds_list w st lst"
      using handoff_stores [OF assms(2,3), of True] by blast
    with assms(1,4,5) show ?thesis
      by (intro that [of "p\<lparr>p_tick := p_tick p + 2, p_storage := st\<rparr>" st])
        (auto simp: Handoff handle_incoming_def handle_handoff_def act_run storage_runs act_ignore_apply)
  qed (use assms(4) in simp_all)
  from q send_to_keeps_storage [of w v "Ack i" q] show "holds_list w (p_storage p') lst" by simp
  from q send_to_posts [of w v "Ack i" q] show "posted u p p' = [] \<or> (\<exists>addr. posted u p p' = [(u, addr, Ack i)])"
    by (auto simp: posted_def)
qed

text \<open>What starting a put does: the request id is drawn at the first tick, and only messages that ask to store the
  list are sent.\<close>

definition sent_asks :: "string \<Rightarrow> shopping_list \<Rightarrow> (uuid option \<times> string \<times> msg) list \<Rightarrow> 'b peer \<Rightarrow> bool" where
  "sent_asks i lst before p \<longleftrightarrow>
     (\<exists>sent. p_sent p = before @ sent \<and> list_all (\<lambda>(_, _, m). asks_to_store i lst m) sent)"

lemma sent_asks_send:
  "asks_to_store i lst m \<Longrightarrow> keeps (sent_asks i lst before) (send_to (w :: ('b, 'x) world_scheme) [] u m)"
  unfolding keeps_def sent_asks_def
proof clarify
  fix p :: "'b peer" and sent
  assume m: "asks_to_store i lst m" and p: "p_sent p = before @ sent" "list_all (\<lambda>(_, _, m). asks_to_store i lst m) sent"
  obtain more where "p_sent (fst (send_to w [] u m p)) = before @ sent @ more"
      "more = [] \<or> (\<exists>addr. more = [(Some u, addr, m)])"
    using send_to_posts [of w u m p] p(1) by auto
  with m p(2) show "\<exists>sent. p_sent (fst (send_to w [] u m p)) = before @ sent \<and>
      list_all (\<lambda>(_, _, m). asks_to_store i lst m) sent"
    by (intro exI [of _ "sent @ more"]) auto
qed

lemma sent_asks_loop: "keeps (sent_asks i lst before) (replicate_loop w [] i lst (ReplicateList i lst True) last_u us)"
proof (induction us)
  case Nil
  show ?case by (simp only: replicate_loop.simps keeps_basic)
next
  case (Cons u us)
  have "keeps (sent_asks i lst before) (get_next_available_node [] last_u)"
    unfolding get_next_available_node_def by (simp add: keeps_def)
  with Cons show ?case
    by (auto intro!: keeps_intros sent_asks_send split: sum.split)
qed

lemma put_started:
  assumes "handle_incoming_proxy w [] c (PutList lst) p = (p', Ok (Some (Put_Wait c lst i)))"
    and "node_ok w entry (\<lambda>_. True) 0 u addr (p_sent p) p" "sl_wf lst"
  shows "i = uuid_to_string w (w_new_uuid w (p_tick p))" "Suc (p_tick p) \<le> p_tick p'"
    "\<forall>(_, _, m) \<in> set (posted u p p'). asks_to_store i lst m"
proof -
  let ?i = "uuid_to_string w (w_new_uuid w (p_tick p))"
  let ?q = "\<lparr>q_needed = WRITE_NODES, q_received = 0, q_responder = Some ?i, q_lists = [lst]\<rparr>"
  let ?p1 = "p\<lparr>p_tick := Suc (p_tick p), p_signalled := removeAll ?i (p_signalled p),
     p_in_flight := hm_insert ?i ?q (p_in_flight p)\<rparr>"
  obtain r where "act_try (put_start w [] c lst) p = (p', Ok r)" "r = Inr (Put_Wait c lst i)"
    using assms(1) unfolding handle_incoming_proxy_def msg.case act_bind_Ok by (fastforce split: sum.splits)
  then have "put_start w [] c lst p = (p', Ok (Put_Wait c lst i))" by (auto dest: act_try_Ok)
  moreover obtain us where us: "get_replicas w [] (sl_id lst) p = (p, Ok us)"
    by (simp add: get_replicas_def)
  moreover obtain q r where run: "replicate_loop w [] ?i lst (ReplicateList ?i lst True) (last us) us ?p1 = (q, r)"
    by force
  ultimately have i: "i = ?i" and run: "replicate_loop w [] ?i lst (ReplicateList ?i lst True) (last us) us ?p1 = (p', Ok ())"
    by (auto simp: put_start_def act_run send_write_replicate_start_def send_replicate_start_def new_request_id_def
        new_channel_def in_flight_insert_def split: if_splits sum.splits)
  show "i = ?i" by (rule i)
  have "node_ok w entry (\<lambda>_. True) (Suc (p_tick p)) u addr (p_sent p) ?p1"
    using assms(2,3) by (auto simp: node_ok_def intro: flight_ok_ops)
  from keeps_result [OF node.keeps_replicating [OF _ assms(3)] this run]
  show "Suc (p_tick p) \<le> p_tick p'" by (simp add: node_ok_def)
  have "sent_asks ?i lst (p_sent p) ?p1" by (simp add: sent_asks_def)
  from keeps_result [OF sent_asks_loop this run]
  show "\<forall>(_, _, m) \<in> set (posted u p p'). asks_to_store i lst m"
    by (auto simp: i sent_asks_def posted_def list_all_iff)
qed

text \<open>The id of the request is the one drawn by server \<open>a\<close> at tick \<open>t0\<close>, and by nobody else at any time.\<close>

definition drawn_once ::
    "(uuid \<Rightarrow> ('b, 'x) world_scheme) \<Rightarrow> uuid \<Rightarrow> nat \<Rightarrow> string \<Rightarrow> bool" where
  "drawn_once W a t0 i \<longleftrightarrow> i \<noteq> [] \<and>
     (\<forall>u t. uuid_to_string (W u) (w_new_uuid (W u) t) = i \<longrightarrow> u = a \<and> t = t0)"

definition tick_after :: "uuid \<Rightarrow> nat \<Rightarrow> uuid \<Rightarrow> nat" where
  "tick_after a t0 u = (if u = a then Suc t0 else 0)"

definition acks_travelling :: "string \<Rightarrow> parcel list \<Rightarrow> nat" where
  "acks_travelling i net = length (filter (\<lambda>(_, _, m). m = Ack i) net)"

definition asked_by :: "uuid \<Rightarrow> string \<Rightarrow> shopping_list \<Rightarrow> 'b delivery \<Rightarrow> bool" where
  "asked_by a i lst d \<longleftrightarrow> dl_from d = a \<and> asks_to_store i lst (dl_msg d)"

text \<open>Every acknowledgement of the request, counted by its coordinator or on its way, answers a delivery that
  stored the list.\<close>

definition put_inv ::
    "(uuid \<Rightarrow> ('b, 'x) world_scheme) \<Rightarrow> (uuid \<Rightarrow> string option) \<Rightarrow> uuid \<Rightarrow> nat \<Rightarrow> string \<Rightarrow> shopping_list \<Rightarrow>
     'b cluster \<Rightarrow> bool" where
  "put_inv W addr_of a t0 i lst C \<longleftrightarrow> cluster_ok W addr_of C \<and>
     (\<exists>s. cl_nodes C a = Some s \<and> Suc t0 \<le> p_tick (sys_peer s) \<and>
        acks_travelling i (cl_net C) + ack_count i (sys_log s) \<le> length (filter (asked_by a i lst) (cl_log C))) \<and>
     (\<forall>(v, _, m) \<in> set (cl_net C). names_request i m \<longrightarrow> m = Ack i \<or> v = a \<and> asks_to_store i lst m) \<and>
     (\<forall>d \<in> set (cl_log C). asked_by a i lst d \<longrightarrow> holds_list (W (dl_to d)) (dl_after d) lst)"

lemma unrelated_call:
  assumes "put_inv W addr_of a t0 i lst C" "drawn_once W a t0 i" "cl_nodes C u = Some s"
    and "\<And>addr before. keeps (node_ok (W u) (\<lambda>v a. addr_of v = Some a) (\<lambda>j. j \<noteq> i) (tick_after a t0 u) u addr before) c"
    and "c (sys_peer s) = (p', r)"
  shows "\<forall>(_, _, m) \<in> set (posted u (sys_peer s) p'). \<not> names_request i m" "tick_after a t0 u \<le> p_tick p'"
proof -
  let ?entry = "\<lambda>v a. addr_of v = Some a"
  have "server_ok (W u) addr_of u s"
    by (rule cluster_okD(1) [OF _ assms(3)]) (use assms(1) in \<open>simp add: put_inv_def\<close>)
  then obtain addr where "node_ok (W u) ?entry (\<lambda>_. True) 0 u addr (p_sent (sys_peer s)) (sys_peer s)"
    by (auto simp: server_ok_def)
  moreover have "tick_after a t0 u \<le> p_tick (sys_peer s)"
    using assms(1,3) by (auto simp: put_inv_def tick_after_def)
  moreover have "uuid_to_string (W u) (w_new_uuid (W u) t) \<noteq> i" if "tick_after a t0 u \<le> t" for t
    using assms(2) that by (auto simp: drawn_once_def tick_after_def split: if_splits)
  ultimately have "node_ok (W u) ?entry (\<lambda>j. j \<noteq> i) (tick_after a t0 u) u addr (p_sent (sys_peer s)) (sys_peer s)"
    using assms(2) by (auto simp: node_ok_def drawn_once_def)
  from call_ok [OF assms(4) this assms(5), of u]
  show "\<forall>(_, _, m) \<in> set (posted u (sys_peer s) p'). \<not> names_request i m" "tick_after a t0 u \<le> p_tick p'"
    by (auto simp: node_ok_def dest: msg_ok_unnamed)
qed

lemma no_acks: "\<forall>(_, _, m) \<in> set net. \<not> names_request i m \<Longrightarrow> acks_travelling i net = 0"
  by (force simp: acks_travelling_def filter_empty_conv)

lemma acks_travelling_append [simp]: "acks_travelling i (xs @ ys) = acks_travelling i xs + acks_travelling i ys"
  by (simp add: acks_travelling_def)

lemma put_inv_run_at:
  assumes "put_inv W addr_of a t0 i lst C" "cluster_ok W addr_of (run_at u s p' wait C)" "cl_nodes C u = Some s"
    and "\<forall>(_, _, m) \<in> set (posted u (sys_peer s) p'). \<not> names_request i m" "tick_after a t0 u \<le> p_tick p'"
  shows "put_inv W addr_of a t0 i lst (run_at u s p' wait C)"
  using assms no_acks [OF assms(4)]
  unfolding put_inv_def by (auto simp: run_at_def tick_after_def split: if_splits)

text \<open>Messages that arrive: one that has nothing to do with the request, an acknowledgement, and one that asks.\<close>

lemma ack_posts_nothing: "posted u p (fst (handle_incoming w [] v (Ack i) p)) = []"
  by (auto simp: posted_def handle_incoming_def handle_ack_def signal_quorom_def act_run split: option.split)

lemma ack_keeps:
  "p_tick (fst (handle_incoming w [] v (Ack i) p)) = p_tick p"
  "p_addr (fst (handle_incoming w [] v (Ack i) p)) = p_addr p"
  by (auto simp: handle_incoming_def handle_ack_def signal_quorom_def act_run split: option.split)

lemma incoming_tick:
  assumes "server_ok w addr_of u s" "msg_ok (\<lambda>v a. addr_of v = Some a) (\<lambda>_. True) m"
    and "handle_incoming w [] v m (sys_peer s) = (p', r)"
  shows "p_tick (sys_peer s) \<le> p_tick p'"
proof -
  obtain addr where "node_ok w (\<lambda>v a. addr_of v = Some a) (\<lambda>_. True) 0 u addr (p_sent (sys_peer s)) (sys_peer s)"
    using assms(1) by (auto simp: server_ok_def)
  then have "node_ok w (\<lambda>v a. addr_of v = Some a) (\<lambda>_. True) (p_tick (sys_peer s)) u addr (p_sent (sys_peer s)) (sys_peer s)"
    by (simp add: node_ok_def)
  from keeps_result [OF node.keeps_incoming [OF assms(2)] this assms(3)] show ?thesis by (simp add: node_ok_def)
qed

lemma acknowledges_named: "acknowledges i m \<Longrightarrow> names_request i m"
  by (cases m) (auto simp: acknowledges_def)

lemma put_inv_delivery:
  assumes inv: "put_inv W addr_of a t0 i lst C"
    and net: "cl_net C = xs @ (v, p_addr (sys_peer s), m) # ys" and s: "cl_nodes C u = Some s"
    and C': "C' = run_at u (handled v m s) p' (sys_wait s) (C\<lparr>cl_net := xs @ ys,
      cl_log := cl_log C @ [\<lparr>dl_to = u, dl_from = v, dl_msg = m, dl_after = p_storage p'\<rparr>]\<rparr>)"
    and ok: "cluster_ok W addr_of C'" and tick: "tick_after a t0 u \<le> p_tick p'"
    and new: "\<forall>(_, _, m) \<in> set (posted u (sys_peer s) p'). names_request i m \<longrightarrow> m = Ack i"
    and balance: "acks_travelling i (posted u (sys_peer s) p') + (if u = a \<and> acknowledges i m then 1 else 0) \<le>
      (if m = Ack i then 1 else 0) + (if v = a \<and> asks_to_store i lst m then 1 else 0)"
    and holds: "v = a \<and> asks_to_store i lst m \<longrightarrow> holds_list (W u) (p_storage p') lst"
  shows "put_inv W addr_of a t0 i lst C'"
proof -
  let ?ask = "\<lambda>(v, _, m). names_request i m \<longrightarrow> m = Ack i \<or> v = a \<and> asks_to_store i lst m"
  obtain sa where sa: "cl_nodes C a = Some sa" "Suc t0 \<le> p_tick (sys_peer sa)"
      "acks_travelling i (cl_net C) + ack_count i (sys_log sa) \<le> length (filter (asked_by a i lst) (cl_log C))"
    using inv by (auto simp: put_inv_def)
  have net': "cl_net C' = (xs @ ys) @ posted u (sys_peer s) p'"
    and log': "cl_log C' = cl_log C @ [\<lparr>dl_to = u, dl_from = v, dl_msg = m, dl_after = p_storage p'\<rparr>]"
    by (simp_all add: C' run_at_def)
  obtain sa' where sa': "cl_nodes C' a = Some sa'" "Suc t0 \<le> p_tick (sys_peer sa')"
      "ack_count i (sys_log sa') = ack_count i (sys_log sa) + (if u = a \<and> acknowledges i m then 1 else 0)"
    using sa(1,2) s tick by (cases "u = a") (auto simp: C' run_at_def tick_after_def)
  have "acks_travelling i (cl_net C) = acks_travelling i (xs @ ys) + (if m = Ack i then 1 else 0)"
    by (simp add: net acks_travelling_def)
  moreover have "length (filter (asked_by a i lst) (cl_log C')) = length (filter (asked_by a i lst) (cl_log C)) +
      (if v = a \<and> asks_to_store i lst m then 1 else 0)"
    by (simp add: log' asked_by_def)
  ultimately have "acks_travelling i (cl_net C') + ack_count i (sys_log sa') \<le>
      length (filter (asked_by a i lst) (cl_log C'))"
    using sa(3) sa'(3) balance unfolding net' acks_travelling_append by linarith
  moreover have "\<forall>x \<in> set (cl_net C'). ?ask x"
  proof -
    have "\<forall>x \<in> set (cl_net C). ?ask x" using inv by (simp add: put_inv_def)
    then have "\<forall>x \<in> set (xs @ ys). ?ask x" by (simp add: net)
    moreover have "\<forall>x \<in> set (posted u (sys_peer s) p'). ?ask x" using new by auto
    ultimately show ?thesis by (simp only: net' set_append ball_Un)
  qed
  moreover have "\<forall>d \<in> set (cl_log C'). asked_by a i lst d \<longrightarrow> holds_list (W (dl_to d)) (dl_after d) lst"
    using inv holds by (simp add: log' put_inv_def asked_by_def)
  ultimately show ?thesis using ok sa'(1,2) by (simp add: put_inv_def)
qed

lemma put_inv_arrives:
  assumes inv: "put_inv W addr_of a t0 i lst C" and once: "drawn_once W a t0 i"
    and sql: "\<And>u t. w_sql_ok (W u) t" and wf: "sl_wf lst"
    and net: "cl_net C = xs @ (v, p_addr (sys_peer s), m) # ys" and s: "cl_nodes C u = Some s"
    and run: "handle_incoming (W u) [] v m (sys_peer s) = (p', r)"
    and C': "C' = run_at u (handled v m s) p' (sys_wait s) (C\<lparr>cl_net := xs @ ys,
      cl_log := cl_log C @ [\<lparr>dl_to = u, dl_from = v, dl_msg = m, dl_after = p_storage p'\<rparr>]\<rparr>)"
    and ok: "cluster_ok W addr_of C'"
  shows "put_inv W addr_of a t0 i lst C'"
proof -
  have inv_net: "\<forall>(v, _, m) \<in> set (cl_net C). names_request i m \<longrightarrow> m = Ack i \<or> v = a \<and> asks_to_store i lst m"
    using inv by (simp add: put_inv_def)
  have server: "server_ok (W u) addr_of u s"
    by (rule cluster_okD(1) [OF _ s]) (use inv in \<open>simp add: put_inv_def\<close>)
  have m_ok: "msg_ok (\<lambda>v a. addr_of v = Some a) (\<lambda>_. True) m"
    by (rule cluster_okD(2) [of W addr_of C v "p_addr (sys_peer s)"]) (use inv net in \<open>simp_all add: put_inv_def\<close>)
  note deliver = put_inv_delivery [OF inv net s C' ok]
  have tick: "tick_after a t0 u \<le> p_tick (sys_peer s)" using inv s by (auto simp: put_inv_def tick_after_def)
  consider (unrelated) "\<not> names_request i m" | (ack) "m = Ack i" | (asked) "v = a" "asks_to_store i lst m" "m \<noteq> Ack i"
    using inv_net net by fastforce
  then show ?thesis
  proof cases
    case unrelated
    with m_ok have "msg_ok (\<lambda>v a. addr_of v = Some a) (\<lambda>j. j \<noteq> i) m" by (simp add: names_request_ok)
    note calls = unrelated_call [OF inv once s node.keeps_incoming [OF this] run]
    have "\<not> acknowledges i m" "\<not> asks_to_store i lst m" using unrelated by (cases m; auto simp: acknowledges_def)+
    with no_acks [OF calls(1)] calls show ?thesis by (intro deliver) auto
  next
    case ack
    have "posted u (sys_peer s) p' = []" "p_tick p' = p_tick (sys_peer s)"
      using ack_posts_nothing [of u "sys_peer s" "W u" v i] ack_keeps(1) [of "W u" v i "sys_peer s"] run
      by (simp_all add: ack)
    with tick show ?thesis by (intro deliver) (simp_all add: ack acks_travelling_def)
  next
    case asked
    have inv_u: "ss_inv (W u) (p_storage (sys_peer s))" using server by (auto simp: server_ok_def node_ok_def)
    note stored = asked_server_stores [OF sql inv_u wf asked(2) run]
    have "\<not> acknowledges i m" using asked(2) by (cases m; simp add: acknowledges_def)
    moreover have "acks_travelling i (posted u (sys_peer s) p') \<le> 1"
      "\<forall>(_, _, m) \<in> set (posted u (sys_peer s) p'). names_request i m \<longrightarrow> m = Ack i"
      using stored(2) [of u] by (auto simp: acks_travelling_def)
    moreover have "tick_after a t0 u \<le> p_tick p'"
      using incoming_tick [OF server m_ok run] tick by simp
    ultimately show ?thesis using stored(1) asked by (intro deliver) simp_all
  qed
qed

lemma put_inv_call:
  assumes "put_inv W addr_of a t0 i lst C" "drawn_once W a t0 i" "cl_nodes C u = Some s" "c (sys_peer s) = (p', r)"
    and "cluster_ok W addr_of (run_at u s p' wait C)"
    and "\<And>ids lo addr before. keeps (node_ok (W u) (\<lambda>v a. addr_of v = Some a) ids lo u addr before) c"
  shows "put_inv W addr_of a t0 i lst (run_at u s p' wait C)"
  by (rule put_inv_run_at [OF assms(1,5,3) unrelated_call [OF assms(1-3,6,4)]])

lemma put_inv_ok: "put_inv W addr_of a t0 i lst C \<Longrightarrow> cluster_ok W addr_of C"
  by (simp add: put_inv_def)

lemma put_inv_step:
  assumes inv: "put_inv W addr_of a t0 i lst C" and step: "cluster_step W addr_of C C'"
    and once: "drawn_once W a t0 i" and sql: "\<And>u t. w_sql_ok (W u) t" and wf: "sl_wf lst"
  shows "put_inv W addr_of a t0 i lst C'"
proof -
  have ok: "cluster_ok W addr_of C'" by (rule cluster_step_ok [OF step put_inv_ok [OF inv]])
  note call = put_inv_call [OF inv once]
  from step show ?thesis
  proof (cases rule: cluster_step.cases)
    case (server_starts u addr st)
    have "cl_nodes C a \<noteq> None" using inv by (auto simp: put_inv_def)
    with server_starts(2) have "u \<noteq> a" by auto
    with inv ok server_starts(1) show ?thesis by (simp add: put_inv_def)
  next
    case (server_greets u s seed p' r)
    show ?thesis
      unfolding server_greets(1)
      by (rule call [OF server_greets(2,3) ok [unfolded server_greets(1)] node.keeps_joining(1)])
  next
    case (server_joins u s from_slice rounds p' r)
    show ?thesis
      unfolding server_joins(1)
      by (rule call [OF server_joins(2,4) ok [unfolded server_joins(1)] node.keeps_joining(2)])
        (rule joined_tables [OF put_inv_ok [OF inv] server_joins(3)])
  next
    case (message_arrives xs v s m ys u p' r)
    show ?thesis
      by (rule put_inv_arrives [OF inv once sql wf message_arrives(2,3,4,1) ok])
  next
    case (message_lost xs parcel ys)
    have "acks_travelling i (xs @ ys) \<le> acks_travelling i (cl_net C)"
      by (simp add: message_lost(2) acks_travelling_def)
    with inv ok message_lost show ?thesis by (auto simp: put_inv_def)
  next
    case (leave_sent v port parcel)
    with inv ok show ?thesis by (auto simp: put_inv_def acks_travelling_def remove_peer_def split: option.splits)
  next
    case (client_asks u s m c p' r)
    show ?thesis
      unfolding client_asks(1)
      by (rule call [OF client_asks(2,5) ok [unfolded client_asks(1)] node.keeps_request [OF client_asks(4)]])
  next
    case (client_answered u s wait p' r)
    note wait = server_wait [OF cluster_okD(1) [OF put_inv_ok [OF inv] client_answered(2)] client_answered(3)]
    show ?thesis
      unfolding client_answered(1)
      by (rule call [OF client_answered(2,4) ok [unfolded client_answered(1)] node.keeps_finish [OF wait]])
  next
    case (background_round u s act p' r)
    show ?thesis
      unfolding background_round(1)
      by (rule call [OF background_round(2,4) ok [unfolded background_round(1)] round_keeps(1) [OF background_round(3)]])
  qed
qed

definition request_unused :: "string \<Rightarrow> 'b cluster \<Rightarrow> bool" where
  "request_unused i C \<longleftrightarrow> list_all (\<lambda>(_, _, m). \<not> names_request i m) (cl_net C) \<and>
     list_all (\<lambda>d. \<not> names_request i (dl_msg d)) (cl_log C) \<and>
     (\<forall>u s. cl_nodes C u = Some s \<longrightarrow> ack_count i (sys_log s) = 0)"

lemma asks_names: "asks_to_store i lst m \<Longrightarrow> names_request i m \<and> m \<noteq> Ack i"
  by (cases m) auto

lemma put_inv_start:
  assumes "cluster_ok W addr_of C" "request_unused i C" "cl_nodes C a = Some s" "sys_wait s = None" "sl_wf lst"
    and "handle_incoming_proxy (W a) [] c (PutList lst) (sys_peer s) = (p', Ok (Some (Put_Wait c lst i)))"
  shows "put_inv W addr_of a (p_tick (sys_peer s)) i lst (run_at a s p' (Some (Put_Wait c lst i)) C)"
proof -
  let ?C = "run_at a s p' (Some (Put_Wait c lst i)) C"
  have "cluster_step W addr_of C ?C"
    using client_asks [where W = W and addr_of = addr_of, OF assms(3,4) _ assms(6)] assms(5) by simp
  then have ok: "cluster_ok W addr_of ?C" by (rule cluster_step_ok [OF _ assms(1)])
  obtain addr where "node_ok (W a) (\<lambda>v a. addr_of v = Some a) (\<lambda>_. True) 0 a addr (p_sent (sys_peer s)) (sys_peer s)"
    using cluster_okD(1) [OF assms(1,3)] by (auto simp: server_ok_def)
  note started = put_started [OF assms(6) this assms(5)]
  have none: "\<not> names_request i m" if "(v, addr, m) \<in> set (cl_net C)" for v addr m
    using that assms(2) by (auto simp: request_unused_def list_all_iff)
  have "\<not> asked_by a i lst d" if "d \<in> set (cl_log C)" for d
    using that assms(2) asks_names by (auto simp: request_unused_def list_all_iff asked_by_def)
  moreover have "acks_travelling i (cl_net C) = 0"
    by (rule no_acks) (use none in blast)
  moreover have "acks_travelling i (posted a (sys_peer s) p') = 0"
    using started(3) asks_names by (force simp: acks_travelling_def filter_empty_conv)
  ultimately show ?thesis
    using ok none started(2,3) assms(2,3) by (auto simp: put_inv_def run_at_def request_unused_def posted_def)
qed

lemma put_inv_run:
  assumes "cluster_run W addr_of C C'" "put_inv W addr_of a t0 i lst C" "drawn_once W a t0 i"
    "\<And>u t. w_sql_ok (W u) t" "sl_wf lst"
  shows "put_inv W addr_of a t0 i lst C'"
  using assms by (induction rule: cluster_run.induct) (auto intro: put_inv_step)

lemma put_finish_stores:
  assumes "\<And>t. w_sql_ok w t" "ss_inv w (p_storage p)" "sl_wf lst" "i \<in> set (p_signalled p)"
    and "proxy_finish w [] (Put_Wait c lst i) p = (p', r)"
  shows "holds_list w (p_storage p') lst"
    "set (drop (length (p_proxied p)) (p_proxied p')) \<subseteq> {(c, AckList [] lst)}"
proof -
  obtain st where st: "ss_write_shopping_list w True True (p_storage p) lst = Ok st" "holds_list w st lst"
    using server_stores [OF assms(2,3), of True] by (auto simp: holds_list_def)
  let ?q = "p\<lparr>p_in_flight := hm_remove i (p_in_flight p), p_tick := p_tick p + 2, p_storage := st\<rparr>"
  have "p' = fst (send_to_proxy w [L_storage] c (AckList [] lst) ?q)"
    using assms(1,4,5) st(1) by (auto simp: proxy_finish_def put_finish_def send_replicate_finish_def act_run
        await_result_def in_flight_remove_run storage_runs act_ignore_apply)
  then show "holds_list w (p_storage p') lst"
      "set (drop (length (p_proxied p)) (p_proxied p')) \<subseteq> {(c, AckList [] lst)}"
    using st(2) by (auto simp: send_to_proxy_def act_run zmq_call_run split: option.splits)
qed

text \<open>C2: A put that was acknowledged to its client is stored where it should be: whatever happened in the cluster
  between (losses, reordering, servers that start, join or leave, other requests), when the client of a
  put is sent an \<open>AckList\<close>, the coordinator holds the list, and at least \<open>WRITE_NODES\<close> of the messages in which it
  asked for the list to be stored were delivered and left a storage that holds it. The request's id is
  assumed to be drawn only once, and SQLite to work.\<close>

theorem acknowledged_put_is_stored:
  assumes "cluster_ok W addr_of C0" "request_unused i C0" "cl_nodes C0 a = Some s0" "sys_wait s0 = None" "sl_wf lst"
    and "handle_incoming_proxy (W a) [] c (PutList lst) (sys_peer s0) = (p0, Ok (Some (Put_Wait c lst i)))"
    and "drawn_once W a (p_tick (sys_peer s0)) i" "\<And>u t. w_sql_ok (W u) t"
    and "cluster_run W addr_of (run_at a s0 p0 (Some (Put_Wait c lst i)) C0) C"
    and "cl_nodes C a = Some s" "proxy_finish (W a) [] (Put_Wait c lst i) (sys_peer s) = (p', r)"
    and "(c', AckList j l) \<in> set (drop (length (p_proxied (sys_peer s))) (p_proxied p'))"
  shows "c' = c \<and> l = lst \<and> holds_list (W a) (p_storage p') lst \<and>
    WRITE_NODES \<le> length (filter (\<lambda>d. asked_by a i lst d \<and> holds_list (W (dl_to d)) (dl_after d) lst) (cl_log C))"
proof -
  have inv: "put_inv W addr_of a (p_tick (sys_peer s0)) i lst C"
    by (rule put_inv_run [OF assms(9) put_inv_start [where W = W, OF assms(1-6)] assms(7,8,5)])
  have server: "server_ok (W a) addr_of a s" by (rule cluster_okD(1) [OF put_inv_ok [OF inv] assms(10)])
  have signalled: "i \<in> set (p_signalled (sys_peer s))"
  proof (rule ccontr)
    assume "i \<notin> set (p_signalled (sys_peer s))"
    with finish_unsignalled [of "Put_Wait c lst i" "sys_peer s" "W a"] assms(11,12) show False
      by (auto split: option.splits)
  qed
  have "ss_inv (W a) (p_storage (sys_peer s))" using server by (auto simp: server_ok_def node_ok_def)
  note stored = put_finish_stores [OF assms(8) this assms(5) signalled assms(11)]
  have "2 \<le> ack_count i (sys_log s)" using server_quorum [OF server] signalled by (auto simp: quorum_inv_def)
  then have "WRITE_NODES \<le> length (filter (asked_by a i lst) (cl_log C))"
    using inv assms(10) by (auto simp: put_inv_def WRITE_NODES_def)
  moreover have "filter (asked_by a i lst) (cl_log C) =
      filter (\<lambda>d. asked_by a i lst d \<and> holds_list (W (dl_to d)) (dl_after d) lst) (cl_log C)"
    by (rule filter_cong) (use inv in \<open>auto simp: put_inv_def\<close>)
  ultimately show ?thesis using stored assms(12) by auto
qed

section \<open>A concrete cluster\<close>

text \<open>Three servers that know each other; server 1 draws the UUID 4 at tick 2, all other draws give 5.\<close>

definition cluster_world :: "uuid \<Rightarrow> shopping_list world" where
  "cluster_world u = sample_world\<lparr>w_new_uuid := \<lambda>t. if u = 1 \<and> t = 2 then 4 else 5\<rparr>"

definition sample_addr :: "uuid \<Rightarrow> string option" where
  "sample_addr u = (if u = 1 then Some ''a'' else if u = 2 then Some ''b'' else if u = 3 then Some ''c'' else None)"

definition sample_server :: "uuid \<Rightarrow> shopping_list peer" where
  "sample_server u = sample_member\<lparr>p_uuid := u, p_addr := the (sample_addr u),
     p_storage := \<lparr>ss_server_id = u, ss_rows = []\<rparr>\<rparr>"

definition sample_cluster :: "shopping_list cluster" where
  "sample_cluster = \<lparr>cl_nodes = \<lambda>u. if u \<in> {1, 2, 3}
       then Some \<lparr>sys_peer = sample_server u, sys_wait = None, sys_log = []\<rparr> else None,
     cl_net = [], cl_log = []\<rparr>"

lemma cluster_world_simps [simp]:
  "uuid_to_string (cluster_world u) x = replicate (unat x) CHR ''x''"
  "uuid_parse (cluster_world u) = uuid_parse sample_world"
  "sl_to_json (cluster_world u) = Some" "sl_from_json (cluster_world u) = Some"
  "w_zmq (cluster_world u) t = None" "w_sql_ok (cluster_world u) t = True"
  "w_new_uuid (cluster_world u) t = (if u = 1 \<and> t = 2 then 4 else 5)"
  "vnode_hash (cluster_world u) = vnode_hash sample_world" "ring_hash (cluster_world u) = ring_hash sample_world"
  by (simp_all add: cluster_world_def fun_eq_iff vnode_hash_def ring_hash_def)

lemma cluster_world_laws [simp]:
  "reliable (cluster_world u)" "json_law (cluster_world u)" "uuid_law (cluster_world u)"
  "get_preference_list (cluster_world u) = get_preference_list sample_world"
  by (simp_all add: reliable_def json_law_def uuid_law_def get_preference_list_def fun_eq_iff)

lemma sample_cluster_ok: "cluster_ok cluster_world sample_addr sample_cluster"
proof -
  have ring: "ring_sound (cluster_world u) (\<lambda>v a. sample_addr v = Some a)
      \<lparr>hr_ring = [(3, 1), (4, 2), (5, 3)], hr_virtual_nodes = 3, hr_replicas = 3\<rparr>" for u
    by (auto simp: ring_sound_def ring_ok_def bt_wf_def get_all_servers_def sample_addr_def vnode_hash_sample_world
        intro!: exI [of _ 0])
  have "server_ok (cluster_world u) sample_addr u \<lparr>sys_peer = sample_server u, sys_wait = None, sys_log = []\<rparr>"
    if "u = 1 \<or> u = 2 \<or> u = 3" for u
    using that ring [of u] by (auto simp: server_ok_def node_ok_def sample_server_def sample_member_def quorum_inv_def
        flight_ok_def ss_inv_def ss_ok_def table_ok_def sample_addr_def hm_wf_def)
  then show ?thesis by (auto simp: cluster_ok_def sample_cluster_def)
qed

lemma sample_server_1: "sample_server 1 = sample_member"
  by (simp add: sample_server_def sample_member_def sample_addr_def)

lemma replica_delivery:
  assumes "u = 2 \<or> u = 3"
  shows "\<exists>p'. handle_incoming (cluster_world u) [] 1 (ReplicateList i milk_list True) (sample_server u) = (p', Ok ()) \<and>
    posted u (sample_server u) p' = [(u, ''a'', Ack i)]"
proof -
  have "ss_inv (cluster_world u) (p_storage (sample_server u))"
    by (simp add: sample_server_def ss_inv_def ss_ok_def)
  moreover have "hm_get (p_membership (sample_server u)) 1 = Some ''a''" by (simp add: sample_server_def)
  ultimately show ?thesis
    using replica_run [of "cluster_world u" "sample_server u" milk_list 1 "''a''" i]
    by (auto simp: posted_def)
qed

lemma system_update:
  "s\<lparr>sys_log := log, sys_peer := p\<rparr> = \<lparr>sys_peer = p, sys_wait = sys_wait s, sys_log = log\<rparr>"
  by (cases s) simp

lemma first_arrives:
  assumes "cluster_run W addr_of C0 C" "cl_net C = (v, p_addr (sys_peer s), m) # ys" "cl_nodes C u = Some s"
    and "handle_incoming (W u) [] v m (sys_peer s) = (p', r)"
  shows "\<exists>C'. cluster_run W addr_of C0 C' \<and>
    cl_nodes C' = (cl_nodes C)(u \<mapsto> \<lparr>sys_peer = p', sys_wait = sys_wait s, sys_log = sys_log s @ [(v, m)]\<rparr>) \<and>
    cl_net C' = ys @ posted u (sys_peer s) p'"
  by (rule exI, rule conjI, rule cluster_run_step [OF assms(1) message_arrives [of C "[]" v s m ys u W p' r, OF _ assms(3,4)]])
    (simp_all add: assms(2) run_at_def handled_def system_update)

text \<open>A put of server 1: its two requests are delivered, then the two acknowledgements.\<close>

lemma sample_cluster_run:
  fixes c :: "u8 list"
  defines "wait \<equiv> Put_Wait c milk_list ''xxxx''"
  shows "\<exists>p0 C s p'. handle_incoming_proxy (cluster_world 1) [] c (PutList milk_list) sample_member = (p0, Ok (Some wait)) \<and>
    cluster_run cluster_world sample_addr
      (run_at 1 \<lparr>sys_peer = sample_member, sys_wait = None, sys_log = []\<rparr> p0 (Some wait) sample_cluster) C \<and>
    cl_nodes C 1 = Some s \<and> proxy_finish (cluster_world 1) [] wait (sys_peer s) = (p', Ok ()) \<and>
    p_proxied (sys_peer s) = [] \<and> p_proxied p' = [(c, AckList [] milk_list)]"
proof -
  let ?W = "cluster_world" and ?i = "''xxxx''"
  let ?m = "ReplicateList ?i milk_list True"
  have us: "[2, 3] = drop 1 (get_preference_list (?W 1) (p_hashring sample_member) (sl_id milk_list))"
    "?i = uuid_to_string (?W 1) (w_new_uuid (?W 1) (p_tick sample_member))" by simp_all
  have inv: "ss_inv (?W 1) (p_storage sample_member)"
    using sample_member_simps(1) by (simp add: sample_member_def ss_inv_def ss_ok_def)
  let ?p0 = "after_put ?i milk_list [2, 3] sample_member"
  have start: "put_start (?W 1) [] c milk_list sample_member = (?p0, Ok wait)"
    unfolding wait_def by (rule put_start_reliable [OF _ us(1) _ _ us(2)]) simp_all
  obtain p1 p2 p3 where acks: "handle_incoming (?W 1) [] 2 (Ack ?i) ?p0 = (p1, Ok ())"
      "handle_incoming (?W 1) [] 3 (Ack ?i) p1 = (p2, Ok ())"
      "proxy_finish (?W 1) [] wait p2 = (p3, Ok ())" "p_proxied p2 = []" "p_proxied p3 = [(c, AckList [] milk_list)]"
    using put_run [OF _ inv _ us(1) _ _ us(2), of c 2 3] start unfolding wait_def by auto
  obtain q2 q3 where replicas: "handle_incoming (?W 2) [] 1 ?m (sample_server 2) = (q2, Ok ())"
      "posted 2 (sample_server 2) q2 = [(2, ''a'', Ack ?i)]"
      "handle_incoming (?W 3) [] 1 ?m (sample_server 3) = (q3, Ok ())"
      "posted 3 (sample_server 3) q3 = [(3, ''a'', Ack ?i)]"
    using replica_delivery [of 2 ?i] replica_delivery [of 3 ?i] by blast
  let ?C1 = "run_at 1 \<lparr>sys_peer = sample_member, sys_wait = None, sys_log = []\<rparr> ?p0 (Some wait) sample_cluster"
  have C1: "cl_nodes ?C1 = (cl_nodes sample_cluster)(1 \<mapsto> \<lparr>sys_peer = ?p0, sys_wait = Some wait, sys_log = []\<rparr>)"
      "cl_net ?C1 = [(1, ''b'', ?m), (1, ''c'', ?m)]"
    by (simp_all add: run_at_def sample_cluster_def posted_def)
  obtain C2 where C2: "cluster_run ?W sample_addr ?C1 C2" "cl_net C2 = [(1, ''c'', ?m), (2, ''a'', Ack ?i)]"
      "cl_nodes C2 = (cl_nodes ?C1)(2 \<mapsto> \<lparr>sys_peer = q2, sys_wait = None, sys_log = [(1, ?m)]\<rparr>)"
    using first_arrives [OF cluster_run_refl, of ?C1 1 "\<lparr>sys_peer = sample_server 2, sys_wait = None, sys_log = []\<rparr>" ?m
        "[(1, ''c'', ?m)]" 2 ?W q2 "Ok ()" sample_addr] replicas(1,2) C1
    by (auto simp: sample_cluster_def sample_server_def sample_addr_def)
  obtain C3 where C3: "cluster_run ?W sample_addr ?C1 C3" "cl_net C3 = [(2, ''a'', Ack ?i), (3, ''a'', Ack ?i)]"
      "cl_nodes C3 = (cl_nodes C2)(3 \<mapsto> \<lparr>sys_peer = q3, sys_wait = None, sys_log = [(1, ?m)]\<rparr>)"
    using first_arrives [OF C2(1), of 1 "\<lparr>sys_peer = sample_server 3, sys_wait = None, sys_log = []\<rparr>" ?m
        "[(2, ''a'', Ack ?i)]" 3 q3 "Ok ()"] replicas(3,4) C1(1) C2(2,3)
    by (auto simp: sample_cluster_def sample_server_def sample_addr_def)
  have "p_addr (after_sends us m p) = p_addr p" for us m and p :: "shopping_list peer"
    by (induction us arbitrary: p) (simp_all add: after_sends_Cons, simp_all add: after_sends_def after_send_def)
  then have addr: "p_addr ?p0 = ''a''" "p_addr p1 = ''a''"
    using ack_keeps(2) [of "?W 1" 2 ?i ?p0] acks(1) by (simp_all add: after_put_def sample_member_def)
  obtain C4 where C4: "cluster_run ?W sample_addr ?C1 C4" "cl_net C4 = [(3, ''a'', Ack ?i)]"
      "cl_nodes C4 = (cl_nodes C3)(1 \<mapsto> \<lparr>sys_peer = p1, sys_wait = Some wait, sys_log = [(2, Ack ?i)]\<rparr>)"
    using first_arrives [OF C3(1), of 2 "\<lparr>sys_peer = ?p0, sys_wait = Some wait, sys_log = []\<rparr>" "Ack ?i"
        "[(3, ''a'', Ack ?i)]" 1 p1 "Ok ()"] acks(1) C1(1) C2(3) C3(2,3) addr
        ack_posts_nothing [of 1 ?p0 "?W 1" 2 ?i]
    by auto
  obtain C5 where C5: "cluster_run ?W sample_addr ?C1 C5"
      "cl_nodes C5 = (cl_nodes C4)(1 \<mapsto> \<lparr>sys_peer = p2, sys_wait = Some wait, sys_log = [(2, Ack ?i), (3, Ack ?i)]\<rparr>)"
    using first_arrives [OF C4(1), of 3 "\<lparr>sys_peer = p1, sys_wait = Some wait, sys_log = [(2, Ack ?i)]\<rparr>" "Ack ?i"
        "[]" 1 p2 "Ok ()"] acks(2) C4(2,3) addr by auto
  have "handle_incoming_proxy (?W 1) [] c (PutList milk_list) sample_member = (?p0, Ok (Some wait))"
    using start by (simp add: handle_incoming_proxy_def act_run)
  with C5 acks(3-5) show ?thesis by (intro exI [of _ ?p0] exI [of _ C5]) auto
qed

theorem acknowledged_put_is_stored_witness:
  "\<exists>(C :: shopping_list cluster) (p' :: shopping_list peer). cl_nodes C 1 \<noteq> None \<and> holds_list (cluster_world 1) (p_storage p') milk_list \<and>
     ([9], AckList [] milk_list) \<in> set (p_proxied p') \<and>
     WRITE_NODES \<le> length (filter (\<lambda>d. asked_by 1 ''xxxx'' milk_list d \<and>
       holds_list (cluster_world (dl_to d)) (dl_after d) milk_list) (cl_log C))"
proof -
  let ?s0 = "\<lparr>sys_peer = sample_member, sys_wait = None, sys_log = []\<rparr>"
  obtain p0 C s p' where run:
      "handle_incoming_proxy (cluster_world 1) [] [9] (PutList milk_list) sample_member =
         (p0, Ok (Some (Put_Wait [9] milk_list ''xxxx'')))"
      "cluster_run cluster_world sample_addr
         (run_at 1 ?s0 p0 (Some (Put_Wait [9] milk_list ''xxxx'')) sample_cluster) C"
      "cl_nodes C 1 = Some s" "proxy_finish (cluster_world 1) [] (Put_Wait [9] milk_list ''xxxx'') (sys_peer s) = (p', Ok ())"
      "p_proxied (sys_peer s) = []" "p_proxied p' = [([9], AckList [] milk_list)]"
    using sample_cluster_run [of "[9]"] by blast
  have "replicate (unat (5 :: uuid)) CHR ''x'' \<noteq> ''xxxx''"
    by (rule notI, drule arg_cong [where f = length]) simp
  then have once: "drawn_once cluster_world 1 2 ''xxxx''" by (auto simp: drawn_once_def)
  have "request_unused ''xxxx'' sample_cluster" "cl_nodes sample_cluster 1 = Some ?s0"
    by (auto simp: request_unused_def sample_cluster_def ack_count_def sample_server_1 split: if_splits)
  note stored = acknowledged_put_is_stored [OF sample_cluster_ok this _ _ _ _ _ run(2-4), of "[9]" "[]" milk_list]
  have "holds_list (cluster_world 1) (p_storage p') milk_list"
    "WRITE_NODES \<le> length (filter (\<lambda>d. asked_by 1 ''xxxx'' milk_list d \<and>
       holds_list (cluster_world (dl_to d)) (dl_after d) milk_list) (cl_log C))"
    using stored run(1,5,6) once by simp_all
  with run(3,6) show ?thesis by (intro exI [of _ C] exI [of _ p'] conjI) simp_all
qed

text \<open>C6: In every state a cluster reaches, whatever is lost, reordered or fails, its data is well formed: every server's
  table of lists can be read back, and the lists in quorum records, in waiting requests and in messages on their
  way are proper lists, so that no step meets a list it cannot handle.\<close>

theorem cluster_data_well_formed:
  assumes "cluster_run W addr_of no_servers C" "cl_nodes C u = Some s"
  shows "ss_inv (W u) (p_storage (sys_peer s)) \<and> flight_ok (p_in_flight (sys_peer s)) \<and>
    (case sys_wait s of None \<Rightarrow> True | Some wait \<Rightarrow> wait_ok wait) \<and>
    list_all (\<lambda>(_, _, m). msg_lists_wf m) (cl_net C)"
proof -
  have ok: "cluster_ok W addr_of C" by (rule cluster_run_ok [OF assms(1) no_servers_ok])
  have "msg_lists_wf m" if "(v, addr, m) \<in> set (cl_net C)" for v addr m
    using cluster_okD(2) [OF ok that] by (rule msg_ok_lists)
  moreover have "server_ok (W u) addr_of u s" by (rule cluster_okD(1) [OF ok assms(2)])
  ultimately show ?thesis
    by (auto simp: server_ok_def node_ok_def list_all_iff split: option.split)
qed

text \<open>C5: In every state a cluster reaches, the servers' tables tell the truth: each entry of a membership table, in a
  server or in gossip on its way, is the address of that server, and each server on a ring has an address,
  so that no list is placed on a server that does not exist and no message goes to the wrong one.\<close>

theorem tables_tell_the_truth:
  assumes "cluster_run W addr_of no_servers C" "cl_nodes C u = Some s"
  shows "p_uuid (sys_peer s) = u \<and> addr_of u = Some (p_addr (sys_peer s)) \<and>
    list_all (\<lambda>(v, addr). addr_of v = Some addr) (p_membership (sys_peer s)) \<and>
    (\<forall>v \<in> get_all_servers (p_hashring (sys_peer s)). addr_of v \<noteq> None) \<and>
    (\<forall>v addr table. (v, addr, Gossip table) \<in> set (cl_net C) \<longrightarrow> list_all (\<lambda>(v, addr). addr_of v = Some addr) table)"
proof -
  have ok: "cluster_ok W addr_of C" by (rule cluster_run_ok [OF assms(1) no_servers_ok])
  have "server_ok (W u) addr_of u s" by (rule cluster_okD(1) [OF ok assms(2)])
  then show ?thesis
    using cluster_okD(2) [OF ok] by (fastforce simp: server_ok_def node_ok_def table_ok_def ring_sound_def)
qed

lemma sample_joined:
  "\<exists>C s. cluster_run cluster_world sample_addr no_servers C \<and> cl_nodes C 1 = Some s \<and>
     p_storage (sys_peer s) = \<lparr>ss_server_id = 1, ss_rows = []\<rparr>"
proof -
  let ?st = "\<lparr>ss_server_id = 1, ss_rows = []\<rparr>"
  have "ss_inv (cluster_world 1) ?st" by (simp add: ss_inv_def ss_ok_def)
  from cluster_run_step [OF cluster_run_refl server_starts [where W = cluster_world and addr_of = sample_addr,
      of no_servers 1 "''a''", OF _ _ this]]
  show ?thesis by (intro exI conjI) (assumption | simp add: no_servers_def sample_addr_def peer_new_def)+
qed

theorem cluster_data_well_formed_witness:
  "\<exists>C s. cluster_run cluster_world sample_addr no_servers C \<and> cl_nodes C 1 = Some s \<and>
     ss_inv (cluster_world 1) (p_storage (sys_peer s))"
  using sample_joined cluster_data_well_formed [of cluster_world sample_addr _ 1] by metis

theorem tables_tell_the_truth_witness:
  "\<exists>C s. cluster_run cluster_world sample_addr no_servers C \<and> cl_nodes C 1 = Some s \<and>
     list_all (\<lambda>(v, addr). sample_addr v = Some addr) (p_membership (sys_peer s))"
  using sample_joined tables_tell_the_truth [of cluster_world sample_addr _ 1] by metis

end
