(* ===== verification/Startup.thy ===== *)
theory Startup
  imports Cluster Cli
begin

text \<open>
  The commands of the program that run servers (\<open>src/main.rs\<close>): the port file, the five servers that are
  created and joined through the first, and the command that asks a server to leave.
\<close>

section \<open>The port file\<close>

type_synonym u16 = "16 word"

text \<open>\<open>str::parse::<u16>\<close>.\<close>

definition parse_u16 :: "string \<Rightarrow> nat option" where
  "parse_u16 s = (case parse_usize s of Some n \<Rightarrow> if n < 2 ^ 16 then Some n else None | None \<Rightarrow> None)"

text \<open>The text that is written to \<open>data/port.txt\<close>, and what is read from it (\<open>None\<close>: no such file).\<close>

definition write_port :: "u16 \<Rightarrow> string" where
  "write_port port = usize_to_string (unat port) @ [char_of (10 :: nat)]"

definition read_port :: "string option \<Rightarrow> u16 res" where
  "read_port contents =
     (case contents of
        None \<Rightarrow> Err (Fail ''no such file'')
      | Some text \<Rightarrow>
          (case parse_u16 (trim text) of
             None \<Rightarrow> Err (Panic ''error on port parse'')
           | Some n \<Rightarrow> Ok (of_nat n)))"

lemma digit_char: "d < 10 \<Longrightarrow> (of_char (char_of (48 + d)) :: nat) = 48 + d"
  by simp

lemma digits_value_append: "digits_value acc (xs @ ys) = digits_value (digits_value acc xs) ys"
  by (induction xs arbitrary: acc) simp_all

lemma decimal_digits:
  "usize_to_string n \<noteq> [] \<and> list_all is_ascii_digit (usize_to_string n) \<and> digits_value 0 (usize_to_string n) = n"
proof (induction n rule: usize_to_string.induct)
  case (1 n)
  have digit: "is_ascii_digit (char_of (48 + d))" "of_char (char_of (48 + d)) - (48 :: nat) = d" if "d < 10" for d :: nat
    using digit_char [OF that] that by (simp_all add: is_ascii_digit_def Let_def)
  show ?case
  proof (cases "n < 10")
    case True
    then show ?thesis by (subst (1 2 3) usize_to_string.simps) (simp add: digit)
  next
    case False
    with 1 digit [of "n mod 10"] show ?thesis
      by (subst (1 2 3) usize_to_string.simps) (simp add: digits_value_append)
  qed
qed

lemma parse_decimal: "n < 2 ^ 64 \<Longrightarrow> parse_usize (usize_to_string n) = Some n"
proof -
  assume n: "n < 2 ^ 64"
  obtain c cs where ds: "usize_to_string n = c # cs" "list_all is_ascii_digit (c # cs)" "digits_value 0 (c # cs) = n"
    using decimal_digits [of n] by (cases "usize_to_string n") auto
  then have "c \<noteq> CHR ''+''" by (auto simp: is_ascii_digit_def Let_def)
  then have "(case c # cs of [] \<Rightarrow> [] | [c] \<Rightarrow> [c] | c # cs \<Rightarrow> if c = CHR ''+'' then cs else c # cs) = c # cs"
    by (simp split: list.split)
  with ds n show ?thesis by (simp add: parse_usize_def Let_def)
qed

lemma trim_line:
  assumes "list_all is_ascii_digit ds"
  shows "trim (ds @ [char_of (10 :: nat)]) = ds"
proof -
  have plain: "\<not> is_white_space c" if "is_ascii_digit c" for c
    using that by (auto simp: is_ascii_digit_def is_white_space_def Let_def)
  have newline: "is_white_space (char_of (10 :: nat))" by (simp add: is_white_space_def)
  have keep: "dropWhile is_white_space (xs @ ys) = xs @ ys" if "list_all is_ascii_digit xs" "xs \<noteq> []" for xs ys
    using that plain by (cases xs) auto
  show ?thesis
  proof (cases "ds = []")
    case False
    have "dropWhile is_white_space (rev (ds @ [char_of (10 :: nat)])) = rev ds"
      using newline keep [of "rev ds" "[]"] assms False by (simp add: list_all_rev)
    with keep [OF assms False] show ?thesis by (simp add: trim_def)
  qed (simp add: trim_def newline)
qed

lemma port_read_back: "read_port (Some (write_port port)) = Ok port"
proof -
  have "unat port < 2 ^ 16" using unsigned_less [of port] by simp
  then show ?thesis
    using decimal_digits [of "unat port"] parse_decimal [of "unat port"]
    by (simp add: read_port_def write_port_def trim_line parse_u16_def)
qed


section \<open>The servers of the program\<close>

definition seed_addr :: string where
  "seed_addr = ''tcp://127.0.0.1:6000''"

definition local_addr :: "u16 \<Rightarrow> string" where
  "local_addr port = ''tcp://127.0.0.1:'' @ usize_to_string (unat port)"

text \<open>The servers after the first, one port each; the next free port is returned too.\<close>

fun other_servers ::
    "(uuid \<Rightarrow> ('b, 'x) world_scheme) \<Rightarrow> (uuid \<Rightarrow> 'b server_storage) \<Rightarrow> u16 \<Rightarrow> uuid list \<Rightarrow> 'b peer list \<times> u16" where
  "other_servers W storage port [] = ([], port)"
| "other_servers W storage port (u # us) =
     (let (peers, free_port) = other_servers W storage (port + 1) us
      in (peer_new (W u) u (local_addr port) (storage u) # peers, free_port))"

text \<open>Joining while only the seed runs and nothing gets lost: the seed handles the greeting, and what it sends to the
  address of the new server is what \<open>join\<close> receives.\<close>

definition join_seed ::
    "(uuid \<Rightarrow> ('b, 'x) world_scheme) \<Rightarrow> 'b peer \<Rightarrow> 'b peer \<Rightarrow> 'b peer \<times> 'b peer \<times> unit res" where
  "join_seed W seed p =
     (case join_hello (W (p_uuid p)) seed_addr p of
        (p1, Inl e) \<Rightarrow> (seed, p1, Inl e)
      | (p1, Inr _) \<Rightarrow>
          (let seed' = fst (handle_incoming (W (p_uuid seed)) [] (p_uuid p) (Hello (p_uuid p) (p_addr p)) seed);
               answers = map (\<lambda>(_, _, m). (Ok m, Ok m, Ok m))
                 (filter (\<lambda>(_, addr, _). addr = p_addr p) (posted (p_uuid seed) seed seed'))
           in (seed', join_finish (W (p_uuid p)) [] Some answers p1)))"

fun join_all ::
    "(uuid \<Rightarrow> ('b, 'x) world_scheme) \<Rightarrow> 'b peer \<Rightarrow> 'b peer list \<Rightarrow> 'b peer \<times> ('b peer \<times> unit res) list" where
  "join_all W seed [] = (seed, [])"
| "join_all W seed (p # ps) =
     (let (seed', joined) = join_seed W seed p; (seed'', others) = join_all W seed' ps
      in (seed'', joined # others))"

text \<open>The command \<open>server\<close>, up to its endless loop, for the servers after the first: the drawn UUIDs and the
  opened storages are given. A server that could not join is reported and started all the same.\<close>

definition start_servers ::
    "(uuid \<Rightarrow> ('b, 'x) world_scheme) \<Rightarrow> (uuid \<Rightarrow> 'b server_storage) \<Rightarrow> uuid \<Rightarrow> uuid list \<Rightarrow>
     'b peer \<times> ('b peer \<times> unit res) list \<times> string" where
  "start_servers W storage u1 us =
     (let seed = peer_new (W u1) u1 seed_addr (storage u1);
          (others, port) = other_servers W storage 6001 us;
          (seed', joined) = join_all W seed others
      in (seed', joined, write_port port))"

definition main_server ::
    "(uuid \<Rightarrow> ('b, 'x) world_scheme) \<Rightarrow> (uuid \<Rightarrow> 'b server_storage) \<Rightarrow> uuid \<Rightarrow> uuid \<Rightarrow> uuid \<Rightarrow> uuid \<Rightarrow> uuid \<Rightarrow>
     'b peer \<times> ('b peer \<times> unit res) list \<times> string" where
  "main_server W storage u1 u2 u3 u4 u5 = start_servers W storage u1 [u2, u3, u4, u5]"

text \<open>What a seed makes of a greeting on a network that works.\<close>

lemma hello_run:
  assumes "reliable w" "t = membership_insert (p_membership p) u addr"
  shows "\<exists>q sent. handle_incoming w [] v (Hello u addr) p = (q, Ok ()) \<and> p_membership q = t \<and> p_uuid q = p_uuid p \<and>
    p_sent q = p_sent p @ (Some u, addr, Gossip t) # sent \<and> list_all (\<lambda>(_, _, m). m = Gossip t) sent"
proof -
  let ?p = "p\<lparr>p_membership := t\<rparr>"
  let ?q = "after_send u addr (Gossip t) ?p"
  have get: "hm_get t u = Some addr" by (simp add: assms(2) membership_insert_def)
  then have "hm_contains t u" by (simp add: hm_contains_def)
  with get have to: "send_gossip_to w [] u ?p = (?q, Ok ())"
    using send_to_reliable [OF assms(1), of ?p u addr "[]" "Gossip t"] by (simp add: send_gossip_to_def act_run)
  let ?v = "hm_keys t ! (w_choose w (p_tick ?q) mod length (hm_keys t))"
  let ?r = "?q\<lparr>p_tick := p_tick ?q + 1\<rparr>"
  have "t \<noteq> []" using get by auto
  then have "?v \<in> set (hm_keys t)" by (intro nth_mem) simp
  then obtain addr' where v: "hm_get t ?v = Some addr'"
    by (metis map_of_eq_None_iff not_None_eq set_map)
  have "send_gossip w [] ?q = (if ?v = p_uuid p then (?r, Ok ()) else (after_send ?v addr' (Gossip t) ?r, Ok ()))"
    using \<open>t \<noteq> []\<close> v send_to_reliable [OF assms(1), of ?r ?v addr' "[]" "Gossip t"]
    by (simp add: send_gossip_def act_run after_send_def)
  then have "handle_incoming w [] v (Hello u addr) p =
      (if ?v = p_uuid p then ?r else after_send ?v addr' (Gossip t) ?r, Ok ())"
    using to by (simp add: handle_incoming_def handle_hello_def act_run act_ignore_apply assms(2))
  then show ?thesis by (auto simp: after_send_def)
qed

lemma parsed_plain: "parsed_messages Some (map (\<lambda>(_, _, m). (Ok m, Ok m, Ok m)) parcels) = map (\<lambda>(_, _, m). m) parcels"
  by (induction parcels) (auto simp: parsed_messages_def parse_round_def map_filter_simps)

lemma join_seed_run:
  assumes "\<And>u. reliable (W u)" "t = membership_insert (p_membership seed) (p_uuid p) (p_addr p)"
  shows "\<exists>seed' p'. join_seed W seed p = (seed', p', Ok ()) \<and> p_membership seed' = t \<and> p_uuid seed' = p_uuid seed \<and>
    p_membership p' = t"
proof -
  obtain seed' sent where seed: "handle_incoming (W (p_uuid seed)) [] (p_uuid p) (Hello (p_uuid p) (p_addr p)) seed = (seed', Ok ())"
      "p_membership seed' = t" "p_uuid seed' = p_uuid seed"
      "p_sent seed' = p_sent seed @ (Some (p_uuid p), p_addr p, Gossip t) # sent" "list_all (\<lambda>(_, _, m). m = Gossip t) sent"
    using hello_run [OF assms(1) assms(2)] by blast
  let ?parcels = "filter (\<lambda>(_, addr, _). addr = p_addr p) (posted (p_uuid seed) seed seed')"
  let ?rounds = "map (\<lambda>(_, _, m). (Ok m, Ok m, Ok m)) ?parcels :: (msg res \<times> msg res \<times> msg res) list"
  have "posted (p_uuid seed) seed seed' = (p_uuid seed, p_addr p, Gossip t) # map (\<lambda>(_, addr, m). (p_uuid seed, addr, m)) sent"
    by (simp add: posted_def seed(4))
  then have "(\<lambda>(_, _, m). m) ` set ?parcels = {Gossip t}" using seed(5) by (force simp: list_all_iff)
  then have parsed: "set (parsed_messages Some ?rounds) = {Gossip t}"
    by (simp only: parsed_plain set_map)
  then have "parsed_messages Some ?rounds \<noteq> []" by (metis empty_set insert_not_empty)
  then obtain m ms where last: "rev (parsed_messages Some ?rounds) = m # ms"
    by (cases "rev (parsed_messages Some ?rounds)") auto
  have "m \<in> set (rev (parsed_messages Some ?rounds))" unfolding last by simp
  with last parsed have "join_receive Some ?rounds None = Some (Gossip t)" by (simp add: join_receive_last)
  with assms(1) seed show ?thesis
    by (simp add: join_seed_def join_hello_def join_finish_def act_run zmq_call_run reliable_def log_sent_def)
qed

section \<open>The cluster that is built\<close>

definition enter_all :: "membership_table \<Rightarrow> 'b peer list \<Rightarrow> membership_table" where
  "enter_all t ps = foldl (\<lambda>t p. membership_insert t (p_uuid p) (p_addr p)) t ps"

lemma join_all_run:
  assumes "\<And>u. reliable (W u)"
  shows "\<exists>seed' joined. join_all W seed ps = (seed', joined) \<and> p_membership seed' = enter_all (p_membership seed) ps \<and>
    length joined = length ps \<and> (\<forall>k < length ps. snd (joined ! k) = Ok () \<and>
      p_membership (fst (joined ! k)) = enter_all (p_membership seed) (take (Suc k) ps))"
proof (induction ps arbitrary: seed)
  case (Cons p ps)
  obtain seed1 p' where one: "join_seed W seed p = (seed1, p', Ok ())"
      "p_membership seed1 = membership_insert (p_membership seed) (p_uuid p) (p_addr p)" "p_membership p' = p_membership seed1"
    using join_seed_run [where W = W, OF assms refl] by metis
  from Cons.IH [of seed1] obtain seed2 joined where rest: "join_all W seed1 ps = (seed2, joined)"
      "p_membership seed2 = enter_all (p_membership seed1) ps" "length joined = length ps"
      "\<And>k. k < length ps \<Longrightarrow> snd (joined ! k) = Ok () \<and>
         p_membership (fst (joined ! k)) = enter_all (p_membership seed1) (take (Suc k) ps)" by blast
  have "\<forall>k < length (p # ps). snd (((p', Ok ()) # joined) ! k) = Ok () \<and>
      p_membership (fst (((p', Ok ()) # joined) ! k)) = enter_all (p_membership seed) (take (Suc k) (p # ps))"
    using one(2,3) rest(4) by (auto simp: nth_Cons' enter_all_def take_Cons')
  with one rest show ?case by (intro exI [of _ seed2] exI [of _ "(p', Ok ()) # joined"]) (simp add: enter_all_def)
qed (simp add: enter_all_def)

lemma enter_all_get:
  "distinct (map p_uuid ps) \<Longrightarrow> hm_get (enter_all t ps) = hm_get t ++ map_of (map (\<lambda>p. (p_uuid p, p_addr p)) ps)"
proof (induction ps arbitrary: t)
  case (Cons p ps)
  then have "map_of (map (\<lambda>p. (p_uuid p, p_addr p)) ps) (p_uuid p) = None"
    by (force simp: map_of_eq_None_iff)
  with Cons show ?case
    by (auto simp: enter_all_def membership_insert_def fun_eq_iff map_add_def split: option.split)
qed (simp add: enter_all_def)

text \<open>The addresses the servers are given.\<close>

definition server_entries :: "uuid \<Rightarrow> uuid list \<Rightarrow> (uuid \<times> string) list" where
  "server_entries u1 us = (u1, seed_addr) # zip us (map (\<lambda>k. local_addr (6001 + of_nat k)) [0..<length us])"

lemma other_servers_entries:
  "map (\<lambda>p. (p_uuid p, p_addr p)) (fst (other_servers W storage port us)) =
     zip us (map (\<lambda>k. local_addr (port + of_nat k)) [0..<length us]) \<and>
   map p_uuid (fst (other_servers W storage port us)) = us \<and> snd (other_servers W storage port us) = port + of_nat (length us)"
proof (induction us arbitrary: port)
  case (Cons u us)
  have "map (\<lambda>k. local_addr (port + of_nat k)) [0..<length (u # us)] =
      local_addr port # map (\<lambda>k. local_addr ((port + 1) + of_nat k)) [0..<length us]"
    by (simp add: upt_conv_Cons map_Suc_upt [symmetric] comp_def del: upt_Suc) (simp add: algebra_simps)
  with Cons [of "port + 1"] show ?case
    by (simp add: case_prod_beta peer_new_def algebra_simps del: upt_Suc)
qed simp

lemma start_servers_run:
  assumes "\<And>u. reliable (W u)" "distinct (u1 # us)"
    and "start_servers W storage u1 us = (seed, joined, port_file)"
  shows "hm_get (p_membership seed) = map_of (server_entries u1 us) \<and> length joined = length us \<and>
    (\<forall>k < length us. snd (joined ! k) = Ok () \<and>
       hm_get (p_membership (fst (joined ! k))) = map_of (take (k + 2) (server_entries u1 us))) \<and>
    read_port (Some port_file) = Ok (6001 + of_nat (length us))"
proof -
  obtain ps port where ps: "other_servers W storage 6001 us = (ps, port)" by force
  have entries: "(u1, seed_addr) # map (\<lambda>p. (p_uuid p, p_addr p)) ps = server_entries u1 us" "map p_uuid ps = us"
      "port = 6001 + of_nat (length us)"
    using other_servers_entries [of W storage 6001 us] ps by (simp_all add: server_entries_def)
  let ?seed = "peer_new (W u1) u1 seed_addr (storage u1)"
  have run: "join_all W ?seed ps = (seed, joined)" "port_file = write_port port"
    using assms(3) ps by (auto simp: start_servers_def split: prod.splits)
  have table: "hm_get (enter_all (p_membership ?seed) (take k ps)) = map_of (take (k + 1) (server_entries u1 us))" for k
  proof -
    have "distinct (map p_uuid (take k ps))" using assms(2) entries(2) by (metis distinct.simps(2) distinct_take take_map)
    moreover have new: "u1 \<notin> p_uuid ` set (take k ps)" using assms(2) entries(2) by (auto dest!: in_set_takeD)
    moreover have "hm_get (p_membership ?seed) = [u1 \<mapsto> seed_addr]"
      by (simp add: peer_new_def membership_insert_def)
    moreover from new have "map_of (map (\<lambda>p. (p_uuid p, p_addr p)) (take k ps)) u1 = None"
      by (auto simp: map_of_eq_None_iff image_image)
    ultimately have "hm_get (enter_all (p_membership ?seed) (take k ps)) =
        map_of ((u1, seed_addr) # map (\<lambda>p. (p_uuid p, p_addr p)) (take k ps))"
      by (simp add: enter_all_get fun_eq_iff map_add_def split: option.split)
    also have "(u1, seed_addr) # map (\<lambda>p. (p_uuid p, p_addr p)) (take k ps) = take (k + 1) (server_entries u1 us)"
      by (simp add: entries(1) [symmetric] take_map)
    finally show ?thesis .
  qed
  have "length ps = length us" using entries(2) by (metis length_map)
  moreover from this have "take (length ps + 1) (server_entries u1 us) = server_entries u1 us"
    by (simp add: server_entries_def)
  ultimately show ?thesis
    using join_all_run [where W = W, OF assms(1), of ?seed ps] run table [of "length ps"] table [of "Suc _"] entries(3)
    by (auto simp: port_read_back)
qed

text \<open>C30: Starting the servers builds the cluster it should: on a network that works every join succeeds, the
  first server ends up knowing all of them, each further server knows the first, itself and those that joined
  before it, every server is entered under the address it was given, and the next free port is written down.\<close>

theorem startup_builds_the_cluster:
  assumes "\<And>u. reliable (W u)" "distinct [u1, u2, u3, u4, u5]"
    and "main_server W storage u1 u2 u3 u4 u5 = (seed, joined, port_file)"
  shows "hm_get (p_membership seed) = map_of (server_entries u1 [u2, u3, u4, u5]) \<and> length joined = 4 \<and>
    (\<forall>k < 4. snd (joined ! k) = Ok () \<and>
       hm_get (p_membership (fst (joined ! k))) = map_of (take (k + 2) (server_entries u1 [u2, u3, u4, u5]))) \<and>
    read_port (Some port_file) = Ok 6005"
  using start_servers_run [OF assms(1,2) assms(3) [unfolded main_server_def]] by simp

theorem startup_builds_the_cluster_witness:
  "\<exists>seed joined port_file.
     main_server (\<lambda>_. sample_world) (\<lambda>u. \<lparr>ss_server_id = u, ss_rows = []\<rparr>) 1 2 3 4 5 = (seed, joined, port_file) \<and>
     hm_get (p_membership seed) 3 = Some (local_addr 6002) \<and> read_port (Some port_file) = Ok 6005"
proof -
  obtain seed joined port_file where run:
    "main_server (\<lambda>_. sample_world) (\<lambda>u. \<lparr>ss_server_id = u, ss_rows = []\<rparr>) 1 2 3 4 5 = (seed, joined, port_file)"
    using prod_cases3 by blast
  from startup_builds_the_cluster [OF _ _ run] show ?thesis
    unfolding run by (simp add: server_entries_def)
qed

text \<open>The command that the arguments of the program ask for; the first argument is its name. \<open>add-peer\<close> only
  prints that it is not implemented.\<close>

datatype command = Client_Command | Server_Command | Proxy_Command | Add_Peer | Remove_Peer "string option" | Usage

definition main_command :: "string list \<Rightarrow> command" where
  "main_command args =
     (case args of
        _ # run_opt # others \<Rightarrow>
          (if run_opt = ''client'' then Client_Command
           else if run_opt = ''server'' then Server_Command
           else if run_opt = ''proxy'' then Proxy_Command
           else if run_opt = ''add-peer'' then Add_Peer
           else if run_opt = ''remove-peer''
             then Remove_Peer (case others of port # _ \<Rightarrow> Some port | [] \<Rightarrow> None)
           else Usage)
      | _ \<Rightarrow> Usage)"

end
