(* ===== verification/Crdt_Tests.thy ===== *)
theory Crdt_Tests
  imports Crdt "HOL-Library.Char_ord" "HOL-Library.List_Lexorder"
begin

text \<open>
  The unit tests of \<open>src/crdt.rs\<close>, as functions of the UUIDs they draw: a test that passes returns, an
  assertion that fails panics. They hold of the model for every choice of distinct UUIDs.
\<close>

section \<open>Counters\<close>

definition assert_that :: "bool \<Rightarrow> unit res" where
  "assert_that b = (if b then Ok () else Err (Panic ''assertion failed''))"

lemma assert_that_simps [simp]: "assert_that b = Ok () \<longleftrightarrow> b" "assert_that True = Ok ()"
  by (simp_all add: assert_that_def)

fun times :: "nat \<Rightarrow> ('s \<Rightarrow> 's res) \<Rightarrow> 's \<Rightarrow> 's res" where
  "times 0 f s = Ok s"
| "times (Suc n) f s = bind_res (f s) (times n f)"

definition mk_item :: "i64 \<Rightarrow> u32 \<Rightarrow> uuid \<Rightarrow> bool \<Rightarrow> item res" where
  "mk_item n clock actor acq =
     bind_res (if 0 <s n then times (unat n) pncounter_inc (pncounter_new actor)
               else bind_res (checked_neg_i64 n) (\<lambda>m. times (unat m) pncounter_inc (pncounter_new actor)))
       (\<lambda>pn. Ok \<lparr>amount = pn, acquired = lwwreg_new (bool_as_u32 acq) clock actor\<rparr>)"

definition test_gcounter_local_increment :: "uuid \<Rightarrow> unit res" where
  "test_gcounter_local_increment i = (let c = gcounter_new i in
     bind_res (gcounter_value_total c) (\<lambda>total.
     bind_res (assert_that (gcounter_value_local c = 0 \<and> total = 0)) (\<lambda>_.
     bind_res (times 2 gcounter_inc c) (\<lambda>c.
     bind_res (gcounter_value_total c) (\<lambda>total.
     assert_that (gcounter_value_local c = 2 \<and> total = 2))))))"

definition test_gcounter_merge :: "uuid \<Rightarrow> uuid \<Rightarrow> unit res" where
  "test_gcounter_merge id1 id2 =
     bind_res (times 2 gcounter_inc (gcounter_new id1)) (\<lambda>c1.
     bind_res (gcounter_inc (gcounter_new id2)) (\<lambda>c2.
     let c1 = gcounter_merge c1 c2 in
     bind_res (gcounter_value_total c1) (\<lambda>total.
     assert_that (total = 3 \<and> gcounter_value_local c1 = 2 \<and> gcounter_value_local c2 = 1))))"

definition test_gcounter_merge_commutative :: "uuid \<Rightarrow> uuid \<Rightarrow> unit res" where
  "test_gcounter_merge_commutative id1 id2 =
     bind_res (times 2 gcounter_inc (gcounter_new id1)) (\<lambda>a.
     bind_res (gcounter_inc (gcounter_new id2)) (\<lambda>b.
     bind_res (gcounter_value_total (gcounter_merge a b)) (\<lambda>a_then_b.
     bind_res (gcounter_value_total (gcounter_merge b a)) (\<lambda>b_then_a.
     assert_that (a_then_b = b_then_a)))))"

definition test_gcounter_merge_is_idempotent :: "uuid \<Rightarrow> uuid \<Rightarrow> unit res" where
  "test_gcounter_merge_is_idempotent id1 id2 =
     bind_res (gcounter_inc (gcounter_new id1)) (\<lambda>a.
     bind_res (gcounter_inc (gcounter_new id2)) (\<lambda>b.
     let a1 = gcounter_merge a b in
     bind_res (gcounter_value_total a1) (\<lambda>first_merge_value.
     let a2 = gcounter_merge a1 b in
     bind_res (gcounter_value_total a2) (\<lambda>second_merge_value.
     assert_that (first_merge_value = second_merge_value)))))"

definition test_gcounter_merge_is_associative :: "uuid \<Rightarrow> uuid \<Rightarrow> uuid \<Rightarrow> unit res" where
  "test_gcounter_merge_is_associative id1 id2 id3 =
     bind_res (gcounter_inc (gcounter_new id1)) (\<lambda>a.
     bind_res (times 2 gcounter_inc (gcounter_new id2)) (\<lambda>b.
     bind_res (gcounter_inc (gcounter_new id3)) (\<lambda>c.
     bind_res (gcounter_value_total (gcounter_merge (gcounter_merge a b) c)) (\<lambda>ab.
     bind_res (gcounter_value_total (gcounter_merge a (gcounter_merge b c))) (\<lambda>a_bc.
     assert_that (ab = a_bc))))))"

definition test_pncounter_local_value :: "uuid \<Rightarrow> unit res" where
  "test_pncounter_local_value i = (let c = pncounter_new i in
     bind_res (pncounter_value_local c) (\<lambda>v. bind_res (assert_that (v = 0)) (\<lambda>_.
     bind_res (pncounter_inc c) (\<lambda>c.
     bind_res (pncounter_value_local c) (\<lambda>v. bind_res (assert_that (v = 1)) (\<lambda>_.
     bind_res (pncounter_dec c) (\<lambda>c.
     bind_res (pncounter_value_local c) (\<lambda>v. bind_res (assert_that (v = 0)) (\<lambda>_.
     bind_res (times 2 pncounter_inc c) (\<lambda>c. bind_res (pncounter_dec c) (\<lambda>c.
     bind_res (pncounter_value_local c) (\<lambda>v. assert_that (v = 1)))))))))))))"

definition test_pncounter_merge_counters :: "uuid \<Rightarrow> uuid \<Rightarrow> unit res" where
  "test_pncounter_merge_counters id1 id2 =
     bind_res (times 2 pncounter_inc (pncounter_new id1)) (\<lambda>c1.
     bind_res (pncounter_inc (pncounter_new id2)) (\<lambda>c2. bind_res (pncounter_dec c2) (\<lambda>c2.
     bind_res (pncounter_value_total c1) (\<lambda>v1. bind_res (assert_that (v1 = 2)) (\<lambda>_.
     bind_res (pncounter_value_total c2) (\<lambda>v2. bind_res (assert_that (v2 = 0)) (\<lambda>_.
     let c1 = pncounter_merge c1 c2; c2 = pncounter_merge c2 c1 in
     bind_res (pncounter_value_total c1) (\<lambda>v1. bind_res (pncounter_value_total c2) (\<lambda>v2.
     assert_that (v1 = 2 \<and> v2 = 2))))))))))"

definition test_pncounter_convergence :: "uuid \<Rightarrow> uuid \<Rightarrow> unit res" where
  "test_pncounter_convergence id1 id2 =
     bind_res (times 5 pncounter_inc (pncounter_new id1)) (\<lambda>c1.
     bind_res (times 3 pncounter_inc (pncounter_new id2)) (\<lambda>c2.
     bind_res (times 2 pncounter_dec c1) (\<lambda>c1. bind_res (times 1 pncounter_dec c2) (\<lambda>c2.
     let c1 = pncounter_merge c1 c2; c2 = pncounter_merge c2 c1 in
     bind_res (pncounter_value_total c1) (\<lambda>v1. bind_res (pncounter_value_total c2) (\<lambda>v2.
     assert_that (v1 = 5 + 3 - 2 - 1 \<and> v2 = 5)))))))"

definition test_local_values_are_correct :: "uuid \<Rightarrow> unit res" where
  "test_local_values_are_correct i =
     bind_res (times 4 pncounter_inc (pncounter_new i)) (\<lambda>c. bind_res (times 2 pncounter_dec c) (\<lambda>c.
     bind_res (pncounter_value_local c) (\<lambda>v. assert_that (v = 2))))"

text \<open>They pass: the counts are small, so nothing overflows.\<close>

lemma times_numeral [simp]:
  "times (numeral k) f s = bind_res (f s) (times (pred_numeral k) f)" "times 1 f s = f s"
  by (simp_all add: numeral_eq_Suc) (cases "f s"; simp)

lemmas counter_test_simps =
  gcounter_new_def gcounter_inc_def gcounter_value_local_def gcounter_value_total_def gcounter_merge_def
  pncounter_new_def pncounter_inc_def pncounter_dec_def pncounter_value_local_def pncounter_value_total_def
  pncounter_merge_def checked_add_def checked_sub_i64_def in_i64_def Let_def

lemma counter_tests_pass:
  assumes "distinct [id1, id2, id3]"
  shows "test_gcounter_local_increment id1 = Ok ()" "test_gcounter_merge id1 id2 = Ok ()"
    "test_gcounter_merge_commutative id1 id2 = Ok ()" "test_gcounter_merge_is_idempotent id1 id2 = Ok ()"
    "test_gcounter_merge_is_associative id1 id2 id3 = Ok ()" "test_pncounter_local_value id1 = Ok ()"
    "test_pncounter_merge_counters id1 id2 = Ok ()" "test_pncounter_convergence id1 id2 = Ok ()"
    "test_local_values_are_correct id1 = Ok ()"
  using assms
  by (auto simp: test_gcounter_local_increment_def test_gcounter_merge_def test_gcounter_merge_commutative_def
      test_gcounter_merge_is_idempotent_def test_gcounter_merge_is_associative_def test_pncounter_local_value_def
      test_pncounter_merge_counters_def test_pncounter_convergence_def test_local_values_are_correct_def
      counter_test_simps)

section \<open>Registers\<close>

definition test_lwwreg_update_newer_clock :: "unit res" where
  "test_lwwreg_update_newer_clock =
     (let reg = lwwreg_update (lwwreg_new 10 1 (1 :: u32)) 20 2 2
      in assert_that (lww_val reg = 20 \<and> lww_clock reg = 2 \<and> lww_actor reg = 2))"

definition test_lwwreg_update_ignores_older_clock :: "unit res" where
  "test_lwwreg_update_ignores_older_clock =
     (let reg = lwwreg_update (lwwreg_new 10 2 (1 :: u32)) 20 1 2
      in assert_that (lww_val reg = 10 \<and> lww_clock reg = 2 \<and> lww_actor reg = 1))"

definition test_lwwreg_update_tiebreaker :: "unit res" where
  "test_lwwreg_update_tiebreaker =
     (let reg = lwwreg_update (lwwreg_new 10 5 (1 :: u32)) 20 5 2
      in assert_that (lww_val reg = 20 \<and> lww_actor reg = 2))"

definition test_lwwreg_merge :: "unit res" where
  "test_lwwreg_merge =
     (let a = lwwreg_merge (lwwreg_new 1 1 (1 :: u32)) (lwwreg_new 2 3 2)
      in assert_that (lww_val a = 2 \<and> lww_clock a = 3 \<and> lww_actor a = 2))"

definition test_lwwreg_merge_tiebreaker :: "unit res" where
  "test_lwwreg_merge_tiebreaker =
     (let a = lwwreg_merge (lwwreg_new 10 7 (1 :: u32)) (lwwreg_new 20 7 2)
      in assert_that (lww_val a = 20 \<and> lww_actor a = 2))"

definition same_reg :: "'a lwwreg \<Rightarrow> 'a lwwreg \<Rightarrow> bool" where
  "same_reg a b \<longleftrightarrow> lww_val a = lww_val b \<and> lww_clock a = lww_clock b \<and> lww_actor a = lww_actor b"

definition test_lwwreg_merge_is_idempotent :: "unit res" where
  "test_lwwreg_merge_is_idempotent =
     (let a = lwwreg_new 10 5 (3 :: u32); clone = a in assert_that (same_reg (lwwreg_merge a clone) clone))"

definition test_lwwreg_merge_is_commutative :: "unit res" where
  "test_lwwreg_merge_is_commutative =
     (let a = lwwreg_new 10 5 (1 :: u32); b = lwwreg_new 20 7 2
      in assert_that (same_reg (lwwreg_merge a b) (lwwreg_merge b a)))"

definition test_lwwreg_merge_is_associative :: "unit res" where
  "test_lwwreg_merge_is_associative =
     (let a = lwwreg_new 10 1 (1 :: u32); b = lwwreg_new 20 2 2; c = lwwreg_new 30 3 3
      in assert_that (same_reg (lwwreg_merge (lwwreg_merge a b) c) (lwwreg_merge a (lwwreg_merge b c))))"

lemma register_tests_pass:
  "test_lwwreg_update_newer_clock = Ok ()" "test_lwwreg_update_ignores_older_clock = Ok ()"
  "test_lwwreg_update_tiebreaker = Ok ()" "test_lwwreg_merge = Ok ()" "test_lwwreg_merge_tiebreaker = Ok ()"
  "test_lwwreg_merge_is_idempotent = Ok ()" "test_lwwreg_merge_is_commutative = Ok ()"
  "test_lwwreg_merge_is_associative = Ok ()"
  by (simp_all add: test_lwwreg_update_newer_clock_def test_lwwreg_update_ignores_older_clock_def
      test_lwwreg_update_tiebreaker_def test_lwwreg_merge_def test_lwwreg_merge_tiebreaker_def
      test_lwwreg_merge_is_idempotent_def test_lwwreg_merge_is_commutative_def test_lwwreg_merge_is_associative_def
      same_reg_def lwwreg_merge_def lwwreg_update_def lwwreg_should_update_def lwwreg_new_def Let_def)


section \<open>Maps of items\<close>

text \<open>\<open>values()[0]\<close> and \<open>items["apple"]\<close> panic when there is no such item.\<close>

definition first_value :: "awormap \<Rightarrow> item res" where
  "first_value m = (case awormap_values m of [] \<Rightarrow> Err (Panic ''index out of bounds'') | i # _ \<Rightarrow> Ok i)"

definition entry_of :: "awormap \<Rightarrow> string \<Rightarrow> item res" where
  "entry_of m name = (case hm_get (aw_items m) name of None \<Rightarrow> Err (Panic ''no such key'') | Some i \<Rightarrow> Ok i)"

definition test_awormap_insert_item :: "uuid \<Rightarrow> unit res" where
  "test_awormap_insert_item i =
     bind_res (mk_item 3 1 i False) (\<lambda>itm.
     let m = awormap_insert awormap_new ''apple'' itm in
     bind_res (first_value m) (\<lambda>first.
     bind_res (pncounter_value_local (amount first)) (\<lambda>v. bind_res (pncounter_value_local (amount itm)) (\<lambda>v'.
     assert_that (\<not> awormap_is_empty m \<and> awormap_keys m = [''apple''] \<and> v = v')))))"

definition test_awormap_insert_item_merges :: "uuid \<Rightarrow> uuid \<Rightarrow> unit res" where
  "test_awormap_insert_item_merges id1 id2 =
     bind_res (mk_item 2 1 id1 False) (\<lambda>a. bind_res (mk_item 5 3 id2 False) (\<lambda>b.
     let m = awormap_insert (awormap_insert awormap_new ''apple'' a) ''apple'' b in
     bind_res (first_value m) (\<lambda>result. bind_res (pncounter_value_total (amount result)) (\<lambda>total.
     bind_res (pncounter_value_local (amount a)) (\<lambda>va. bind_res (pncounter_value_local (amount b)) (\<lambda>vb.
     assert_that (total = va + vb)))))))"

definition test_awormap_merge_combines_keys :: "uuid \<Rightarrow> unit res" where
  "test_awormap_merge_combines_keys i =
     bind_res (mk_item 3 1 i False) (\<lambda>a. bind_res (mk_item 7 1 i False) (\<lambda>b.
     let m1 = awormap_merge (awormap_insert awormap_new ''apple'' a) (awormap_insert awormap_new ''banana'' b) in
     assert_that (''apple'' \<in> set (awormap_keys m1) \<and> ''banana'' \<in> set (awormap_keys m1))))"

definition test_awormap_acquired :: "uuid \<Rightarrow> uuid \<Rightarrow> unit res" where
  "test_awormap_acquired id1 id2 =
     bind_res (mk_item 2 2 id1 False) (\<lambda>a. bind_res (mk_item 2 1 id2 True) (\<lambda>b.
     let m1 = awormap_merge (awormap_insert awormap_new ''apple'' a) (awormap_insert awormap_new ''apple'' b) in
     bind_res (entry_of m1 ''apple'') (\<lambda>result. assert_that (lww_val (acquired result) = 0))))"

definition test_awormap_merge_idempotent :: "uuid \<Rightarrow> unit res" where
  "test_awormap_merge_idempotent i =
     bind_res (mk_item 1 1 i False) (\<lambda>a.
     let clone = awormap_insert awormap_new ''apple'' a; m1 = awormap_merge clone clone in
     bind_res (entry_of m1 ''apple'') (\<lambda>x. bind_res (entry_of clone ''apple'') (\<lambda>y.
     bind_res (pncounter_value_local (amount x)) (\<lambda>vx. bind_res (pncounter_value_local (amount y)) (\<lambda>vy.
     assert_that (awormap_keys m1 = awormap_keys clone \<and> vx = vy \<and>
       lww_val (acquired x) = lww_val (acquired y)))))))"

definition same_totals :: "awormap \<Rightarrow> awormap \<Rightarrow> string \<Rightarrow> unit res" where
  "same_totals m m' name =
     bind_res (entry_of m name) (\<lambda>x. bind_res (entry_of m' name) (\<lambda>y.
     bind_res (pncounter_value_total (amount x)) (\<lambda>vx. bind_res (pncounter_value_total (amount y)) (\<lambda>vy.
     assert_that (vx = vy)))))"

definition same_clocks :: "awormap \<Rightarrow> awormap \<Rightarrow> string \<Rightarrow> unit res" where
  "same_clocks m m' name =
     bind_res (entry_of m name) (\<lambda>x. bind_res (entry_of m' name) (\<lambda>y.
     assert_that (lww_clock (acquired x) = lww_clock (acquired y))))"

definition same_actors :: "awormap \<Rightarrow> awormap \<Rightarrow> string \<Rightarrow> unit res" where
  "same_actors m m' name =
     bind_res (entry_of m name) (\<lambda>x. bind_res (entry_of m' name) (\<lambda>y.
     assert_that (lww_actor (acquired x) = lww_actor (acquired y))))"

definition test_awormap_merge_is_commutative :: "unit res" where
  "test_awormap_merge_is_commutative =
     bind_res (mk_item 3 2 0 False) (\<lambda>a1. bind_res (mk_item 5 4 2 False) (\<lambda>b1. bind_res (mk_item 1 1 0 False) (\<lambda>b2.
     let a = awormap_insert awormap_new ''apple'' a1;
         b = awormap_insert (awormap_insert awormap_new ''apple'' b1) ''banana'' b2;
         ab = awormap_merge a b; ba = awormap_merge b a in
     bind_res (assert_that (length (awormap_keys ab) = length (awormap_keys ba))) (\<lambda>_.
     bind_res (same_totals ab ba ''apple'') (\<lambda>_. bind_res (same_clocks ab ba ''apple'') (\<lambda>_.
     same_totals ab ba ''banana''))))))"

definition test_awormap_merge_is_associative :: "unit res" where
  "test_awormap_merge_is_associative =
     bind_res (mk_item 1 1 0 False) (\<lambda>a1. bind_res (mk_item 2 2 2 False) (\<lambda>b1. bind_res (mk_item 3 3 3 False) (\<lambda>c1.
     let a = awormap_insert awormap_new ''apple'' a1; b = awormap_insert awormap_new ''apple'' b1;
         c = awormap_insert awormap_new ''banana'' c1;
         ab_c = awormap_merge (awormap_merge a b) c; a_bc = awormap_merge a (awormap_merge b c) in
     bind_res (assert_that (length (awormap_keys ab_c) = length (awormap_keys a_bc))) (\<lambda>_.
     run_res (\<lambda>_ key. bind_res (same_totals ab_c a_bc key) (\<lambda>_. bind_res (same_clocks ab_c a_bc key) (\<lambda>_.
       same_actors ab_c a_bc key))) () (awormap_keys ab_c)))))"

definition test_awormap_replicas_converge_after_merge :: "unit res" where
  "test_awormap_replicas_converge_after_merge =
     bind_res (mk_item 2 1 0 False) (\<lambda>x1. bind_res (mk_item 5 3 2 False) (\<lambda>y1. bind_res (mk_item 1 1 0 False) (\<lambda>y2.
     let r1 = awormap_insert awormap_new ''apple'' x1;
         r2 = awormap_insert (awormap_insert awormap_new ''apple'' y1) ''banana'' y2;
         m1 = awormap_merge r1 r2; m2 = awormap_merge r2 r1 in
     bind_res (assert_that (sort (awormap_keys m1) = sort (awormap_keys m2))) (\<lambda>_.
     run_res (\<lambda>_ key. bind_res (same_totals m1 m2 key) (\<lambda>_. same_clocks m1 m2 key)) () (awormap_keys m1)))))"

lemmas map_test_simps =
  mk_item_def first_value_def entry_of_def awormap_new_def awormap_insert_def awormap_merge_def awormap_keys_def
  awormap_values_def awormap_is_empty_def item_merge_def lwwreg_new_def lwwreg_merge_def lwwreg_should_update_def
  bool_as_u32_def same_totals_def same_clocks_def same_actors_def word_sless_alt

lemma map_tests_pass:
  assumes "id1 \<noteq> id2"
  shows "test_awormap_insert_item id1 = Ok ()" "test_awormap_insert_item_merges id1 id2 = Ok ()"
    "test_awormap_merge_combines_keys id1 = Ok ()" "test_awormap_acquired id1 id2 = Ok ()"
    "test_awormap_merge_idempotent id1 = Ok ()"
  using assms
  by (auto simp: test_awormap_insert_item_def test_awormap_insert_item_merges_def test_awormap_merge_combines_keys_def
      test_awormap_acquired_def test_awormap_merge_idempotent_def map_test_simps counter_test_simps)

lemma merge_tests_pass:
  "test_awormap_merge_is_commutative = Ok ()" "test_awormap_merge_is_associative = Ok ()"
  "test_awormap_replicas_converge_after_merge = Ok ()"
  by (simp_all add: test_awormap_merge_is_commutative_def test_awormap_merge_is_associative_def
      test_awormap_replicas_converge_after_merge_def map_test_simps counter_test_simps)

end
