(* ===== verification/Message_Tests.thy ===== *)
theory Message_Tests
  imports Crdt_Tests Message Server_Storage
begin

text \<open>
  The unit tests of \<open>src/message.rs\<close>, as functions of the UUIDs they draw and, for those that serialize,
  of the two functions of \<open>serde_json\<close> they call. What these tests rely on is that a message is
  decoded to an equal one (hash maps may come back in another order).
\<close>

section \<open>Making and matching messages\<close>

definition test_hello_message :: "uuid \<Rightarrow> unit res" where
  "test_hello_message u =
     (let addr = ''127.0.0.1:8080''; m = Hello u addr in
      bind_res (assert_that (msg_name m = ''HELLO'')) (\<lambda>_.
      case m of Hello i a \<Rightarrow> assert_that (i = u \<and> a = addr) | _ \<Rightarrow> Err (Panic ''Expected HELLO message'')))"

definition test_gossip_message :: "uuid \<Rightarrow> uuid \<Rightarrow> unit res" where
  "test_gossip_message uuid1 uuid2 =
     (let table = hm_insert uuid2 ''192.168.1.2:5001'' (hm_insert uuid1 ''192.168.1.1:5000'' []); m = Gossip table in
      bind_res (assert_that (msg_name m = ''GOSSIP'')) (\<lambda>_.
      case m of Gossip t \<Rightarrow> assert_that (length t = 2 \<and> hm_contains t uuid1 \<and> hm_contains t uuid2)
      | _ \<Rightarrow> Err (Panic ''Expected GOSSIP message'')))"

definition test_ack_message :: "unit res" where
  "test_ack_message =
     (let request_id = ''req-12345''; m = Ack request_id in
      bind_res (assert_that (msg_name m = ''ACK'')) (\<lambda>_.
      case m of Ack i \<Rightarrow> assert_that (i = request_id) | _ \<Rightarrow> Err (Panic ''Expected ACK message'')))"

definition test_nack_message :: "unit res" where
  "test_nack_message =
     (let request_id = ''req-67890''; m = Nack request_id in
      bind_res (assert_that (msg_name m = ''NACK'')) (\<lambda>_.
      case m of Nack i \<Rightarrow> assert_that (i = request_id) | _ \<Rightarrow> Err (Panic ''Expected NACK message'')))"

definition test_ack_list_message :: "uuid \<Rightarrow> unit res" where
  "test_ack_list_message list_id =
     (let request_id = ''req-list-123''; lst = \<lparr>sl_id = list_id, sl_list = awormap_new\<rparr>; m = AckList request_id lst in
      bind_res (assert_that (msg_name m = ''AckList'')) (\<lambda>_.
      case m of AckList i l \<Rightarrow> assert_that (i = request_id \<and> sl_id l = list_id)
      | _ \<Rightarrow> Err (Panic ''Expected AckList message'')))"

definition test_get_list_message :: "uuid \<Rightarrow> unit res" where
  "test_get_list_message list_id =
     (let lst = \<lparr>sl_id = list_id, sl_list = awormap_new\<rparr>; m = GetList lst in
      bind_res (assert_that (msg_name m = ''GET_LIST'')) (\<lambda>_.
      case m of GetList l \<Rightarrow> assert_that (sl_id l = list_id) | _ \<Rightarrow> Err (Panic ''Expected GET_LIST message'')))"

definition test_put_list_message :: "uuid \<Rightarrow> unit res" where
  "test_put_list_message list_id =
     (let lst = \<lparr>sl_id = list_id, sl_list = awormap_new\<rparr>; m = PutList lst in
      bind_res (assert_that (msg_name m = ''PUT_LIST'')) (\<lambda>_.
      case m of PutList l \<Rightarrow> assert_that (sl_id l = list_id \<and> awormap_is_empty (sl_list l))
      | _ \<Rightarrow> Err (Panic ''Expected PUT_LIST message'')))"

definition test_replicate_list_message :: "uuid \<Rightarrow> uuid \<Rightarrow> unit res" where
  "test_replicate_list_message list_id client_id =
     (let m = awormap_insert awormap_new ''milk'' (item_new 1 False client_id);
          lst = \<lparr>sl_id = list_id, sl_list = m\<rparr>; m = ReplicateList ''repl-001'' lst True in
      bind_res (assert_that (msg_name m = ''REPLICATE'')) (\<lambda>_.
      case m of ReplicateList i l w \<Rightarrow>
          assert_that (i = ''repl-001'' \<and> sl_id l = list_id \<and> w \<and> \<not> awormap_is_empty (sl_list l))
      | _ \<Rightarrow> Err (Panic ''Expected REPLICATE message'')))"

definition test_merge_list_message :: "uuid \<Rightarrow> uuid \<Rightarrow> unit res" where
  "test_merge_list_message list_id client_id =
     (let m = awormap_insert awormap_new ''bread'' (item_new 2 False client_id);
          lst = \<lparr>sl_id = list_id, sl_list = m\<rparr>; m = MergeList lst in
      bind_res (assert_that (msg_name m = ''MERGE_LIST'')) (\<lambda>_.
      case m of MergeList l \<Rightarrow>
          assert_that (sl_id l = list_id \<and> \<not> awormap_is_empty (sl_list l) \<and>
            hm_contains (aw_items (sl_list l)) ''bread'')
      | _ \<Rightarrow> Err (Panic ''Expected MERGE_LIST message'')))"

definition test_list_response_message_some :: "uuid \<Rightarrow> unit res" where
  "test_list_response_message_some list_id =
     (let lst = \<lparr>sl_id = list_id, sl_list = awormap_new\<rparr>; m = ListResponse (Some lst) in
      bind_res (assert_that (msg_name m = ''LIST_RESPONSE'')) (\<lambda>_.
      case m of ListResponse (Some l) \<Rightarrow> assert_that (sl_id l = list_id)
      | _ \<Rightarrow> Err (Panic ''Expected LIST_RESPONSE with Some'')))"

definition test_list_response_message_none :: "unit res" where
  "test_list_response_message_none =
     (let m = ListResponse None in
      bind_res (assert_that (msg_name m = ''LIST_RESPONSE'')) (\<lambda>_.
      case m of ListResponse None \<Rightarrow> Ok () | _ \<Rightarrow> Err (Panic ''Expected LIST_RESPONSE with None'')))"

definition test_message_with_multiple_items :: "uuid \<Rightarrow> uuid \<Rightarrow> unit res" where
  "test_message_with_multiple_items list_id client_id =
     (let m = awormap_insert awormap_new ''apples'' (item_new 5 False client_id);
          m = awormap_insert m ''bananas'' (item_new 3 True client_id);
          m = awormap_insert m ''oranges'' (item_new 7 False client_id);
          lst = \<lparr>sl_id = list_id, sl_list = m\<rparr> in
      case MergeList lst of MergeList l \<Rightarrow>
          assert_that (length (aw_items (sl_list l)) = 3 \<and> hm_contains (aw_items (sl_list l)) ''apples'' \<and>
            hm_contains (aw_items (sl_list l)) ''bananas'' \<and> hm_contains (aw_items (sl_list l)) ''oranges'')
      | _ \<Rightarrow> Err (Panic ''Expected MERGE_LIST message''))"

definition test_replicate_list_write_false :: "uuid \<Rightarrow> unit res" where
  "test_replicate_list_write_false list_id =
     (let lst = \<lparr>sl_id = list_id, sl_list = awormap_new\<rparr> in
      case ReplicateList ''repl-read-001'' lst False of ReplicateList i l w \<Rightarrow>
          assert_that (i = ''repl-read-001'' \<and> sl_id l = list_id \<and> \<not> w)
      | _ \<Rightarrow> Err (Panic ''Expected REPLICATE message''))"

lemmas message_test_defs =
  test_hello_message_def test_gossip_message_def test_ack_message_def test_nack_message_def test_ack_list_message_def
  test_get_list_message_def test_put_list_message_def test_replicate_list_message_def test_merge_list_message_def
  test_list_response_message_some_def test_list_response_message_none_def test_message_with_multiple_items_def
  test_replicate_list_write_false_def

lemmas message_test_simps =
  awormap_new_def awormap_insert_def awormap_is_empty_def hm_contains_def

lemma message_tests_pass:
  assumes "id1 \<noteq> id2"
  shows "test_hello_message id1 = Ok ()" "test_gossip_message id1 id2 = Ok ()" "test_ack_message = Ok ()"
    "test_nack_message = Ok ()" "test_ack_list_message id1 = Ok ()" "test_get_list_message id1 = Ok ()"
    "test_put_list_message id1 = Ok ()" "test_replicate_list_message id1 id2 = Ok ()"
    "test_merge_list_message id1 id2 = Ok ()" "test_list_response_message_some id1 = Ok ()"
    "test_list_response_message_none = Ok ()" "test_message_with_multiple_items id1 id2 = Ok ()"
    "test_replicate_list_write_false id1 = Ok ()"
  using assms by (simp_all add: message_test_defs message_test_simps)

section \<open>Serialization\<close>

text \<open>What \<open>serde\<close> documents of derived implementations, as the tests use it: encoding succeeds, and what it
  gives is decoded to an equal message.\<close>

fun msg_same :: "msg \<Rightarrow> msg \<Rightarrow> bool" where
  "msg_same (Gossip t) m \<longleftrightarrow> (case m of Gossip t' \<Rightarrow> hm_wf t' \<and> map_of t' = map_of t | _ \<Rightarrow> False)"
| "msg_same (AckList i l) m \<longleftrightarrow> (case m of AckList j l' \<Rightarrow> j = i \<and> sl_content l' = sl_content l | _ \<Rightarrow> False)"
| "msg_same (GetList l) m \<longleftrightarrow> (case m of GetList l' \<Rightarrow> sl_content l' = sl_content l | _ \<Rightarrow> False)"
| "msg_same (PutList l) m \<longleftrightarrow> (case m of PutList l' \<Rightarrow> sl_content l' = sl_content l | _ \<Rightarrow> False)"
| "msg_same (ReplicateList i l w) m \<longleftrightarrow>
     (case m of ReplicateList j l' w' \<Rightarrow> j = i \<and> w' = w \<and> sl_content l' = sl_content l | _ \<Rightarrow> False)"
| "msg_same (MergeList l) m \<longleftrightarrow> (case m of MergeList l' \<Rightarrow> sl_content l' = sl_content l | _ \<Rightarrow> False)"
| "msg_same (ListResponse None) m \<longleftrightarrow> m = ListResponse None"
| "msg_same (ListResponse (Some l)) m \<longleftrightarrow>
     (case m of ListResponse (Some l') \<Rightarrow> sl_content l' = sl_content l | _ \<Rightarrow> False)"
| "msg_same (Handoff i l u) m \<longleftrightarrow>
     (case m of Handoff j l' v \<Rightarrow> j = i \<and> v = u \<and> sl_content l' = sl_content l | _ \<Rightarrow> False)"
| "msg_same m m' \<longleftrightarrow> m' = m"

fun msg_wf :: "msg \<Rightarrow> bool" where
  "msg_wf (Gossip t) = hm_wf t"
| "msg_wf (AckList _ l) = sl_wf l"
| "msg_wf (GetList l) = sl_wf l"
| "msg_wf (PutList l) = sl_wf l"
| "msg_wf (ReplicateList _ l _) = sl_wf l"
| "msg_wf (MergeList l) = sl_wf l"
| "msg_wf (ListResponse (Some l)) = sl_wf l"
| "msg_wf (Handoff _ l _) = sl_wf l"
| "msg_wf _ = True"

definition serde_law :: "(msg \<Rightarrow> 'b option) \<Rightarrow> ('b \<Rightarrow> msg option) \<Rightarrow> bool" where
  "serde_law encode decode \<longleftrightarrow>
     (\<forall>m. msg_wf m \<longrightarrow> (\<exists>data m'. encode m = Some data \<and> decode data = Some m' \<and> msg_same m m'))"

definition through_json :: "(msg \<Rightarrow> 'b option) \<Rightarrow> ('b \<Rightarrow> msg option) \<Rightarrow> msg \<Rightarrow> msg res" where
  "through_json encode decode m =
     (case encode m of None \<Rightarrow> Err (Panic ''Serialization failed'')
      | Some serialized \<Rightarrow> (case decode serialized of None \<Rightarrow> Err (Panic ''Deserialization failed'')
          | Some deserialized \<Rightarrow> Ok deserialized))"

definition test_message_serialization_hello :: "(msg \<Rightarrow> 'b option) \<Rightarrow> ('b \<Rightarrow> msg option) \<Rightarrow> uuid \<Rightarrow> unit res" where
  "test_message_serialization_hello encode decode u =
     (let addr = ''127.0.0.1:9000'' in
      bind_res (through_json encode decode (Hello u addr)) (\<lambda>deserialized.
      case deserialized of Hello i a \<Rightarrow> assert_that (i = u \<and> a = addr)
      | _ \<Rightarrow> Err (Panic ''Deserialized wrong message type'')))"

definition test_message_serialization_ack :: "(msg \<Rightarrow> 'b option) \<Rightarrow> ('b \<Rightarrow> msg option) \<Rightarrow> unit res" where
  "test_message_serialization_ack encode decode =
     (let request_id = ''req-abc123'' in
      bind_res (through_json encode decode (Ack request_id)) (\<lambda>deserialized.
      case deserialized of Ack i \<Rightarrow> assert_that (i = request_id)
      | _ \<Rightarrow> Err (Panic ''Deserialized wrong message type'')))"

definition test_message_serialization_list :: "(msg \<Rightarrow> 'b option) \<Rightarrow> ('b \<Rightarrow> msg option) \<Rightarrow> uuid \<Rightarrow> uuid \<Rightarrow> unit res" where
  "test_message_serialization_list encode decode list_id client_id =
     (let m = awormap_insert awormap_new ''eggs'' (item_new 12 True client_id);
          lst = \<lparr>sl_id = list_id, sl_list = m\<rparr> in
      bind_res (through_json encode decode (PutList lst)) (\<lambda>deserialized.
      case deserialized of PutList l \<Rightarrow> assert_that (sl_id l = list_id \<and> hm_contains (aw_items (sl_list l)) ''eggs'')
      | _ \<Rightarrow> Err (Panic ''Deserialized wrong message type'')))"

definition test_message_serialization_gossip :: "(msg \<Rightarrow> 'b option) \<Rightarrow> ('b \<Rightarrow> msg option) \<Rightarrow> uuid \<Rightarrow> unit res" where
  "test_message_serialization_gossip encode decode u =
     (let table = hm_insert u ''10.0.0.1:3000'' [] in
      bind_res (through_json encode decode (Gossip table)) (\<lambda>deserialized.
      case deserialized of Gossip t \<Rightarrow> assert_that (length t = 1 \<and> hm_contains t u)
      | _ \<Rightarrow> Err (Panic ''Deserialized wrong message type'')))"

lemma through_json_same:
  assumes "serde_law encode decode" "msg_wf m"
  obtains m' where "through_json encode decode m = Ok m'" "msg_same m m'"
proof -
  obtain data m' where "encode m = Some data" "decode data = Some m'" "msg_same m m'"
    using assms unfolding serde_law_def by blast
  then show ?thesis using that by (simp add: through_json_def)
qed

lemma table_length: "hm_wf t \<Longrightarrow> length t = card (dom (map_of t))"
  unfolding hm_wf_def by (metis dom_map_of_conv_image_fst distinct_card length_map list.set_map)

lemma view_contains: "awormap_view m = awormap_view m' \<Longrightarrow> hm_get (aw_items m) k = None \<longleftrightarrow> hm_get (aw_items m') k = None"
  by (metis awormap_view_def map_option_is_None)

lemma serialization_tests_pass:
  assumes law: "serde_law encode decode"
  shows "test_message_serialization_hello encode decode u = Ok ()" "test_message_serialization_ack encode decode = Ok ()"
    "test_message_serialization_list encode decode list_id client_id = Ok ()"
    "test_message_serialization_gossip encode decode u = Ok ()"
proof -
  obtain m where "through_json encode decode (Hello u ''127.0.0.1:9000'') = Ok m" "m = Hello u ''127.0.0.1:9000''"
    by (rule through_json_same [OF law, of "Hello u ''127.0.0.1:9000''"]) simp_all
  then show "test_message_serialization_hello encode decode u = Ok ()"
    by (simp add: test_message_serialization_hello_def)
  obtain m where "through_json encode decode (Ack ''req-abc123'') = Ok m" "m = Ack ''req-abc123''"
    by (rule through_json_same [OF law, of "Ack ''req-abc123''"]) simp_all
  then show "test_message_serialization_ack encode decode = Ok ()"
    by (simp add: test_message_serialization_ack_def)
  obtain m where "through_json encode decode (Gossip [(u, ''10.0.0.1:3000'')]) = Ok m"
      "msg_same (Gossip [(u, ''10.0.0.1:3000'')]) m"
    by (rule through_json_same [OF law, of "Gossip [(u, ''10.0.0.1:3000'')]"]) simp_all
  then show "test_message_serialization_gossip encode decode u = Ok ()"
    by (auto simp: test_message_serialization_gossip_def hm_contains_def table_length split: msg.splits)
  let ?lst = "\<lparr>sl_id = list_id, sl_list = awormap_insert awormap_new ''eggs'' (item_new 12 True client_id)\<rparr>"
  have "sl_wf ?lst"
    by (simp add: sl_wf_def message_test_simps item_new_def pncounter_with_count_def gcounter_with_count_def
        gcounter_new_def pncounter_ok_def gcounter_ok_def)
  then obtain m where m: "through_json encode decode (PutList ?lst) = Ok m" "msg_same (PutList ?lst) m"
    using through_json_same [OF law, of "PutList ?lst"] by (auto simp del: msg_same.simps)
  then show "test_message_serialization_list encode decode list_id client_id = Ok ()"
    by (auto simp: test_message_serialization_list_def sl_content_def message_test_simps
        dest!: view_contains [where k = "''eggs''"] split: msg.splits)
qed

end
