(* ===== verification/Ring_Tests.thy ===== *)
theory Ring_Tests
  imports Crdt_Tests Proxy
begin

text \<open>
  The unit tests of \<open>src/hash_ring.rs\<close>, as functions of the UUIDs they draw. They pass when the servers
  are distinct and no two of them have a point of the ring in common, whatever the digest.
\<close>

definition test_preference_list_returns_n_servers ::
    "'x digest_lib_scheme \<Rightarrow> uuid \<Rightarrow> uuid \<Rightarrow> uuid \<Rightarrow> uuid \<Rightarrow> uuid \<Rightarrow> unit res" where
  "test_preference_list_returns_n_servers lib node1 node2 node3 node4 list_id =
     (let ring = hash_ring_new 3 3;
          ring = add_node lib ring node1;
          ring = add_node lib ring node2;
          ring = add_node lib ring node3;
          ring = add_node lib ring node4;
          preference_list = get_preference_list lib ring list_id in
      bind_res (assert_that (length preference_list = 3)) (\<lambda>_.
      let unique = set preference_list in assert_that (card unique = 3)))"

definition test_coordinator_is_first_in_preference_list ::
    "'x digest_lib_scheme \<Rightarrow> uuid \<Rightarrow> uuid \<Rightarrow> uuid \<Rightarrow> unit res" where
  "test_coordinator_is_first_in_preference_list lib node1 node2 list_id =
     (let ring = hash_ring_new 5 3;
          ring = add_node lib ring node1;
          ring = add_node lib ring node2;
          coordinator = get_coordinator lib ring list_id;
          preference_list = get_preference_list lib ring list_id in
      assert_that (coordinator = (case preference_list of [] \<Rightarrow> None | n # _ \<Rightarrow> Some n)))"

definition test_remove_server :: "'x digest_lib_scheme \<Rightarrow> uuid \<Rightarrow> uuid \<Rightarrow> unit res" where
  "test_remove_server lib node1 node2 =
     (let ring = hash_ring_new 3 2;
          ring = add_node lib ring node1;
          ring = add_node lib ring node2 in
      bind_res (assert_that (server_count ring = 2)) (\<lambda>_.
      let ring = remove_node lib ring node1 in
      assert_that (server_count ring = 1 \<and> node2 \<in> get_all_servers ring \<and> node1 \<notin> get_all_servers ring)))"

definition test_handles_fewer_servers_than_replication_factor ::
    "'x digest_lib_scheme \<Rightarrow> uuid \<Rightarrow> uuid \<Rightarrow> uuid \<Rightarrow> unit res" where
  "test_handles_fewer_servers_than_replication_factor lib node1 node2 list_id =
     (let ring = hash_ring_new 3 5;
          ring = add_node lib ring node1;
          ring = add_node lib ring node2 in
      assert_that (length (get_preference_list lib ring list_id) = 2))"

lemma ring_of_two:
  assumes "no_collisions lib v [node1, node2]" "node1 \<noteq> node2" "0 < v"
  shows "server_count (add_node lib (add_node lib (hash_ring_new v r) node1) node2) = 2"
    and "get_all_servers (remove_node lib (add_node lib (add_node lib (hash_ring_new v r) node1) node2) node1) = {node2}"
  using ring_servers_of_set [OF assms(1,3), of r] ring_servers_removed [OF assms(1,3), of node1 r] assms(2)
  by (auto simp: server_count_def)

lemma ring_tests_pass:
  assumes "distinct [node1, node2, node3, node4]" "no_collisions lib 3 [node1, node2, node3, node4]"
  shows "test_preference_list_returns_n_servers lib node1 node2 node3 node4 list_id = Ok ()"
    "test_coordinator_is_first_in_preference_list lib node1 node2 list_id = Ok ()"
    "test_remove_server lib node1 node2 = Ok ()"
    "test_handles_fewer_servers_than_replication_factor lib node1 node2 list_id = Ok ()"
proof -
  have two: "no_collisions lib 3 [node1, node2]" "node1 \<noteq> node2" "(0 :: nat) < 3"
    using assms by (auto simp: no_collisions_def)
  let ?four = "add_node lib (add_node lib (add_node lib (add_node lib (hash_ring_new 3 3) node1) node2) node3) node4"
  let ?pref = "get_preference_list lib ?four list_id"
  have "server_count ?four = 4"
    using ring_servers_of_set [OF assms(2) two(3), of 3] assms(1) by (simp add: server_count_def)
  then have "length ?pref = 3" "distinct ?pref"
    using pref_list_shape [of lib ?four list_id] by (simp_all add: add_node_def hash_ring_new_def)
  then show "test_preference_list_returns_n_servers lib node1 node2 node3 node4 list_id = Ok ()"
    by (simp add: test_preference_list_returns_n_servers_def distinct_card)
  show "test_coordinator_is_first_in_preference_list lib node1 node2 list_id = Ok ()"
    by (simp add: test_coordinator_is_first_in_preference_list_def get_coordinator_def)
  show "test_remove_server lib node1 node2 = Ok ()"
    using ring_of_two [OF two, of 2] two(2) by (simp add: test_remove_server_def) (simp add: server_count_def)
  show "test_handles_fewer_servers_than_replication_factor lib node1 node2 list_id = Ok ()"
    using ring_of_two(1) [OF two, of 5] pref_list_shape [of lib _ list_id]
    by (simp add: test_handles_fewer_servers_than_replication_factor_def) (simp add: add_node_def hash_ring_new_def)
qed

end
