(* ===== verification/Spec2Isabelle.thy ===== *)
theory Spec2Isabelle
  imports End_To_End Peer_Threads Ack_Overlap Startup Message_Tests Ring_Tests
begin

text \<open>
  \<^bold>\<open>A shopping list shared by local-first clients over a ring of servers.\<close>

  The program (Rust, under \<open>src/src\<close>) has three kinds of processes. A \<^emph>\<open>client\<close> keeps its lists in a
  SQLite database, edits them through a text interface and exchanges whole lists with the servers.
  The \<^emph>\<open>proxy\<close> sends a client's request to the coordinator of the list and the reply back. The
  \<^emph>\<open>servers\<close> place lists on a consistent-hashing ring, replicate them, answer when a quorum of replicas
  has acknowledged, hold lists for servers that cannot be reached, and learn of each other by
  gossip. A list is a map of items, each a positive-negative counter and a last-writer-wins register,
  merged as a CRDT.

  \<^bold>\<open>Theories and the code they model.\<close>
  \<^item> \<open>Prelude\<close>: machine integers (\<open>u32\<close>, \<open>u64\<close>, \<open>u128\<close>, \<open>i64\<close> with the checked arithmetic of a debug
    build), errors as values, hash maps as association lists, the error bind and its loops.
    \<open>Bytes\<close>: big-endian bytes, SQLite's order of blobs, decimal numbers. \<open>Action\<close>: calls that change a
    state and return a result, with the locks the calling thread holds.
  \<^item> \<open>Mergeable\<close>, \<open>Crdt\<close>: the merge interface (a locale with its convergence theorem) and \<open>crdt.rs\<close>.
  \<^item> \<open>Ordered_Map\<close>, \<open>Hash_Ring\<close>: the ordered map interface and \<open>hash_ring.rs\<close>.
  \<^item> \<open>Keyed_Store\<close>, \<open>Server_Storage\<close>: the interface of a table with one row per key, and
    \<open>ServerStorage\<close> of \<open>storage.rs\<close>.
  \<^item> \<open>Message\<close>: \<open>Msg\<close> of \<open>message.rs\<close>.
  \<^item> \<open>Peer_State\<close>, \<open>Peer_Network\<close>, \<open>Peer_Handlers\<close>: \<open>server.rs\<close>: tables and quorum state; connections, sending,
    gossip, joining, leaving, background rounds, the search for a stand-in; the message handlers and the
    quorum requests, cut in two at their \<open>await\<close>.
  \<^item> \<open>Peer_Frame\<close>, \<open>Quorum\<close>, \<open>Peer_Faults\<close>, \<open>Peer_Lists\<close>: what calls leave alone; the step relation of
    a peer and the acknowledgements a client's answer rests on; availability, deadlocks, hand-off, joining and
    leaving; what the handlers do to the stored lists.
  \<^item> \<open>Lock_Order\<close>, \<open>Peer_Threads\<close>: threads over mutexes, and the tasks of a peer (\<open>Peer::start\<close>, \<open>Peer::listen\<close>) as such
    threads: each task is the sequence of locks its code takes and releases. \<open>Ack_Overlap\<close>: acknowledgements that are
    handled between the steps of other calls.
  \<^item> \<open>Peer_Contract\<close>, \<open>Cluster\<close>: the interface of what every call of a peer keeps (a locale), and all servers together
    with the messages between them, as a step relation.
  \<^item> \<open>Client_Storage\<close>, \<open>Client_Lists\<close>: \<open>ClientStorage\<close> of \<open>storage.rs\<close> and what it does to lists and items.
  \<^item> \<open>Client_Net\<close>, \<open>Client_Sync\<close>: \<open>client.rs\<close> and what fetching and editing guarantee.
  \<^item> \<open>Proxy\<close>: \<open>proxy.rs\<close>. \<open>Cli\<close>, \<open>Cli_Session\<close>: \<open>cli.rs\<close> and the client's start
    and loop of \<open>main.rs\<close>. \<open>Startup\<close>: the other commands of \<open>main.rs\<close>, that is the five servers and how they join, the port
    file, the choice of the command (\<open>remove-peer\<close> is in \<open>Cluster\<close>).
  \<^item> \<open>End_To_End\<close>: a put from a client to the coordinator and back, and an edit that another client is shown.
  \<^item> \<open>Crdt_Tests\<close>, \<open>Message_Tests\<close>, \<open>Ring_Tests\<close>: the unit tests of the repository, with lemmas that they pass on the
    model, whatever UUIDs they draw.

  \<^bold>\<open>How the model is to be read.\<close> Structs are records and enums datatypes with the source's
  names. A Rust \<open>Result\<close> is a sum; \<open>Panic\<close>, \<open>Deadlock\<close> (a thread takes a mutex it holds), \<open>Hang\<close> (a loop that never
  ends) and \<open>Fail\<close> (an error value) are told apart. Hash maps are lists of entries in any order
  with distinct keys; statements about them speak of lookups, so no order is assumed. Libraries are
  parameters: MD5, the text form of UUIDs, JSON, the conversion of integers for SQLite, with the
  laws that are used as named hypotheses (\<open>uuid_law\<close>, \<open>json_law\<close>, \<open>sql_u64_law\<close>), each shown satisfiable
  by an instance the witnesses compute with. What the outside does (ZeroMQ calls, SQLite,
  clocks, drawn UUIDs, random choices) is read from a world, one outcome per tick; a theorem over all
  worlds holds for all outcomes. Tables are lists of rows; a statement fails as a whole.

  \<^bold>\<open>What the theorems show.\<close> Replicas that merge the same lists agree; counters, registers and the
  map of items merge as meant; placement is one walk around the ring, and joining and leaving move only
  the lists they must; a peer answers a client only after a quorum of acknowledgements, a put completes on a
  network that works, and a handler other than the one for gossip always comes back; a hand-off round gives up no list
  that it has not sent in that round; a read merges every list the replicas answered; a
  replica stores before it acknowledges. Over all runs of the cluster, with losses, reordering, servers that come and go: a
  put that was acknowledged to its client is held by the coordinator and was stored for at least \<open>WRITE_NODES\<close> deliveries;
  tables, storages and messages stay well formed, and no table ever holds a wrong address. Tasks that lock nothing
  twice always finish together, in every interleaving, as long as no leaving peer sends while a gossip is handled. The five servers of the
  program find each other. On the client, setting a quantity and a status is read
  back exactly, lists survive writing and reading, edits are stored whatever the network does, fetching merges, the menus accept
  exactly their commands and every session ends, in a panic or at the end of the input at the latest. The proxy sends every request for a list to the registered
  server nearest to the list going clockwise, hands replies back, and
  agrees with the servers on who coordinates a list. Put together: a client's put reaches the coordinator, which asks the replicas, is stored by all of them and
  answered, and an edit of one client is what another client is shown.
  Some theorems state what the code does against its intention: failure marks that are never unavailable, transfers of lists by gossip that
  never send anything, gossip and leaving that block each other, failure detection that freezes the peer, merges of the server's storage that are dropped, quantities below zero and sums that panic, a proxy that
  forgets no server.

  \<^bold>\<open>Bounds and fuel.\<close> Totals are exact below \<open>2 ^ 63\<close> and overflow panics as in a debug build. The
  search for a stand-in is a partial function, which need not end. The loop over the screens of a session takes as
  fuel two more than there are lines of input, which is enough. The loops of background tasks, of
  the listeners and of the proxy are modelled by their rounds.

  \<^bold>\<open>Interleaving.\<close> Calls of a peer are modelled in two ways. In the cluster whole calls interleave (a quorum request
  being two calls, before and after its \<open>await\<close>), so what is shown there holds of the data as long as each call runs to its end
  on its own; an acknowledgement may be handled inside another call, which \<open>Ack_Overlap\<close> shows to be the same. In \<open>Peer_Threads\<close> the lock operations of any number of concurrent tasks interleave one by one, without the
  data. That any two calls that overlap leave data as some sequence of whole calls is not shown.

  \<^bold>\<open>Not modelled.\<close> Opening sockets and database files and the paths of the files, printing and the usage text, the length of
  timers (\<open>Peer::gossip\<close> only repeats \<open>send_gossip\<close>), what \<open>Drop\<close> closes, \<open>Request\<close>, \<open>Response\<close> and \<open>DealerMap\<close>, which nothing
  uses, and the part of \<open>crdt.rs\<close> that is commented out. Text of the user interface is restricted to characters below 256.
  Servers do not crash as a step of its own: one that has crashed takes no more steps and its messages may be lost, which the
  cluster allows at any time, and one that is started again draws a new UUID and opens a database of its own, so it is a new
  server. The answer to a greeting and the rest of joining are one step of the seed in \<open>Startup\<close>.
\<close>

section \<open>The proxy and the servers\<close>

lemma add_nodes_foldl:
  "add_nodes w [] members p = (p\<lparr>p_hashring := foldl (add_node w) (p_hashring p) members\<rparr>, Ok ())"
  by (simp add: add_nodes_def)

text \<open>C13: The proxy and the servers agree. Once the same servers have registered with the proxy and are known to a peer
  by gossip, in whatever order (no two of them having a point in common), the peer that the proxy sends a list's
  requests to takes itself for the coordinator, and the replicas it asks are the other servers of the list's
  preference list on the proxy's ring.\<close>

theorem proxy_and_servers_agree:
  assumes "proxy_start w from_slice events proxy_new = (px, Ok ())"
    and "set (List.map_filter (round_registers w) events) = insert own (set members)"
    and "no_collisions w VNODES (own # members)"
    and "get_coordinator w (px_ring px) i = Some own"
  shows "\<exists>q. add_nodes w [] members (peer_new w own addr storage) = (q, Ok ()) \<and>
    is_coordinator w [] i q = (q, Ok True) \<and>
    get_replicas w [] i q = (q, Ok (drop 1 (get_preference_list w (px_ring px) i)))"
proof -
  let ?q = "(peer_new w own addr storage)\<lparr>p_hashring := foldl (add_node w) (hash_ring_new VNODES REPLICAS) (own # members)\<rparr>"
  have "px_ring px = foldl (add_node w) (hash_ring_new VNODES REPLICAS) (List.map_filter (round_registers w) events)"
    using proxy_start_ring [OF assms(1)] by (simp add: proxy_new_def)
  also have "\<dots> = p_hashring ?q"
    using ring_of_set [OF assms(3), of "List.map_filter (round_registers w) events" REPLICAS] assms(2) by simp
  finally have ring: "p_hashring ?q = px_ring px" ..
  have "add_nodes w [] members (peer_new w own addr storage) = (?q, Ok ())"
    by (simp add: add_nodes_foldl peer_new_def)
  moreover have "is_coordinator w [] i ?q = (?q, Ok True)"
    using assms(4) unfolding is_coordinator_def by (simp add: act_bind_apply ring del: foldl_Cons) (simp add: peer_new_def)
  moreover have "get_replicas w [] i ?q = (?q, Ok (drop 1 (get_preference_list w (px_ring px) i)))"
    unfolding get_replicas_def by (simp add: ring del: foldl_Cons)
  ultimately show ?thesis by blast
qed

text \<open>Servers 1 and 2, which found each other by gossip and registered in the order 1, 2.\<close>

lemma sample_proxy_run:
  "proxy_start sample_world (\<lambda>_. None) sample_events proxy_new =
     (\<lparr>px_ring = \<lparr>hr_ring = [(3, 1), (4, 2)], hr_virtual_nodes = 3, hr_replicas = 3\<rparr>, px_backend = [],
        px_frontend = [[[1], [], [2]]]\<rparr>, Ok ())"
  by (simp add: proxy_start_def sample_events_def proxy_round_def proxy_backend_def act_bind_apply registration_def
      ascii_str_def as_bytes_def Let_def add_node_sample_world proxy_new_def hash_ring_new_def VNODES_def REPLICAS_def)

lemma sample_registrations_world: "List.map_filter (round_registers sample_world) sample_events = [1, 2]"
  by (simp add: sample_events_def map_filter_simps round_registers_def registration_def ascii_str_def as_bytes_def)

theorem proxy_and_servers_agree_witness:
  "is_coordinator sample_world [] 7 (fst (add_nodes sample_world [] [2] sample_peer)) =
     (fst (add_nodes sample_world [] [2] sample_peer), Ok True)"
proof -
  have "no_collisions sample_world VNODES [1, 2]"
    by (simp add: no_collisions_def VNODES_def vnode_hash_sample_world upt_rec)
  moreover have "get_coordinator sample_world \<lparr>hr_ring = [(3, 1), (4, 2)], hr_virtual_nodes = 3, hr_replicas = 3\<rparr> 7 = Some 1"
    by (simp add: get_coordinator_def get_preference_list_def bt_range_from_def)
  ultimately show ?thesis
    using proxy_and_servers_agree [OF sample_proxy_run, of 1 "[2]" 7 "''a''" "\<lparr>ss_server_id = 1, ss_rows = []\<rparr>"]
    by (auto simp: sample_registrations_world sample_peer_def)
qed

end
